(* ===== verification/Prelude.thy ===== *)
theory Prelude
  imports Complex_Main "HOL-Library.Multiset" "HOL-Library.AList"
begin

text \<open>
  Shared vocabulary of the development: the exceptions of the program as values, the Python
  built-ins the modules share (\<open>min\<close> with a key, \<open>sorted\<close>, list slices, insertion-ordered
  dictionaries), and the lemma collections the component theories simplify with.

  Conventions used everywhere:
  \<^item> a call that may raise returns \<open>py_exc + 'a\<close>; where the call also mutates state the new state
    is returned beside the result, because a Python exception does not undo a mutation;
  \<^item> a reading of a clock (\<open>time.time\<close>, \<open>time.monotonic\<close>) and a fresh \<open>uuid4\<close> are arguments;
  \<^item> Python integers are \<open>int\<close> (or \<open>nat\<close> for counters that only grow), Python floats are \<open>real\<close>:
    order, sign and the algebra of the formulas are modelled, rounding is not;
  \<^item> \<open>print\<close> calls are not modelled.
\<close>

section \<open>Collections\<close>

named_theorems result_simps \<open>unfolding the error-or-value results\<close>
named_theorems inv_intros \<open>preservation of the component invariants\<close>

section \<open>Exceptions\<close>

datatype py_exc =
    RuntimeError string
  | NoCapacityError string
  | ValueError string
  | KeyError string
  | AttributeError string
  | TypeError string
  | IndexError string
  | ZeroDivisionError
  | HTTPException nat string
  | ResponseError string
  | ServiceError string

type_synonym 'a result = "py_exc + 'a"

text \<open>
  \<open>ResponseError\<close> is Redis's own error reply, \<open>ServiceError\<close> any other exception of an external
  service. \<open>except RuntimeError\<close>: \<open>NoCapacityError\<close> is a subclass of \<open>RuntimeError\<close>.
\<close>

fun is_runtime_error :: "py_exc \<Rightarrow> bool" where
  "is_runtime_error (RuntimeError _) = True"
| "is_runtime_error (NoCapacityError _) = True"
| "is_runtime_error _ = False"

fun exc_text :: "py_exc \<Rightarrow> string" where
  "exc_text (RuntimeError m) = m"
| "exc_text (NoCapacityError m) = m"
| "exc_text (ValueError m) = m"
| "exc_text (KeyError k) = CHR 0x27 # k @ [CHR 0x27]"
| "exc_text (AttributeError m) = m"
| "exc_text (TypeError m) = m"
| "exc_text (IndexError m) = m"
| "exc_text ZeroDivisionError = ''division by zero''"
| "exc_text (HTTPException _ d) = d"
| "exc_text (ResponseError m) = m"
| "exc_text (ServiceError m) = m"

section \<open>Dictionaries\<close>

text \<open>
  A Python dictionary keeps insertion order; assigning to a present key keeps its place. That is
  \<open>AList.update\<close>; \<open>pop\<close> is \<open>AList.delete\<close>; lookup is \<open>map_of\<close>.
\<close>

type_synonym 'v pydict = "(string \<times> 'v) list"

definition dict_get :: "'v pydict \<Rightarrow> string \<Rightarrow> 'v \<Rightarrow> 'v" where
  "dict_get d k v = (case map_of d k of None \<Rightarrow> v | Some x \<Rightarrow> x)"

text \<open>\<open>{**d, **e}\<close>\<close>

definition dict_merge :: "'v pydict \<Rightarrow> 'v pydict \<Rightarrow> 'v pydict" where
  "dict_merge d e = fold (\<lambda>(k, v) acc. AList.update k v acc) e d"

lemma map_of_dict_merge: "distinct (map fst e) \<Longrightarrow> map_of (dict_merge d e) = map_of d ++ map_of e"
proof (induction e arbitrary: d)
  case Nil
  then show ?case by (simp add: dict_merge_def)
next
  case (Cons p e)
  obtain k v where p: "p = (k, v)" by force
  have "map_of (dict_merge d (p # e)) = map_of (dict_merge (AList.update k v d) e)"
    by (simp add: dict_merge_def p)
  also have "\<dots> = map_of (AList.update k v d) ++ map_of e"
    using Cons by simp
  also have "\<dots> = map_of d ++ map_of (p # e)"
  proof
    fix x
    have "map_of e k = None" using Cons.prems p by (auto simp: map_of_eq_None_iff)
    then show "(map_of (AList.update k v d) ++ map_of e) x = (map_of d ++ map_of (p # e)) x"
      by (auto simp: p map_add_def update_conv split: option.split)
  qed
  finally show ?case .
qed

section \<open>min, sorted and slices\<close>

text \<open>\<open>min(xs, key=f)\<close>: the first element with the least key; \<open>None\<close> where Python raises.\<close>

fun py_min_by :: "('a \<Rightarrow> 'k::linorder) \<Rightarrow> 'a list \<Rightarrow> 'a option" where
  "py_min_by f [] = None"
| "py_min_by f (x # xs) =
     (case py_min_by f xs of None \<Rightarrow> Some x | Some y \<Rightarrow> if f x \<le> f y then Some x else Some y)"

lemma py_min_by_None [simp]: "py_min_by f xs = None \<longleftrightarrow> xs = []"
  by (cases xs) (auto split: option.splits)

lemma py_min_by_in: "py_min_by f xs = Some y \<Longrightarrow> y \<in> set xs"
  by (induction xs arbitrary: y) (auto split: option.splits if_splits)

lemma py_min_by_le: "py_min_by f xs = Some y \<Longrightarrow> x \<in> set xs \<Longrightarrow> f y \<le> f x"
proof (induction xs arbitrary: x y)
  case (Cons a xs)
  show ?case
  proof (cases "py_min_by f xs")
    case None
    with Cons.prems show ?thesis by simp
  next
    case (Some z)
    with Cons.IH have "\<And>x. x \<in> set xs \<Longrightarrow> f z \<le> f x" by blast
    with Some Cons.prems show ?thesis by (force split: if_splits)
  qed
qed simp

text \<open>\<open>sorted(xs, key=f, reverse=r)\<close>: stable in both directions.\<close>

definition py_sorted :: "('a \<Rightarrow> 'k::linorder) \<Rightarrow> bool \<Rightarrow> 'a list \<Rightarrow> 'a list" where
  "py_sorted f r xs = (if r then rev (sort_key f (rev xs)) else sort_key f xs)"

lemma mset_py_sorted [simp]: "mset (py_sorted f r xs) = mset xs"
  by (simp add: py_sorted_def)

lemma set_py_sorted [simp]: "set (py_sorted f r xs) = set xs"
  by (simp add: py_sorted_def)

lemma length_py_sorted [simp]: "length (py_sorted f r xs) = length xs"
  by (simp add: py_sorted_def)

lemma sorted_py_sorted:
  "sorted_wrt (\<lambda>x y. if r then f y \<le> f x else f x \<le> f y) (py_sorted f r xs)"
proof (cases r)
  case True
  have "sorted_wrt (\<lambda>x y. f x \<le> f y) (sort_key f (rev xs))"
    by (metis sorted_map sorted_sort_key)
  then show ?thesis using True by (simp add: py_sorted_def sorted_wrt_rev)
next
  case False
  have "sorted_wrt (\<lambda>x y. f x \<le> f y) (sort_key f xs)"
    by (metis sorted_map sorted_sort_key)
  then show ?thesis using False by (simp add: py_sorted_def)
qed

lemma py_sorted_stable: "filter (\<lambda>x. f x = k) (py_sorted f r xs) = filter (\<lambda>x. f x = k) xs"
proof -
  have "filter (\<lambda>x. f x = k) (sort_key f ys) = filter (\<lambda>x. f x = k) ys" for ys :: "'a list"
    by (rule sort_key_stable)
  then show ?thesis by (simp add: py_sorted_def rev_filter [symmetric])
qed

text \<open>\<open>xs[a:b]\<close>: negative bounds count from the end and every bound is clipped to the list.\<close>

definition slice_bound :: "int \<Rightarrow> int \<Rightarrow> nat" where
  "slice_bound n i = nat (if i < 0 then max 0 (n + i) else min i n)"

definition py_slice :: "'a list \<Rightarrow> int \<Rightarrow> int \<Rightarrow> 'a list" where
  "py_slice xs a b =
     (let n = int (length xs)
      in drop (slice_bound n a) (take (slice_bound n b) xs))"

lemma py_slice_prefix: "0 \<le> b \<Longrightarrow> py_slice xs 0 b = take (nat b) xs"
  by (auto simp: py_slice_def slice_bound_def min_def Let_def)

lemma set_py_slice: "set (py_slice xs a b) \<subseteq> set xs"
  unfolding py_slice_def Let_def by (meson in_set_dropD in_set_takeD subsetI)

lemma length_py_slice: "length (py_slice xs a b) \<le> length xs"
  by (simp add: py_slice_def Let_def)

section \<open>Sums over lists\<close>

abbreviation sum_by :: "('a \<Rightarrow> 'b::comm_monoid_add) \<Rightarrow> 'a list \<Rightarrow> 'b" where
  "sum_by f xs \<equiv> sum_list (map f xs)"

lemma sum_by_mset: "mset xs = mset ys \<Longrightarrow> sum_by f xs = sum_by f ys"
  by (metis mset_map sum_mset_sum_list)

lemma sum_by_filter_split:
  "sum_by f (filter P xs) + sum_by f (filter (\<lambda>x. \<not> P x) xs) = sum_by f xs"
  by (induction xs) (auto simp: add_ac)

lemma sum_by_nonneg: "(\<And>x. x \<in> set xs \<Longrightarrow> 0 \<le> f x) \<Longrightarrow> 0 \<le> (sum_by f xs :: int)"
  by (induction xs) auto

lemma filter_id_removes:
  assumes "distinct (map g xs)" "x \<in> set xs"
  shows "sum_by f (filter (\<lambda>y. g y \<noteq> g x) xs) = sum_by f xs - (f x :: int)"
  using assms
proof (induction xs)
  case (Cons a xs)
  show ?case
  proof (cases "g a = g x")
    case True
    with Cons.prems have ax: "a = x" by (auto dest: in_set_conv_nth [THEN iffD1] simp: image_iff)
    have "g y \<noteq> g x" if "y \<in> set xs" for y
      using Cons.prems that ax by (auto simp: image_iff)
    then have "filter (\<lambda>y. g y \<noteq> g x) xs = xs" by (simp add: filter_id_conv)
    with ax show ?thesis by simp
  next
    case False
    with Cons.prems have "x \<in> set xs" by auto
    with Cons False show ?thesis by simp
  qed
qed simp

lemma count_list_distinct: "distinct xs \<Longrightarrow> x \<in> set xs \<Longrightarrow> count_list xs x = 1"
  by (induction xs) auto

section \<open>Comprehensions that may raise\<close>

fun traverse :: "('a \<Rightarrow> 'b result) \<Rightarrow> 'a list \<Rightarrow> 'b list result" where
  "traverse f [] = Inr []"
| "traverse f (x # xs) =
     (case f x of Inl e \<Rightarrow> Inl e
      | Inr y \<Rightarrow> (case traverse f xs of Inl e \<Rightarrow> Inl e | Inr ys \<Rightarrow> Inr (y # ys)))"

lemma traverse_Inr: "(\<And>x. x \<in> set xs \<Longrightarrow> f x = Inr (g x)) \<Longrightarrow> traverse f xs = Inr (map g xs)"
  by (induction xs) auto

lemma traverse_length: "traverse f xs = Inr ys \<Longrightarrow> length ys = length xs"
  by (induction xs arbitrary: ys) (auto split: sum.splits)

lemma traverse_append:
  "traverse f (xs @ ys) = (case traverse f xs of Inl e \<Rightarrow> Inl e
     | Inr us \<Rightarrow> (case traverse f ys of Inl e \<Rightarrow> Inl e | Inr vs \<Rightarrow> Inr (us @ vs)))"
  by (induction xs) (auto split: sum.split)

end
