(* ===== verification/PyText.thy ===== *)
theory PyText
  imports Prelude "HOL-Library.Sublist"
begin

text \<open>
  The string built-ins the program calls: \<open>str.lower\<close>, \<open>splitlines\<close>, \<open>split\<close>, \<open>strip\<close>,
  \<open>rstrip\<close>, \<open>join\<close>, \<open>in\<close>, \<open>str\<close> of an integer and the regular expression \<open>[a-z0-9]+\<close>.
  A \<open>char\<close> stands for one Python code point below 256, so \<open>length\<close> counts code points as
  \<open>len\<close> does; the functions follow Python on that range.
\<close>

section \<open>Characters\<close>

abbreviation code :: "char \<Rightarrow> nat" where
  "code c \<equiv> of_char c"

definition lower_char :: "char \<Rightarrow> char" where
  "lower_char c =
     (if (65 \<le> code c \<and> code c \<le> 90) \<or> (192 \<le> code c \<and> code c \<le> 222 \<and> code c \<noteq> 215)
      then char_of (code c + 32) else c)"

definition is_line_break :: "char \<Rightarrow> bool" where
  "is_line_break c = (code c \<in> {10, 11, 12, 13, 28, 29, 30, 133})"

definition is_space :: "char \<Rightarrow> bool" where
  "is_space c = (code c \<in> {9, 10, 11, 12, 13, 28, 29, 30, 31, 32, 133, 160})"

text \<open>The class \<open>[a-z0-9]\<close>.\<close>

definition is_word_char :: "char \<Rightarrow> bool" where
  "is_word_char c = ((97 \<le> code c \<and> code c \<le> 122) \<or> (48 \<le> code c \<and> code c \<le> 57))"

definition newline :: string where
  "newline = [char_of (10 :: nat)]"

section \<open>Case, stripping and joining\<close>

definition str_lower :: "string \<Rightarrow> string" where
  "str_lower s = map lower_char s"

lemma length_str_lower [simp]: "length (str_lower s) = length s"
  by (simp add: str_lower_def)

definition rstrip_char :: "char \<Rightarrow> string \<Rightarrow> string" where
  "rstrip_char c s = rev (dropWhile (\<lambda>x. x = c) (rev s))"

lemma rstrip_char_no_suffix: "rstrip_char c s \<noteq> [] \<Longrightarrow> last (rstrip_char c s) \<noteq> c"
proof -
  assume "rstrip_char c s \<noteq> []"
  then have "dropWhile (\<lambda>x. x = c) (rev s) \<noteq> []" by (simp add: rstrip_char_def)
  then have "hd (dropWhile (\<lambda>x. x = c) (rev s)) \<noteq> c" by (rule hd_dropWhile)
  then show ?thesis by (simp add: rstrip_char_def last_rev)
qed

lemma rstrip_char_idem [simp]: "rstrip_char c (rstrip_char c s) = rstrip_char c s"
  by (simp add: rstrip_char_def dropWhile_idem)

definition strip :: "string \<Rightarrow> string" where
  "strip s = rev (dropWhile is_space (rev (dropWhile is_space s)))"

lemma strip_idem [simp]: "strip (strip s) = strip s"
proof -
  have idem: "dropWhile is_space (rev (dropWhile is_space (rev t))) = rev (dropWhile is_space (rev t))"
    if "dropWhile is_space t = t" for t
  proof (cases "rev (dropWhile is_space (rev t))")
    case Nil
    then show ?thesis by (simp only: dropWhile.simps)
  next
    case (Cons a u)
    have "prefix (rev (dropWhile is_space (rev t))) t"
      by (metis prefixI rev_append rev_rev_ident takeWhile_dropWhile_id)
    with Cons obtain v where "t = a # v" by (auto simp: prefix_def)
    with that have "\<not> is_space a"
      by (metis dropWhile_eq_self_iff list.discI list.sel(1))
    with Cons show ?thesis by simp
  qed
  have "dropWhile is_space (dropWhile is_space s) = dropWhile is_space s"
    by (rule dropWhile_idem)
  then show ?thesis by (simp add: strip_def idem dropWhile_idem)
qed

fun str_join :: "string \<Rightarrow> string list \<Rightarrow> string" where
  "str_join sep [] = []"
| "str_join sep [x] = x"
| "str_join sep (x # y # xs) = x @ sep @ str_join sep (y # xs)"

lemma length_str_join:
  "xs \<noteq> [] \<Longrightarrow> length (str_join sep xs) = sum_list (map length xs) + (length xs - 1) * length sep"
  by (induction sep xs rule: str_join.induct) auto

lemma length_str_join_ge: "x \<in> set xs \<Longrightarrow> length x \<le> length (str_join sep xs)"
  by (induction sep xs rule: str_join.induct) auto

section \<open>Splitting\<close>

text \<open>\<open>s.split(c)\<close> for a one-character separator: always at least one field.\<close>

fun str_split :: "char \<Rightarrow> string \<Rightarrow> string list" where
  "str_split c [] = [[]]"
| "str_split c (x # xs) =
     (if x = c then [] # str_split c xs
      else (case str_split c xs of [] \<Rightarrow> [[x]] | f # fs \<Rightarrow> (x # f) # fs))"

lemma str_split_nonempty [simp]: "str_split c s \<noteq> []"
  by (induction c s rule: str_split.induct) (auto split: list.splits)

lemma str_join_split: "str_join [c] (str_split c s) = s"
proof (induction c s rule: str_split.induct)
  case (2 c x xs)
  obtain f fs where f: "str_split c xs = f # fs"
    by (metis list.exhaust str_split_nonempty)
  show ?case
  proof (cases "x = c")
    case True
    with 2 f show ?thesis by simp
  next
    case False
    with 2 f show ?thesis by (cases fs) auto
  qed
qed simp

lemma str_split_no_sep: "f \<in> set (str_split c s) \<Longrightarrow> c \<notin> set f"
proof (induction c s arbitrary: f rule: str_split.induct)
  case (2 c x xs)
  show ?case
  proof (cases "x = c")
    case True
    with 2 show ?thesis by auto
  next
    case False
    with 2 show ?thesis by (auto split: list.splits)
  qed
qed simp

text \<open>\<open>str.splitlines\<close>: \<open>\r\n\<close> is one boundary and a final boundary opens no further line.\<close>

fun take_line :: "string \<Rightarrow> string \<times> string" where
  "take_line [] = ([], [])"
| "take_line (c # cs) =
     (if is_line_break c
      then ([], if code c = 13 \<and> cs \<noteq> [] \<and> code (hd cs) = 10 then tl cs else cs)
      else (let (l, r) = take_line cs in (c # l, r)))"

lemma take_line_shorter: "s \<noteq> [] \<Longrightarrow> length (snd (take_line s)) < length s"
proof (induction s rule: take_line.induct)
  case (2 c cs)
  then show ?case by (cases "cs = []") (auto split: prod.splits)
qed simp

lemma take_line_no_break: "c \<in> set (fst (take_line s)) \<Longrightarrow> \<not> is_line_break c"
  by (induction s rule: take_line.induct) (auto split: prod.splits if_splits)

lemma take_line_plain: "(\<And>c. c \<in> set s \<Longrightarrow> \<not> is_line_break c) \<Longrightarrow> take_line s = (s, [])"
  by (induction s rule: take_line.induct) auto

function splitlines :: "string \<Rightarrow> string list" where
  "splitlines s =
     (if s = [] then [] else (let (l, r) = take_line s in l # splitlines r))"
  by pat_completeness auto
termination
  by (relation "measure length") (auto, metis snd_conv take_line_shorter)

declare splitlines.simps [simp del]

lemma splitlines_Nil [simp]: "splitlines [] = []"
  by (simp add: splitlines.simps)

lemma splitlines_Cons: "s \<noteq> [] \<Longrightarrow> splitlines s = fst (take_line s) # splitlines (snd (take_line s))"
  by (subst splitlines.simps) (simp add: case_prod_beta Let_def)

lemma splitlines_eq_Nil [simp]: "splitlines s = [] \<longleftrightarrow> s = []"
  by (cases "s = []") (auto simp: splitlines_Cons)

lemma splitlines_plain:
  "s \<noteq> [] \<Longrightarrow> (\<And>c. c \<in> set s \<Longrightarrow> \<not> is_line_break c) \<Longrightarrow> splitlines s = [s]"
  by (simp add: splitlines_Cons take_line_plain)

lemma splitlines_no_break: "l \<in> set (splitlines s) \<Longrightarrow> c \<in> set l \<Longrightarrow> \<not> is_line_break c"
proof (induction s rule: splitlines.induct)
  case (1 s)
  show ?case
  proof (cases "s = []")
    case False
    with "1.prems" consider "l = fst (take_line s)" | "l \<in> set (splitlines (snd (take_line s)))"
      by (auto simp: splitlines_Cons)
    then show ?thesis
    proof cases
      case 1
      with \<open>c \<in> set l\<close> show ?thesis by (simp add: take_line_no_break)
    next
      case 2
      with "1.IH" [OF False prod.collapse refl] \<open>c \<in> set l\<close> show ?thesis by simp
    qed
  qed (use 1 in simp)
qed

section \<open>Substring test and word extraction\<close>

fun contains :: "string \<Rightarrow> string \<Rightarrow> bool" where
  "contains k [] = (k = [])"
| "contains k (c # cs) = (prefix k (c # cs) \<or> contains k cs)"

lemma contains_sublist: "contains k s \<longleftrightarrow> sublist k s"
  by (induction k s rule: contains.induct) (auto simp: sublist_Cons_right)

text \<open>\<open>re.findall(r"[a-z0-9]+", s)\<close>: the maximal runs of word characters.\<close>

function find_words :: "string \<Rightarrow> string list" where
  "find_words s =
     (let t = dropWhile (\<lambda>c. \<not> is_word_char c) s
      in if t = [] then [] else takeWhile is_word_char t # find_words (dropWhile is_word_char t))"
  by pat_completeness auto
termination
proof (relation "measure length", simp)
  fix s t :: string
  assume t: "t = dropWhile (\<lambda>c. \<not> is_word_char c) s" and ne: "t \<noteq> []"
  from ne obtain a u where au: "t = a # u" by (meson list.exhaust)
  have "is_word_char (hd t)"
    unfolding t using hd_dropWhile [OF ne [unfolded t]] by simp
  then have "is_word_char a" by (simp only: au list.sel)
  then have "length (dropWhile is_word_char t) \<le> length u"
    using au by (simp add: length_dropWhile_le)
  moreover have "length t \<le> length s"
    using t by (simp add: length_dropWhile_le)
  ultimately show "(dropWhile is_word_char t, s) \<in> measure length"
    using au by simp
qed

declare find_words.simps [simp del]

lemma find_words_word: "w \<in> set (find_words s) \<Longrightarrow> c \<in> set w \<Longrightarrow> is_word_char c"
proof (induction s rule: find_words.induct)
  case (1 s)
  show ?case
  proof (cases "dropWhile (\<lambda>c. \<not> is_word_char c) s = []")
    case True
    with 1 show ?thesis by (simp add: find_words.simps [of s])
  next
    case False
    let ?t = "dropWhile (\<lambda>c. \<not> is_word_char c) s"
    have "find_words s = takeWhile is_word_char ?t # find_words (dropWhile is_word_char ?t)"
      by (subst find_words.simps) (simp only: Let_def False if_False)
    with "1.prems" consider "w = takeWhile is_word_char ?t"
      | "w \<in> set (find_words (dropWhile is_word_char ?t))" by auto
    then show ?thesis
    proof cases
      case 1
      with \<open>c \<in> set w\<close> show ?thesis by (blast dest: set_takeWhileD)
    next
      case 2
      with "1.IH" [OF refl False] \<open>c \<in> set w\<close> show ?thesis by blast
    qed
  qed
qed

section \<open>Numbers\<close>

fun show_nat :: "nat \<Rightarrow> string" where
  "show_nat n =
     (if n < 10 then [char_of (48 + n)] else show_nat (n div 10) @ [char_of (48 + n mod 10)])"

declare show_nat.simps [simp del]

definition show_int :: "int \<Rightarrow> string" where
  "show_int i = (if i < 0 then ''-'' @ show_nat (nat (- i)) else show_nat (nat i))"

lemma show_nat_nonempty [simp]: "show_nat n \<noteq> []"
  by (subst show_nat.simps) simp

lemma show_nat_digits: "c \<in> set (show_nat n) \<Longrightarrow> 48 \<le> code c \<and> code c \<le> 57"
proof (induction n rule: show_nat.induct)
  case (1 n)
  show ?case
  proof (cases "n < 10")
    case True
    with "1.prems" show ?thesis by (simp add: show_nat.simps [of n])
  next
    case False
    then have eq: "show_nat n = show_nat (n div 10) @ [char_of (48 + n mod 10)]"
      by (simp add: show_nat.simps [of n])
    have "48 + n mod 10 < 256" by (simp add: less_le_trans [of "n mod 10" 10])
    then have "code (char_of (48 + n mod 10)) = 48 + n mod 10" by simp
    moreover have "n mod 10 < 10" by simp
    ultimately show ?thesis using "1.IH" [OF False] "1.prems" by (auto simp: eq)
  qed
qed

section \<open>repr\<close>

definition quote_char :: char where "quote_char = CHR 0x22"
definition backslash :: char where "backslash = CHR 0x5C"
definition apostrophe :: char where "apostrophe = CHR 0x27"

definition hex_digit :: "nat \<Rightarrow> char" where
  "hex_digit n = (if n < 10 then char_of (48 + n) else char_of (87 + n))"

text \<open>
  \<open>repr\<close> of a string: single quotes unless the text has a single and no double quote; the
  backslash and the quote are escaped, and so are unprintable code points.
\<close>

definition repr_char :: "char \<Rightarrow> char \<Rightarrow> string" where
  "repr_char q c =
     (if c = q \<or> c = backslash then [backslash, c]
      else if code c = 10 then [backslash, CHR ''n'']
      else if code c = 13 then [backslash, CHR ''r'']
      else if code c = 9 then [backslash, CHR ''t'']
      else if (32 \<le> code c \<and> code c \<le> 126) \<or> (161 \<le> code c \<and> code c \<noteq> 173) then [c]
      else [backslash, CHR ''x'', hex_digit (code c div 16), hex_digit (code c mod 16)])"

definition py_repr :: "string \<Rightarrow> string" where
  "py_repr s =
     (let q = (if apostrophe \<in> set s \<and> quote_char \<notin> set s then quote_char else apostrophe)
      in q # concat (map (repr_char q) s) @ [q])"

text \<open>\<open>repr\<close> of a list and of a tuple of at least two strings.\<close>

definition repr_list :: "string list \<Rightarrow> string" where
  "repr_list xs = ''['' @ str_join '', '' (map py_repr xs) @ '']''"

definition repr_tuple :: "string list \<Rightarrow> string" where
  "repr_tuple xs = ''('' @ str_join '', '' (map py_repr xs) @ '')''"

end
