(* ===== verification/PyJson.thy ===== *)
theory PyJson
  imports PyText
begin

text \<open>
  JSON documents as \<open>json.dumps\<close> writes them and \<open>json.loads\<close> reads them (the queue payloads,
  results and registry records that cross Redis are such texts). A float is a decimal \<open>JFloat m k\<close>,
  worth \<open>m / 10 ^ k\<close> with \<open>k\<close> fractional digits; exponents are outside the model, and so are
  characters above code point 255.
\<close>

section \<open>Documents\<close>

datatype json =
    JNull
  | JBool bool
  | JInt int
  | JFloat int nat
  | JStr string
  | JList "json list"
  | JDict "(string \<times> json) list"

text \<open>What Python can hold: a float has a fractional digit, the keys of a dictionary are distinct.\<close>

fun wf_json :: "json \<Rightarrow> bool" where
  "wf_json (JFloat m k) = (0 < k)"
| "wf_json (JList vs) = list_all wf_json vs"
| "wf_json (JDict kvs) = (distinct (map fst kvs) \<and> list_all (\<lambda>(k, v). wf_json v) kvs)"
| "wf_json _ = True"

section \<open>dumps\<close>

definition esc_char :: "char \<Rightarrow> string" where
  "esc_char c =
     (if c = quote_char then [backslash, quote_char]
      else if c = backslash then [backslash, backslash]
      else if code c = 10 then [backslash, CHR ''n'']
      else if code c = 13 then [backslash, CHR ''r'']
      else if code c = 9 then [backslash, CHR ''t'']
      else if code c = 12 then [backslash, CHR ''f'']
      else if code c = 8 then [backslash, CHR ''b'']
      else if 32 \<le> code c \<and> code c \<le> 126 then [c]
      else [backslash, CHR ''u'', CHR ''0'', CHR ''0'', hex_digit (code c div 16), hex_digit (code c mod 16)])"

definition dump_str :: "string \<Rightarrow> string" where
  "dump_str s = quote_char # concat (map esc_char s) @ [quote_char]"

fun pad_nat :: "nat \<Rightarrow> nat \<Rightarrow> string" where
  "pad_nat 0 n = []"
| "pad_nat (Suc k) n = pad_nat k (n div 10) @ [char_of (48 + n mod 10)]"

definition dump_float :: "int \<Rightarrow> nat \<Rightarrow> string" where
  "dump_float m k =
     (let a = nat \<bar>m\<bar>
      in (if m < 0 then ''-'' else []) @ show_nat (a div 10 ^ k) @ ''.'' @ pad_nat k (a mod 10 ^ k))"

fun dumps :: "json \<Rightarrow> string" where
  "dumps JNull = ''null''"
| "dumps (JBool b) = (if b then ''true'' else ''false'')"
| "dumps (JInt i) = show_int i"
| "dumps (JFloat m k) = dump_float m k"
| "dumps (JStr s) = dump_str s"
| "dumps (JList vs) = ''['' @ str_join '', '' (map dumps vs) @ '']''"
| "dumps (JDict kvs) = ''{'' @ str_join '', '' (map (\<lambda>(k, v). dump_str k @ '': '' @ dumps v) kvs) @ ''}''"

section \<open>loads\<close>

definition is_json_ws :: "char \<Rightarrow> bool" where
  "is_json_ws c = (code c \<in> {32, 9, 10, 13})"

definition skip_ws :: "string \<Rightarrow> string" where
  "skip_ws s = dropWhile is_json_ws s"

definition is_digit :: "char \<Rightarrow> bool" where
  "is_digit c = (48 \<le> code c \<and> code c \<le> 57)"

definition hex_val :: "char \<Rightarrow> nat option" where
  "hex_val c =
     (if is_digit c then Some (code c - 48)
      else if 97 \<le> code c \<and> code c \<le> 102 then Some (code c - 87)
      else if 65 \<le> code c \<and> code c \<le> 70 then Some (code c - 55)
      else None)"

definition hex4 :: "char \<Rightarrow> char \<Rightarrow> char \<Rightarrow> char \<Rightarrow> nat option" where
  "hex4 a b c d =
     (case (hex_val a, hex_val b, hex_val c, hex_val d) of
        (Some i, Some j, Some k, Some l) \<Rightarrow> Some (((i * 16 + j) * 16 + k) * 16 + l)
      | _ \<Rightarrow> None)"

definition unescape :: "char \<Rightarrow> char option" where
  "unescape e =
     (if e = quote_char \<or> e = backslash \<or> e = CHR ''/'' then Some e
      else if e = CHR ''n'' then Some (char_of (10 :: nat))
      else if e = CHR ''r'' then Some (char_of (13 :: nat))
      else if e = CHR ''t'' then Some (char_of (9 :: nat))
      else if e = CHR ''f'' then Some (char_of (12 :: nat))
      else if e = CHR ''b'' then Some (char_of (8 :: nat))
      else None)"

definition cons_fst :: "'a \<Rightarrow> ('a list \<times> 'b) option \<Rightarrow> ('a list \<times> 'b) option" where
  "cons_fst x p = (case p of None \<Rightarrow> None | Some (xs, r) \<Rightarrow> Some (x # xs, r))"

fun parse_str :: "string \<Rightarrow> (string \<times> string) option" where
  "parse_str [] = None"
| "parse_str (c # cs) =
     (if c = quote_char then Some ([], cs)
      else if c = backslash then
        (case cs of [] \<Rightarrow> None
         | e # r \<Rightarrow>
             if e = CHR ''u'' then
               (case r of a # b # x # y # q \<Rightarrow>
                  (case hex4 a b x y of
                     Some n \<Rightarrow> if n < 256 then cons_fst (char_of n) (parse_str q) else None
                   | None \<Rightarrow> None)
                | _ \<Rightarrow> None)
             else (case unescape e of None \<Rightarrow> None | Some d \<Rightarrow> cons_fst d (parse_str r)))
      else if code c < 32 then None
      else cons_fst c (parse_str cs))"

definition digits_val :: "string \<Rightarrow> nat" where
  "digits_val ds = foldl (\<lambda>a c. 10 * a + (code c - 48)) 0 ds"

text \<open>The integer part is \<open>0\<close> or a run of digits that does not start with \<open>0\<close>.\<close>

definition int_part :: "string \<Rightarrow> (string \<times> string) option" where
  "int_part s =
     (case s of [] \<Rightarrow> None
      | c # r \<Rightarrow>
          if c = CHR ''0'' then Some ([c], r)
          else if is_digit c then Some (takeWhile is_digit s, dropWhile is_digit s)
          else None)"

definition parse_unsigned :: "bool \<Rightarrow> string \<Rightarrow> (json \<times> string) option" where
  "parse_unsigned neg s =
     (case int_part s of None \<Rightarrow> None
      | Some (ip, r) \<Rightarrow>
          (let sg = (if neg then -1 else 1) :: int; fp = takeWhile is_digit (tl r)
           in if r \<noteq> [] \<and> hd r = CHR ''.'' \<and> fp \<noteq> []
              then Some (JFloat (sg * int (digits_val ip * 10 ^ length fp + digits_val fp)) (length fp),
                         dropWhile is_digit (tl r))
              else Some (JInt (sg * int (digits_val ip)), r)))"

definition parse_num :: "string \<Rightarrow> (json \<times> string) option" where
  "parse_num s =
     (case s of [] \<Rightarrow> None
      | c # r \<Rightarrow> if c = CHR ''-'' then parse_unsigned True r else parse_unsigned False s)"

text \<open>Building the dictionary: a repeated key overwrites the earlier value.\<close>

definition dict_of :: "(string \<times> json) list \<Rightarrow> (string \<times> json) list" where
  "dict_of kvs = dict_merge [] kvs"

fun parse_val :: "nat \<Rightarrow> string \<Rightarrow> (json \<times> string) option"
and parse_elems :: "nat \<Rightarrow> string \<Rightarrow> (json list \<times> string) option"
and parse_members :: "nat \<Rightarrow> string \<Rightarrow> ((string \<times> json) list \<times> string) option" where
  "parse_val 0 s = None"
| "parse_val (Suc n) s =
     (case s of [] \<Rightarrow> None
      | c # r \<Rightarrow>
          if c = quote_char then
            (case parse_str r of None \<Rightarrow> None | Some (t, q) \<Rightarrow> Some (JStr t, q))
          else if c = CHR ''{'' then
            (case skip_ws r of [] \<Rightarrow> None
             | d # q \<Rightarrow> if d = CHR ''}'' then Some (JDict [], q)
                 else (case parse_members n (d # q) of None \<Rightarrow> None
                       | Some (kvs, q') \<Rightarrow> Some (JDict (dict_of kvs), q')))
          else if c = CHR ''['' then
            (case skip_ws r of [] \<Rightarrow> None
             | d # q \<Rightarrow> if d = CHR '']'' then Some (JList [], q)
                 else (case parse_elems n (d # q) of None \<Rightarrow> None
                       | Some (vs, q') \<Rightarrow> Some (JList vs, q')))
          else if prefix ''null'' s then Some (JNull, drop 4 s)
          else if prefix ''true'' s then Some (JBool True, drop 4 s)
          else if prefix ''false'' s then Some (JBool False, drop 5 s)
          else parse_num s)"
| "parse_elems 0 s = None"
| "parse_elems (Suc n) s =
     (case parse_val n s of None \<Rightarrow> None
      | Some (v, r) \<Rightarrow>
          (case skip_ws r of [] \<Rightarrow> None
           | d # q \<Rightarrow> if d = CHR '']'' then Some ([v], q)
               else if d = CHR '','' then cons_fst v (parse_elems n (skip_ws q))
               else None))"
| "parse_members 0 s = None"
| "parse_members (Suc n) s =
     (case s of [] \<Rightarrow> None
      | c # r \<Rightarrow> if c \<noteq> quote_char then None
          else (case parse_str r of None \<Rightarrow> None
            | Some (k, q) \<Rightarrow>
                (case skip_ws q of [] \<Rightarrow> None
                 | d # q' \<Rightarrow> if d \<noteq> CHR '':'' then None
                     else (case parse_val n (skip_ws q') of None \<Rightarrow> None
                       | Some (v, u) \<Rightarrow>
                           (case skip_ws u of [] \<Rightarrow> None
                            | e # u' \<Rightarrow> if e = CHR ''}'' then Some ([(k, v)], u')
                                else if e = CHR '','' then cons_fst (k, v) (parse_members n (skip_ws u'))
                                else None)))))"

text \<open>Each call that spends fuel without consuming a character is followed by one that consumes.\<close>

definition loads :: "string \<Rightarrow> json result" where
  "loads s =
     (let t = skip_ws s
      in case parse_val (2 * length t + 2) t of
           None \<Rightarrow> Inl (ValueError ''json'')
         | Some (v, r) \<Rightarrow> if skip_ws r = [] then Inr v else Inl (ValueError ''json''))"

section \<open>Reading back strings\<close>

lemma code_char_of [simp]: "n < 256 \<Longrightarrow> code (char_of (n :: nat)) = n"
  by simp

lemma hex_val_digit: "n < 16 \<Longrightarrow> hex_val (hex_digit n) = Some n"
  by (simp add: hex_val_def hex_digit_def is_digit_def)

lemma hex4_code: "hex4 (CHR ''0'') (CHR ''0'') (hex_digit (code c div 16)) (hex_digit (code c mod 16))
    = Some (code c)"
proof -
  have "code c < 16 * 16" using nat_of_char_less_256 [of c] by simp
  then have "code c div 16 < 16" by (rule less_mult_imp_div_less)
  moreover have "hex_val (CHR ''0'') = Some 0" by (simp add: hex_val_def is_digit_def)
  ultimately show ?thesis by (simp add: hex4_def hex_val_digit)
qed

lemma code_eqI: "code c = n \<Longrightarrow> c = char_of n"
  by auto

lemma quote_backslash [simp]: "quote_char \<noteq> backslash" "backslash \<noteq> quote_char"
  by (simp_all add: quote_char_def backslash_def)

lemma parse_str_esc: "parse_str (esc_char c @ t) = cons_fst c (parse_str t)"
proof -
  consider "c = quote_char" | "c = backslash" | "code c = 10" | "code c = 13" | "code c = 9"
    | "code c = 12" | "code c = 8"
    | (plain) "32 \<le> code c \<and> code c \<le> 126" "c \<noteq> quote_char" "c \<noteq> backslash"
    | (hex) "\<not> (32 \<le> code c \<and> code c \<le> 126)" "code c \<notin> {8, 9, 10, 12, 13}"
        "c \<noteq> quote_char" "c \<noteq> backslash"
    by auto
  then show ?thesis
  proof cases
    case plain
    then show ?thesis by (auto simp: esc_char_def)
  next
    case hex
    then have "esc_char c = [backslash, CHR ''u'', CHR ''0'', CHR ''0'',
        hex_digit (code c div 16), hex_digit (code c mod 16)]"
      by (auto simp: esc_char_def)
    then show ?thesis by (simp add: hex4_code)
  qed (auto simp: esc_char_def unescape_def quote_char_def backslash_def dest!: code_eqI)
qed

lemma parse_str_dump: "parse_str (concat (map esc_char s) @ quote_char # r) = Some (s, r)"
  by (induction s) (simp_all add: parse_str_esc cons_fst_def)

section \<open>Reading back numbers\<close>

lemma digits_val_snoc [simp]: "digits_val (ds @ [c]) = 10 * digits_val ds + (code c - 48)"
  by (simp add: digits_val_def)

lemma digits_val_show_nat [simp]: "digits_val (show_nat n) = n"
proof (induction n rule: show_nat.induct)
  case (1 n)
  show ?case
  proof (cases "n < 10")
    case True
    then show ?thesis by (subst show_nat.simps) (simp add: digits_val_def)
  next
    case False
    have "48 + n mod 10 < 256" using mod_less_divisor [of 10 n] by linarith
    with False 1 show ?thesis by (subst show_nat.simps) simp
  qed
qed

lemma show_nat_is_digit: "list_all is_digit (show_nat n)"
  by (auto simp: list_all_iff is_digit_def dest: show_nat_digits)

lemma pad_nat_is_digit: "list_all is_digit (pad_nat k n)"
proof (induction k arbitrary: n)
  case (Suc k)
  have "n mod 10 < 10" by simp
  then have "48 + n mod 10 < 256" by linarith
  then show ?case using Suc \<open>n mod 10 < 10\<close> by (simp add: is_digit_def)
qed simp

lemma length_pad_nat [simp]: "length (pad_nat k n) = k"
  by (induction k arbitrary: n) auto

lemma digits_val_pad_nat: "n < 10 ^ k \<Longrightarrow> digits_val (pad_nat k n) = n"
proof (induction k arbitrary: n)
  case 0
  then show ?case by (simp add: digits_val_def)
next
  case (Suc k)
  then have "n div 10 < 10 ^ k" by (simp add: less_mult_imp_div_less mult.commute)
  moreover have "48 + n mod 10 < 256" using mod_less_divisor [of 10 n] by linarith
  ultimately show ?case using Suc.IH by simp
qed

lemma show_nat_head: "0 < n \<Longrightarrow> hd (show_nat n) \<noteq> CHR ''0''"
proof (induction n rule: show_nat.induct)
  case (1 n)
  show ?case
  proof (cases "n < 10")
    case True
    have "char_of (48 + n) \<noteq> CHR ''0''"
    proof
      assume "char_of (48 + n) = CHR ''0''"
      then have "code (char_of (48 + n)) = code (CHR ''0'')" by (rule arg_cong)
      with True 1 show False by simp
    qed
    then show ?thesis using True by (subst show_nat.simps) simp
  next
    case False
    then have "hd (show_nat n) = hd (show_nat (n div 10))"
      by (subst show_nat.simps) simp
    with 1 False show ?thesis by simp
  qed
qed

text \<open>What may follow a number so that it is read to its end and no further.\<close>

definition delim :: "string \<Rightarrow> bool" where
  "delim r \<longleftrightarrow> r = [] \<or> (\<not> is_digit (hd r) \<and> hd r \<noteq> CHR ''.'')"

lemma delim_no_digit: "delim r \<Longrightarrow> takeWhile is_digit r = [] \<and> dropWhile is_digit r = r"
  by (cases r) (auto simp: delim_def)

lemma takeWhile_digits: "list_all is_digit ds \<Longrightarrow> takeWhile is_digit (ds @ r) = ds @ takeWhile is_digit r"
  and dropWhile_digits: "list_all is_digit ds \<Longrightarrow> dropWhile is_digit (ds @ r) = dropWhile is_digit r"
  by (simp_all add: list_all_iff takeWhile_append2 dropWhile_append2)

lemma int_part_show_nat:
  assumes "takeWhile is_digit r = []"
  shows "int_part (show_nat n @ r) = Some (show_nat n, r)"
proof (cases "n = 0")
  case True
  have "char_of (48 :: nat) = CHR ''0''" by code_simp
  with True show ?thesis by (simp add: show_nat.simps [of 0] int_part_def)
next
  case False
  obtain c t where ct: "show_nat n = c # t" by (meson neq_Nil_conv show_nat_nonempty)
  have "c \<noteq> CHR ''0''" using show_nat_head [of n] False ct by simp
  moreover have "is_digit c" using show_nat_is_digit [of n] ct by simp
  moreover have "takeWhile is_digit (show_nat n @ r) = show_nat n"
    and "dropWhile is_digit (show_nat n @ r) = r"
    using assms show_nat_is_digit [of n]
    by (simp_all add: takeWhile_digits dropWhile_digits) (metis self_append_conv2 takeWhile_dropWhile_id)
  ultimately show ?thesis by (simp add: int_part_def ct)
qed

lemma parse_unsigned_int:
  "delim r \<Longrightarrow> parse_unsigned neg (show_nat n @ r) = Some (JInt ((if neg then -1 else 1) * int n), r)"
  using int_part_show_nat [of r n] delim_no_digit [of r]
  by (auto simp: parse_unsigned_def delim_def)

lemma parse_unsigned_float:
  assumes "delim r" "0 < k" "b < 10 ^ k"
  shows "parse_unsigned neg (show_nat a @ CHR ''.'' # pad_nat k b @ r)
    = Some (JFloat ((if neg then -1 else 1) * int (a * 10 ^ k + b)) k, r)"
proof -
  have "takeWhile is_digit (CHR ''.'' # pad_nat k b @ r) = []" by (simp add: is_digit_def)
  note ip = int_part_show_nat [OF this, of a]
  have "pad_nat k b \<noteq> []" using assms(2) length_pad_nat [of k b] by (metis length_0_conv less_numeral_extra(3))
  then show ?thesis
    using ip assms delim_no_digit [of r] pad_nat_is_digit [of k b]
    by (simp add: parse_unsigned_def takeWhile_digits dropWhile_digits digits_val_pad_nat)
qed

lemma show_nat_hd_digit: "is_digit (hd (show_nat n @ r))"
  using show_nat_is_digit [of n] by (cases "show_nat n") (auto dest: show_nat_nonempty [THEN notE])

lemma parse_num_show: "parse_num (show_nat n @ r) = parse_unsigned False (show_nat n @ r)"
proof -
  obtain c t where ct: "show_nat n = c # t" by (meson neq_Nil_conv show_nat_nonempty)
  then have "is_digit c" using show_nat_is_digit [of n] by simp
  then have "c \<noteq> CHR ''-''" by (auto simp: is_digit_def)
  then show ?thesis by (simp add: parse_num_def ct)
qed

lemma parse_num_int: "delim r \<Longrightarrow> parse_num (show_int i @ r) = Some (JInt i, r)"
proof (cases "i < 0")
  case True
  assume "delim r"
  then show ?thesis using True
    by (simp add: show_int_def parse_num_def parse_unsigned_int)
next
  case False
  assume "delim r"
  then show ?thesis using False
    by (simp add: show_int_def parse_num_show parse_unsigned_int)
qed

lemma parse_num_float:
  assumes "delim r" "0 < k"
  shows "parse_num (dump_float m k @ r) = Some (JFloat m k, r)"
proof -
  let ?a = "nat \<bar>m\<bar>"
  have b: "?a mod 10 ^ k < 10 ^ k" by simp
  have v: "int (?a div 10 ^ k * 10 ^ k + ?a mod 10 ^ k) = \<bar>m\<bar>"
    by (simp add: div_mult_mod_eq del: of_nat_add of_nat_mult of_nat_power)
  show ?thesis
  proof (cases "m < 0")
    case True
    then show ?thesis
      using parse_unsigned_float [OF assms b, of True "?a div 10 ^ k"] v
      by (simp add: dump_float_def Let_def parse_num_def del: of_nat_add of_nat_mult of_nat_power)
  next
    case False
    then show ?thesis
      using parse_unsigned_float [OF assms b, of False "?a div 10 ^ k"] v
      by (simp add: dump_float_def Let_def parse_num_show del: of_nat_add of_nat_mult of_nat_power)
  qed
qed

section \<open>Reading back documents\<close>

text \<open>The first character of a number selects the number branch of \<open>parse_val\<close>.\<close>

lemma parse_val_num:
  assumes "s \<noteq> []" "is_digit (hd s) \<or> hd s = CHR ''-''"
  shows "parse_val (Suc n) s = parse_num s"
proof -
  obtain c r where s: "s = c # r" using assms(1) by (cases s) auto
  have "c \<noteq> quote_char \<and> c \<noteq> CHR ''{'' \<and> c \<noteq> CHR ''['' \<and> c \<noteq> CHR ''n'' \<and> c \<noteq> CHR ''t'' \<and> c \<noteq> CHR ''f''"
    using assms(2) by (auto simp: s is_digit_def quote_char_def)
  then show ?thesis by (auto simp: s)
qed

lemma dump_float_head:
  "dump_float m k \<noteq> [] \<and> (is_digit (hd (dump_float m k @ r)) \<or> hd (dump_float m k @ r) = CHR ''-'')"
proof (cases "m < 0")
  case True
  then show ?thesis by (simp add: dump_float_def Let_def)
next
  case False
  then show ?thesis
    using show_nat_hd_digit [of "nat \<bar>m\<bar> div 10 ^ k" "''.'' @ pad_nat k (nat \<bar>m\<bar> mod 10 ^ k) @ r"]
    by (simp add: dump_float_def Let_def)
qed

lemma show_int_head:
  "show_int i \<noteq> [] \<and> (is_digit (hd (show_int i @ r)) \<or> hd (show_int i @ r) = CHR ''-'')"
  using show_nat_hd_digit [of "nat i" r] by (simp add: show_int_def)

lemma skip_ws_nonws: "s \<noteq> [] \<Longrightarrow> \<not> is_json_ws (hd s) \<Longrightarrow> skip_ws s = s"
  by (cases s) (auto simp: skip_ws_def)

lemma skip_ws_space [simp]: "skip_ws (CHR '' '' # s) = skip_ws s"
  by (simp add: skip_ws_def is_json_ws_def)

lemma skip_ws_punct [simp]:
  "skip_ws (CHR '']'' # s) = CHR '']'' # s" "skip_ws (CHR '','' # s) = CHR '','' # s"
  "skip_ws (CHR ''}'' # s) = CHR ''}'' # s" "skip_ws (CHR '':'' # s) = CHR '':'' # s"
  "skip_ws (quote_char # s) = quote_char # s"
  by (simp_all add: skip_ws_def is_json_ws_def quote_char_def)

lemma delim_punct [simp]:
  "delim []" "delim (CHR '']'' # s)" "delim (CHR '','' # s)" "delim (CHR ''}'' # s)"
  by (simp_all add: delim_def is_digit_def)

text \<open>The text of a document starts with a character that is neither blank nor a closing bracket.\<close>

lemma dumps_head:
  "dumps v \<noteq> [] \<and> \<not> is_json_ws (hd (dumps v @ r)) \<and> hd (dumps v @ r) \<noteq> CHR '']''"
proof (cases v)
  case (JInt i)
  then show ?thesis using show_int_head [of i r] by (auto simp: is_json_ws_def is_digit_def)
next
  case (JFloat m k)
  then show ?thesis using dump_float_head [of m k r] by (auto simp: is_json_ws_def is_digit_def)
qed (auto simp: dump_str_def is_json_ws_def quote_char_def)

lemma skip_ws_dumps [simp]: "skip_ws (dumps v @ r) = dumps v @ r"
  using dumps_head [of v r] by (intro skip_ws_nonws) auto

lemma dict_of_distinct: "distinct (map fst kvs) \<Longrightarrow> dict_of kvs = kvs"
proof -
  have "distinct (map fst (d @ kvs)) \<Longrightarrow> dict_merge d kvs = d @ kvs" for d
  proof (induction kvs arbitrary: d)
    case (Cons p kvs)
    obtain k v where p: "p = (k, v)" by force
    with Cons.prems have "k \<notin> fst ` set d" by auto
    then have "AList.update k v d = d @ [(k, v)]" by (induction d) auto
    with Cons.IH [of "d @ [p]"] Cons.prems p show ?case by (simp add: dict_merge_def)
  qed (simp add: dict_merge_def)
  from this [of "[]"] show "distinct (map fst kvs) \<Longrightarrow> dict_of kvs = kvs"
    by (simp add: dict_of_def)
qed

text \<open>The step from the elements to a list, and from the values to an object.\<close>

definition reads_back :: "json \<Rightarrow> bool" where
  "reads_back v \<longleftrightarrow>
     (\<forall>n r. 2 * length (dumps v) \<le> n \<longrightarrow> delim r \<longrightarrow> parse_val n (dumps v @ r) = Some (v, r))"

lemma reads_backD:
  "reads_back v \<Longrightarrow> 2 * length (dumps v) \<le> n \<Longrightarrow> delim r \<Longrightarrow> parse_val n (dumps v @ r) = Some (v, r)"
  by (simp add: reads_back_def)

lemma parse_elems_dumps:
  "vs \<noteq> [] \<Longrightarrow> list_all reads_back vs \<Longrightarrow>
   2 * length (str_join '', '' (map dumps vs)) < n \<Longrightarrow>
   parse_elems n (str_join '', '' (map dumps vs) @ CHR '']'' # r) = Some (vs, r)"
proof (induction vs arbitrary: n)
  case (Cons v vs)
  then obtain m where n: "n = Suc m" by (cases n) auto
  show ?case
  proof (cases vs)
    case Nil
    with Cons.prems n show ?thesis by (simp add: reads_backD)
  next
    case (Cons w ws)
    have "parse_val m (dumps v @ '', '' @ str_join '', '' (map dumps vs) @ CHR '']'' # r)
      = Some (v, '', '' @ str_join '', '' (map dumps vs) @ CHR '']'' # r)"
      using Cons.prems n Cons by (intro reads_backD) (auto simp: delim_def is_digit_def)
    moreover have "parse_elems m (str_join '', '' (map dumps vs) @ CHR '']'' # r) = Some (vs, r)"
      using Cons.prems n Cons by (intro Cons.IH) auto
    moreover have "skip_ws (str_join '', '' (map dumps vs) @ CHR '']'' # r)
      = str_join '', '' (map dumps vs) @ CHR '']'' # r"
      using Cons by (cases ws) simp_all
    ultimately show ?thesis using Cons n by (simp add: cons_fst_def)
  qed
qed simp

abbreviation dump_member :: "string \<times> json \<Rightarrow> string" where
  "dump_member \<equiv> \<lambda>(k, v). dump_str k @ '': '' @ dumps v"

lemma skip_ws_member [simp]: "skip_ws (dump_member p @ r) = dump_member p @ r"
  by (cases p) (simp add: dump_str_def)

lemma parse_members_dumps:
  "kvs \<noteq> [] \<Longrightarrow> list_all (\<lambda>(k, v). reads_back v) kvs \<Longrightarrow>
   2 * length (str_join '', '' (map dump_member kvs)) < n \<Longrightarrow>
   parse_members n (str_join '', '' (map dump_member kvs) @ CHR ''}'' # r) = Some (kvs, r)"
proof (induction kvs arbitrary: n)
  case (Cons p kvs)
  obtain k v where p: "p = (k, v)" by force
  from Cons.prems obtain m where n: "n = Suc m" by (cases n) auto
  have v: "reads_back v" using Cons.prems p by simp
  show ?case
  proof (cases kvs)
    case Nil
    have "parse_val m (dumps v @ CHR ''}'' # r) = Some (v, CHR ''}'' # r)"
      using Cons.prems n Nil p by (intro reads_backD [OF v]) (auto simp: dump_str_def)
    with Nil n p show ?thesis by (simp add: dump_str_def parse_str_dump)
  next
    case (Cons q qs)
    let ?rest = "'', '' @ str_join '', '' (map dump_member kvs) @ CHR ''}'' # r"
    have "parse_val m (dumps v @ ?rest) = Some (v, ?rest)"
      using Cons.prems n Cons p
      by (intro reads_backD [OF v]) (auto simp: dump_str_def delim_def is_digit_def)
    moreover have "parse_members m (str_join '', '' (map dump_member kvs) @ CHR ''}'' # r) = Some (kvs, r)"
      using Cons.prems n Cons p by (intro Cons.IH) (auto simp: dump_str_def)
    moreover have "skip_ws (str_join '', '' (map dump_member kvs) @ CHR ''}'' # r)
      = str_join '', '' (map dump_member kvs) @ CHR ''}'' # r"
      using Cons by (cases qs; cases q) (simp_all add: dump_str_def)
    ultimately show ?thesis using Cons n p by (simp add: cons_fst_def dump_str_def parse_str_dump)
  qed
qed simp

lemma reads_back_list: "list_all reads_back vs \<Longrightarrow> reads_back (JList vs)"
  unfolding reads_back_def [of "JList vs"]
proof (intro allI impI)
  fix n r
  assume vs: "list_all reads_back vs" and n: "2 * length (dumps (JList vs)) \<le> n"
  from n obtain m where m: "n = Suc m" by (cases n) auto
  show "parse_val n (dumps (JList vs) @ r) = Some (JList vs, r)"
  proof (cases vs)
    case Nil
    with m show ?thesis by (simp add: quote_char_def)
  next
    case (Cons w ws)
    let ?s = "str_join '', '' (map dumps vs) @ CHR '']'' # r"
    have e: "parse_elems m ?s = Some (vs, r)"
      using vs n m Cons by (intro parse_elems_dumps) auto
    obtain u where u: "?s = dumps w @ u" using Cons by (cases ws) auto
    obtain d q where dq: "dumps w @ u = d # q" "d \<noteq> CHR '']''"
      using dumps_head [of w u] by (cases "dumps w @ u") auto
    have "skip_ws ?s = d # q" using dq u by (metis skip_ws_dumps)
    with e dq u m show ?thesis by (simp add: quote_char_def)
  qed
qed

lemma reads_back_dict:
  "list_all (\<lambda>(k, v). reads_back v) kvs \<Longrightarrow> distinct (map fst kvs) \<Longrightarrow> reads_back (JDict kvs)"
  unfolding reads_back_def [of "JDict kvs"]
proof (intro allI impI)
  fix n r
  assume kvs: "list_all (\<lambda>(k, v). reads_back v) kvs" and d: "distinct (map fst kvs)"
    and n: "2 * length (dumps (JDict kvs)) \<le> n"
  from n obtain m where m: "n = Suc m" by (cases n) auto
  show "parse_val n (dumps (JDict kvs) @ r) = Some (JDict kvs, r)"
  proof (cases kvs)
    case Nil
    with m show ?thesis by (simp add: quote_char_def)
  next
    case (Cons w ws)
    let ?s = "str_join '', '' (map dump_member kvs) @ CHR ''}'' # r"
    have e: "parse_members m ?s = Some (kvs, r)"
      using kvs n m Cons by (intro parse_members_dumps) auto
    obtain q where q: "?s = quote_char # q"
      using Cons by (cases ws; cases w) (auto simp: dump_str_def)
    have "skip_ws ?s = quote_char # q" using q by simp
    with e q m d show ?thesis by (simp add: quote_char_def dict_of_distinct)
  qed
qed

lemma reads_back_wf: "wf_json v \<Longrightarrow> reads_back v"
proof (induction v)
  case (JInt i)
  show ?case unfolding reads_back_def
  proof (intro allI impI)
    fix n r assume n: "2 * length (dumps (JInt i)) \<le> n" "delim r"
    then obtain m where m: "n = Suc m" using show_int_head [of i] by (cases n) auto
    have "parse_val (Suc m) (show_int i @ r) = parse_num (show_int i @ r)"
      using show_int_head [of i r] by (intro parse_val_num) auto
    with m n show "parse_val n (dumps (JInt i) @ r) = Some (JInt i, r)"
      by (simp add: parse_num_int del: parse_val.simps)
  qed
next
  case (JFloat k e)
  show ?case unfolding reads_back_def
  proof (intro allI impI)
    fix n r assume n: "2 * length (dumps (JFloat k e)) \<le> n" "delim r"
    then obtain m where m: "n = Suc m" using dump_float_head [of k e] by (cases n) auto
    have "parse_val (Suc m) (dump_float k e @ r) = parse_num (dump_float k e @ r)"
      using dump_float_head [of k e r] by (intro parse_val_num) auto
    with m n JFloat show "parse_val n (dumps (JFloat k e) @ r) = Some (JFloat k e, r)"
      by (simp add: parse_num_float del: parse_val.simps)
  qed
next
  case (JList vs)
  then show ?case by (intro reads_back_list) (auto simp: list_all_iff)
next
  case (JDict kvs)
  have "reads_back v" if "(k, v) \<in> set kvs" for k v
    using JDict.IH [of "(k, v)" v] that JDict.prems by (auto simp: list_all_iff)
  with JDict.prems show ?case by (intro reads_back_dict) (auto simp: list_all_iff)
next
  case (JStr t)
  show ?case unfolding reads_back_def
  proof (intro allI impI)
    fix n r assume "2 * length (dumps (JStr t)) \<le> n" "delim r"
    then obtain m where "n = Suc m" by (cases n) (auto simp: dump_str_def)
    then show "parse_val n (dumps (JStr t) @ r) = Some (JStr t, r)"
      by (simp add: dump_str_def parse_str_dump)
  qed
next
  case (JBool b)
  show ?case unfolding reads_back_def
  proof (intro allI impI)
    fix n r assume "2 * length (dumps (JBool b)) \<le> n" "delim r"
    then obtain m where "n = Suc m" by (cases n) (auto split: if_splits)
    then show "parse_val n (dumps (JBool b) @ r) = Some (JBool b, r)"
      by (simp add: quote_char_def)
  qed
next
  case JNull
  show ?case unfolding reads_back_def
  proof (intro allI impI)
    fix n r assume "2 * length (dumps JNull) \<le> n" "delim r"
    then obtain m where "n = Suc m" by (cases n) auto
    then show "parse_val n (dumps JNull @ r) = Some (JNull, r)"
      by (simp add: quote_char_def)
  qed
qed

text \<open>
  Reading the text that \<open>json.dumps\<close> writes gives the document back: strings through the
  escapes, numbers, nested lists and objects with distinct keys.
\<close>

lemma loads_dumps [simp]: "wf_json v \<Longrightarrow> loads (dumps v) = Inr v"
proof -
  assume "wf_json v"
  then have "parse_val (2 * length (dumps v) + 2) (dumps v @ []) = Some (v, [])"
    by (intro reads_backD reads_back_wf) auto
  moreover have "skip_ws (dumps v) = dumps v" using skip_ws_dumps [of v "[]"] by simp
  ultimately show ?thesis by (simp add: loads_def skip_ws_def del: parse_val.simps)
qed

end
