(* ===== verification/RedisApi.thy ===== *)
theory RedisApi
  imports PyJson
begin

text \<open>
  Effects and the Redis client. A call that reads or changes an external state \<open>'s\<close> and may raise
  is a function \<open>'s \<Rightarrow> 'a result \<times> 's\<close>; \<open>bind\<close> runs two of them in turn and stops at an exception,
  keeping the changes made so far. Redis itself is not part of the program: the record \<open>redis\<close>
  has one field per command the program sends, and the predicates \<open>stream_laws\<close> and \<open>keyspace_laws\<close>
  state the documented behaviour the properties rely on. \<open>ref_redis\<close> is an instance of both, which
  the witnesses run on.
\<close>

section \<open>Effects\<close>

type_synonym ('s, 'a) io = "'s \<Rightarrow> 'a result \<times> 's"

definition ret :: "'a \<Rightarrow> ('s, 'a) io" where
  "ret x s = (Inr x, s)"

definition raise :: "py_exc \<Rightarrow> ('s, 'a) io" where
  "raise e s = (Inl e, s)"

definition bind :: "('s, 'a) io \<Rightarrow> ('a \<Rightarrow> ('s, 'b) io) \<Rightarrow> ('s, 'b) io" where
  "bind m f s = (case m s of (Inl e, s') \<Rightarrow> (Inl e, s') | (Inr x, s') \<Rightarrow> f x s')"

definition lift_result :: "'a result \<Rightarrow> ('s, 'a) io" where
  "lift_result r s = (r, s)"

lemma bind_ret [simp]: "bind (ret x) f = f x"
  by (simp add: bind_def ret_def fun_eq_iff)

lemma bind_ret_right [simp]: "bind m ret = m"
  by (auto simp: bind_def ret_def fun_eq_iff split: prod.split sum.split)

lemma bind_assoc: "bind (bind m f) g = bind m (\<lambda>x. bind (f x) g)"
  by (auto simp: bind_def fun_eq_iff split: prod.split sum.split)

lemma bind_Inr: "m s = (Inr x, s') \<Longrightarrow> bind m f s = f x s'"
  by (simp add: bind_def)

lemma bind_Inl: "m s = (Inl e, s') \<Longrightarrow> bind m f s = (Inl e, s')"
  by (simp add: bind_def)

section \<open>The commands\<close>

type_synonym stream_entry = "string \<times> string pydict"

record 's redis =
  xgroup_create :: "string \<Rightarrow> string \<Rightarrow> ('s, unit) io"
  xadd :: "string \<Rightarrow> string pydict \<Rightarrow> ('s, string) io"
  xreadgroup :: "string \<Rightarrow> string \<Rightarrow> string \<Rightarrow> nat \<Rightarrow> ('s, (string \<times> stream_entry list) list) io"
  xack :: "string \<Rightarrow> string \<Rightarrow> string \<Rightarrow> ('s, nat) io"
  xlen :: "string \<Rightarrow> ('s, nat) io"
  xpending_range :: "string \<Rightarrow> string \<Rightarrow> string \<Rightarrow> ('s, nat list) io"
  xautoclaim :: "string \<Rightarrow> string \<Rightarrow> string \<Rightarrow> int \<Rightarrow> string \<Rightarrow> nat \<Rightarrow> ('s, string \<times> stream_entry list) io"
  xrange :: "string \<Rightarrow> nat \<Rightarrow> ('s, stream_entry list) io"
  r_get :: "string \<Rightarrow> ('s, string option) io"
  r_set :: "string \<Rightarrow> string \<Rightarrow> ('s, unit) io"
  r_setex :: "string \<Rightarrow> nat \<Rightarrow> string \<Rightarrow> ('s, unit) io"
  r_delete :: "string \<Rightarrow> ('s, nat) io"
  r_mget :: "string list \<Rightarrow> ('s, string option list) io"
  r_sadd :: "string \<Rightarrow> string \<Rightarrow> ('s, nat) io"
  r_srem :: "string \<Rightarrow> string \<Rightarrow> ('s, nat) io"
  r_smembers :: "string \<Rightarrow> ('s, string list) io"
  r_llen :: "string \<Rightarrow> ('s, nat) io"

section \<open>Documented behaviour\<close>

text \<open>
  Streams, for a server that answers. \<open>entries s k\<close> is the content of stream \<open>k\<close>, \<open>pending s (k, g)\<close>
  the pending entries list of group \<open>g\<close> with the delivery counts, \<open>rank\<close> the order of entry ids.
  \<^item> XADD appends an entry under a new id;
  \<^item> XACK takes the entry off the pending list; XPENDING reports its delivery count;
  \<^item> XLEN is the number of entries of the stream, whether acknowledged or not; XRANGE lists them
    from the oldest on;
  \<^item> XAUTOCLAIM from \<open>start\<close> returns pending entries of the stream whose ids are not before \<open>start\<close>
    and before the returned cursor (unless that is \<open>0-0\<close>), and counts a delivery for each.
\<close>

definition stream_laws ::
  "'s redis \<Rightarrow> ('s \<Rightarrow> string \<Rightarrow> stream_entry list) \<Rightarrow> ('s \<Rightarrow> string \<times> string \<Rightarrow> string \<Rightarrow> nat option)
     \<Rightarrow> (string \<Rightarrow> nat) \<Rightarrow> bool" where
  "stream_laws rd entries pending rank \<longleftrightarrow>
     (\<forall>k f s. \<exists>i s'. xadd rd k f s = (Inr i, s') \<and> i \<notin> fst ` set (entries s k)
        \<and> entries s' = (entries s)(k := entries s k @ [(i, f)]) \<and> pending s' = pending s)
   \<and> (\<forall>k g i s. \<exists>n s'. xack rd k g i s = (Inr n, s') \<and> entries s' = entries s
        \<and> pending s' = (pending s)((k, g) := (pending s (k, g))(i := None)))
   \<and> (\<forall>k s. xlen rd k s = (Inr (length (entries s k)), s))
   \<and> (\<forall>k n s. xrange rd k n s = (Inr (take n (entries s k)), s))
   \<and> (\<forall>k g i s. xpending_range rd k g i s =
        (Inr (case pending s (k, g) i of None \<Rightarrow> [] | Some n \<Rightarrow> [n]), s))
   \<and> (\<forall>k g c idle st n s. \<exists>cur es s'. xautoclaim rd k g c idle st n s = (Inr (cur, es), s')
        \<and> entries s' = entries s \<and> set es \<subseteq> set (entries s k) \<and> distinct (map fst es)
        \<and> fst ` set es \<subseteq> dom (pending s (k, g))
        \<and> (\<forall>i \<in> fst ` set es. rank st \<le> rank i \<and> (cur \<noteq> ''0-0'' \<longrightarrow> rank i < rank cur))
        \<and> pending s' = (pending s)((k, g) :=
            (\<lambda>i. if i \<in> fst ` set es then map_option Suc (pending s (k, g) i) else pending s (k, g) i)))
   \<and> (\<forall>s kg. finite (dom (pending s kg)))"

text \<open>
  Keys and sets, for a server that answers: \<open>kv s\<close> the string keys, \<open>members s k\<close> the set at \<open>k\<close>.
  Expiry is not part of the laws: a key written by SETEX is there until it is deleted.
\<close>

definition keyspace_laws ::
  "'s redis \<Rightarrow> ('s \<Rightarrow> string \<Rightarrow> string option) \<Rightarrow> ('s \<Rightarrow> string \<Rightarrow> string set) \<Rightarrow> bool" where
  "keyspace_laws rd kv members \<longleftrightarrow>
     (\<forall>k s. r_get rd k s = (Inr (kv s k), s))
   \<and> (\<forall>k v s. \<exists>s'. r_set rd k v s = (Inr (), s') \<and> kv s' = (kv s)(k \<mapsto> v) \<and> members s' = members s)
   \<and> (\<forall>k t v s. \<exists>s'. r_setex rd k t v s = (Inr (), s') \<and> kv s' = (kv s)(k \<mapsto> v) \<and> members s' = members s)
   \<and> (\<forall>k s. \<exists>s'. r_delete rd k s = (Inr (if kv s k = None then 0 else 1), s')
        \<and> kv s' = (kv s)(k := None) \<and> members s' = members s)
   \<and> (\<forall>ks s. r_mget rd ks s = (Inr (map (kv s) ks), s))
   \<and> (\<forall>k v s. \<exists>n s'. r_sadd rd k v s = (Inr n, s') \<and> kv s' = kv s
        \<and> members s' = (members s)(k := insert v (members s k)))
   \<and> (\<forall>k v s. \<exists>n s'. r_srem rd k v s = (Inr n, s') \<and> kv s' = kv s
        \<and> members s' = (members s)(k := members s k - {v}))
   \<and> (\<forall>k s. \<exists>xs. r_smembers rd k s = (Inr xs, s) \<and> set xs = members s k \<and> distinct xs)"

text \<open>Commands on keys leave the streams alone and the other way round.\<close>

definition separate_laws ::
  "'s redis \<Rightarrow> ('s \<Rightarrow> string \<Rightarrow> stream_entry list) \<Rightarrow> ('s \<Rightarrow> string \<times> string \<Rightarrow> string \<Rightarrow> nat option)
     \<Rightarrow> ('s \<Rightarrow> string \<Rightarrow> string option) \<Rightarrow> bool" where
  "separate_laws rd entries pending kv \<longleftrightarrow>
     (\<forall>k t v s. entries (snd (r_setex rd k t v s)) = entries s \<and> pending (snd (r_setex rd k t v s)) = pending s)
   \<and> (\<forall>k g i s. kv (snd (xack rd k g i s)) = kv s)"

text \<open>No command on a stream or list changes a string key.\<close>

definition keys_apart :: "'s redis \<Rightarrow> ('s \<Rightarrow> string \<Rightarrow> string option) \<Rightarrow> bool" where
  "keys_apart rd kv \<longleftrightarrow>
     (\<forall>k f s. kv (snd (xadd rd k f s)) = kv s) \<and> (\<forall>k g c n s. kv (snd (xreadgroup rd k g c n s)) = kv s)
   \<and> (\<forall>k g i s. kv (snd (xack rd k g i s)) = kv s) \<and> (\<forall>k g c idle st n s. kv (snd (xautoclaim rd k g c idle st n s)) = kv s)
   \<and> (\<forall>k s. kv (snd (r_llen rd k s)) = kv s)"

text \<open>
  LLEN is the length of the list at a key, 0 for a key that does not exist; it changes nothing, and
  XADD changes no other key.
\<close>

definition list_laws ::
  "'s redis \<Rightarrow> ('s \<Rightarrow> string \<Rightarrow> bool) \<Rightarrow> bool" where
  "list_laws rd exists_key \<longleftrightarrow>
     (\<forall>k s. \<not> exists_key s k \<longrightarrow> r_llen rd k s = (Inr 0, s))
   \<and> (\<forall>k k' f s. k' \<noteq> k \<longrightarrow> exists_key (snd (xadd rd k f s)) k' = exists_key s k')"

text \<open>
  Delivery to the consumers of group \<open>g\<close>, which exists on stream \<open>k\<close>, for a server that answers:
  \<open>fresh s\<close> are the entries no consumer of the group has got yet, oldest first.
  \<^item> XADD puts its entry behind them;
  \<^item> XREADGROUP with \<open>>\<close> takes the next ones out, makes them pending with one delivery, and answers
    nothing at all when there is none; the stream keeps them;
  \<^item> what a consumer sends when it is done with a job (SETEX, XACK), an XADD to another stream and
    XAUTOCLAIM leave them alone.
\<close>

definition delivery_laws ::
  "'s redis \<Rightarrow> string \<Rightarrow> string \<Rightarrow> ('s \<Rightarrow> string \<Rightarrow> stream_entry list)
     \<Rightarrow> ('s \<Rightarrow> string \<times> string \<Rightarrow> string \<Rightarrow> nat option) \<Rightarrow> ('s \<Rightarrow> stream_entry list) \<Rightarrow> bool" where
  "delivery_laws rd k g entries pending fresh \<longleftrightarrow>
     (\<forall>c n s. 0 < n \<longrightarrow> (\<exists>s'. xreadgroup rd k g c n s = (Inr (if fresh s = [] then [] else [(k, take n (fresh s))]), s')
        \<and> fresh s' = drop n (fresh s) \<and> entries s' = entries s
        \<and> pending s' = (pending s)((k, g) :=
            (\<lambda>i. if i \<in> fst ` set (take n (fresh s)) then Some 1 else pending s (k, g) i))))
   \<and> (\<forall>f s. case xadd rd k f s of (Inr i, s') \<Rightarrow> fresh s' = fresh s @ [(i, f)] | (Inl e, s') \<Rightarrow> True)
   \<and> (\<forall>k' t v s. fresh (snd (r_setex rd k' t v s)) = fresh s)
   \<and> (\<forall>i s. fresh (snd (xack rd k g i s)) = fresh s)
   \<and> (\<forall>k' f s. k' \<noteq> k \<longrightarrow> fresh (snd (xadd rd k' f s)) = fresh s)
   \<and> (\<forall>c idle st n s. fresh (snd (xautoclaim rd k g c idle st n s)) = fresh s)"

lemma delivery_lawsD:
  assumes "delivery_laws rd k g entries pending fresh"
  shows "0 < n \<Longrightarrow> \<exists>s'. xreadgroup rd k g c n s = (Inr (if fresh s = [] then [] else [(k, take n (fresh s))]), s')
        \<and> fresh s' = drop n (fresh s) \<and> entries s' = entries s
        \<and> pending s' = (pending s)((k, g) :=
            (\<lambda>i. if i \<in> fst ` set (take n (fresh s)) then Some 1 else pending s (k, g) i))"
    and "xadd rd k f s = (Inr i, s') \<Longrightarrow> fresh s' = fresh s @ [(i, f)]"
    and "fresh (snd (r_setex rd k' t v s)) = fresh s"
    and "fresh (snd (xack rd k g i s)) = fresh s"
    and "k' \<noteq> k \<Longrightarrow> fresh (snd (xadd rd k' f s)) = fresh s"
    and "fresh (snd (xautoclaim rd k g c idle st n s)) = fresh s"
proof -
  note h = assms [unfolded delivery_laws_def]
  show "\<exists>s'. xreadgroup rd k g c n s = (Inr (if fresh s = [] then [] else [(k, take n (fresh s))]), s')
        \<and> fresh s' = drop n (fresh s) \<and> entries s' = entries s
        \<and> pending s' = (pending s)((k, g) :=
            (\<lambda>i. if i \<in> fst ` set (take n (fresh s)) then Some 1 else pending s (k, g) i))" if "0 < n"
    by (rule h [THEN conjunct1, rule_format, OF that])
  have "case xadd rd k f s of (Inr i, s') \<Rightarrow> fresh s' = fresh s @ [(i, f)] | (Inl e, s') \<Rightarrow> True"
    by (rule h [THEN conjunct2, THEN conjunct1, rule_format])
  then show "fresh s' = fresh s @ [(i, f)]" if "xadd rd k f s = (Inr i, s')"
    using that by simp
  show "fresh (snd (r_setex rd k' t v s)) = fresh s"
    by (rule h [THEN conjunct2, THEN conjunct2, THEN conjunct1, rule_format])
  note rest = h [THEN conjunct2, THEN conjunct2, THEN conjunct2]
  show "fresh (snd (xack rd k g i s)) = fresh s" by (rule rest [THEN conjunct1, rule_format])
  show "fresh (snd (xadd rd k' f s)) = fresh s" if "k' \<noteq> k"
    by (rule rest [THEN conjunct2, THEN conjunct1, rule_format, OF that])
  show "fresh (snd (xautoclaim rd k g c idle st n s)) = fresh s"
    by (rule rest [THEN conjunct2, THEN conjunct2, rule_format])
qed

lemma stream_lawsD:
  assumes "stream_laws rd entries pending rank"
  shows "\<exists>i s'. xadd rd k f s = (Inr i, s') \<and> i \<notin> fst ` set (entries s k)
      \<and> entries s' = (entries s)(k := entries s k @ [(i, f)]) \<and> pending s' = pending s"
    and "\<exists>n s'. xack rd k g i s = (Inr n, s') \<and> entries s' = entries s
      \<and> pending s' = (pending s)((k, g) := (pending s (k, g))(i := None))"
    and "xlen rd k s = (Inr (length (entries s k)), s)"
    and "xrange rd k n s = (Inr (take n (entries s k)), s)"
    and "xpending_range rd k g i s = (Inr (case pending s (k, g) i of None \<Rightarrow> [] | Some n \<Rightarrow> [n]), s)"
    and "\<exists>cur es s'. xautoclaim rd k g c idle st n s = (Inr (cur, es), s')
      \<and> entries s' = entries s \<and> set es \<subseteq> set (entries s k) \<and> distinct (map fst es)
      \<and> fst ` set es \<subseteq> dom (pending s (k, g))
      \<and> (\<forall>i \<in> fst ` set es. rank st \<le> rank i \<and> (cur \<noteq> ''0-0'' \<longrightarrow> rank i < rank cur))
      \<and> pending s' = (pending s)((k, g) :=
          (\<lambda>i. if i \<in> fst ` set es then map_option Suc (pending s (k, g) i) else pending s (k, g) i))"
    and "finite (dom (pending s kg))"
proof -
  note h = assms [unfolded stream_laws_def]
  show "\<exists>i s'. xadd rd k f s = (Inr i, s') \<and> i \<notin> fst ` set (entries s k)
      \<and> entries s' = (entries s)(k := entries s k @ [(i, f)]) \<and> pending s' = pending s"
    by (rule h [THEN conjunct1, rule_format])
  show "\<exists>n s'. xack rd k g i s = (Inr n, s') \<and> entries s' = entries s
      \<and> pending s' = (pending s)((k, g) := (pending s (k, g))(i := None))"
    by (rule h [THEN conjunct2, THEN conjunct1, rule_format])
  show "xlen rd k s = (Inr (length (entries s k)), s)"
    by (rule h [THEN conjunct2, THEN conjunct2, THEN conjunct1, rule_format])
  show "xrange rd k n s = (Inr (take n (entries s k)), s)"
    by (rule h [THEN conjunct2, THEN conjunct2, THEN conjunct2, THEN conjunct1, rule_format])
  show "xpending_range rd k g i s = (Inr (case pending s (k, g) i of None \<Rightarrow> [] | Some n \<Rightarrow> [n]), s)"
    by (rule h [THEN conjunct2, THEN conjunct2, THEN conjunct2, THEN conjunct2, THEN conjunct1, rule_format])
  show "\<exists>cur es s'. xautoclaim rd k g c idle st n s = (Inr (cur, es), s')
      \<and> entries s' = entries s \<and> set es \<subseteq> set (entries s k) \<and> distinct (map fst es)
      \<and> fst ` set es \<subseteq> dom (pending s (k, g))
      \<and> (\<forall>i \<in> fst ` set es. rank st \<le> rank i \<and> (cur \<noteq> ''0-0'' \<longrightarrow> rank i < rank cur))
      \<and> pending s' = (pending s)((k, g) :=
          (\<lambda>i. if i \<in> fst ` set es then map_option Suc (pending s (k, g) i) else pending s (k, g) i))"
    by (rule h [THEN conjunct2, THEN conjunct2, THEN conjunct2, THEN conjunct2, THEN conjunct2, THEN conjunct1, rule_format])
  show "finite (dom (pending s kg))"
    by (rule h [THEN conjunct2, THEN conjunct2, THEN conjunct2, THEN conjunct2, THEN conjunct2, THEN conjunct2, rule_format])
qed

section \<open>A reference instance\<close>

record ref_state =
  ref_entries :: "string \<Rightarrow> stream_entry list"
  ref_pending :: "string \<times> string \<Rightarrow> (string \<times> nat) list"
  ref_fresh :: "string \<times> string \<Rightarrow> stream_entry list"
  ref_kv :: "string \<Rightarrow> string option"
  ref_sets :: "string \<Rightarrow> string list"

definition ref_empty :: ref_state where
  "ref_empty = \<lparr>ref_entries = (\<lambda>_. []), ref_pending = (\<lambda>_. []), ref_fresh = (\<lambda>_. []), ref_kv = (\<lambda>_. None), ref_sets = (\<lambda>_. [])\<rparr>"

text \<open>Entry ids are runs of \<open>1\<close>, ordered by length; \<open>0-0\<close> comes first.\<close>

definition ref_rank :: "string \<Rightarrow> nat" where
  "ref_rank i = (if i = ''0-0'' then 0 else length i)"

definition ref_id :: "nat \<Rightarrow> string" where
  "ref_id n = replicate (Suc n) (CHR ''1'')"

definition ref_new_id :: "stream_entry list \<Rightarrow> string" where
  "ref_new_id es = ref_id (sum_by (\<lambda>e. length (fst e)) es)"

definition ref_pend :: "ref_state \<Rightarrow> string \<times> string \<Rightarrow> string \<Rightarrow> nat option" where
  "ref_pend s kg = map_of (ref_pending s kg)"

definition ref_members :: "ref_state \<Rightarrow> string \<Rightarrow> string set" where
  "ref_members s k = set (ref_sets s k)"

definition ref_xadd :: "string \<Rightarrow> string pydict \<Rightarrow> (ref_state, string) io" where
  "ref_xadd k f s =
     (let i = ref_new_id (ref_entries s k)
      in (Inr i, s\<lparr>ref_entries := (ref_entries s)(k := ref_entries s k @ [(i, f)]),
                   ref_fresh := (\<lambda>(k', g). ref_fresh s (k', g) @ (if k' = k then [(i, f)] else []))\<rparr>))"

definition ref_xack :: "string \<Rightarrow> string \<Rightarrow> string \<Rightarrow> (ref_state, nat) io" where
  "ref_xack k g i s =
     (Inr (case ref_pend s (k, g) i of None \<Rightarrow> 0 | Some _ \<Rightarrow> 1),
      s\<lparr>ref_pending := (ref_pending s)((k, g) := AList.delete i (ref_pending s (k, g)))\<rparr>)"

definition ref_xreadgroup ::
  "string \<Rightarrow> string \<Rightarrow> string \<Rightarrow> nat \<Rightarrow> (ref_state, (string \<times> stream_entry list) list) io" where
  "ref_xreadgroup k g c n s =
     (let es = take n (ref_fresh s (k, g))
      in (Inr (if es = [] then [] else [(k, es)]),
          s\<lparr>ref_fresh := (ref_fresh s)((k, g) := drop n (ref_fresh s (k, g))),
            ref_pending := (ref_pending s)((k, g) := map (\<lambda>e. (fst e, 1)) es @ ref_pending s (k, g))\<rparr>))"

text \<open>One entry per call: the first one from the cursor on.\<close>

definition ref_xautoclaim ::
  "string \<Rightarrow> string \<Rightarrow> string \<Rightarrow> int \<Rightarrow> string \<Rightarrow> nat \<Rightarrow> (ref_state, string \<times> stream_entry list) io" where
  "ref_xautoclaim k g c idle st n s =
     (case py_min_by (\<lambda>e. ref_rank (fst e))
             (filter (\<lambda>e. ref_pend s (k, g) (fst e) \<noteq> None \<and> ref_rank st \<le> ref_rank (fst e)) (ref_entries s k)) of
        None \<Rightarrow> (Inr (''0-0'', []), s)
      | Some e \<Rightarrow>
          (Inr (ref_id (ref_rank (fst e)), [e]),
           s\<lparr>ref_pending := (ref_pending s)((k, g) :=
              AList.update (fst e) (Suc (the (ref_pend s (k, g) (fst e)))) (ref_pending s (k, g)))\<rparr>))"

definition ref_exists :: "ref_state \<Rightarrow> string \<Rightarrow> bool" where
  "ref_exists s k = (ref_entries s k \<noteq> [] \<or> ref_kv s k \<noteq> None \<or> ref_sets s k \<noteq> [])"

definition ref_redis :: "ref_state redis" where
  "ref_redis =
     \<lparr>xgroup_create = (\<lambda>k g. ret ()),
      xadd = ref_xadd, xreadgroup = ref_xreadgroup, xack = ref_xack,
      xlen = (\<lambda>k s. (Inr (length (ref_entries s k)), s)),
      xpending_range = (\<lambda>k g i s. (Inr (case ref_pend s (k, g) i of None \<Rightarrow> [] | Some n \<Rightarrow> [n]), s)),
      xautoclaim = ref_xautoclaim,
      xrange = (\<lambda>k n s. (Inr (take n (ref_entries s k)), s)),
      r_get = (\<lambda>k s. (Inr (ref_kv s k), s)),
      r_set = (\<lambda>k v s. (Inr (), s\<lparr>ref_kv := (ref_kv s)(k \<mapsto> v)\<rparr>)),
      r_setex = (\<lambda>k t v s. (Inr (), s\<lparr>ref_kv := (ref_kv s)(k \<mapsto> v)\<rparr>)),
      r_delete = (\<lambda>k s. (Inr (if ref_kv s k = None then 0 else 1), s\<lparr>ref_kv := (ref_kv s)(k := None)\<rparr>)),
      r_mget = (\<lambda>ks s. (Inr (map (ref_kv s) ks), s)),
      r_sadd = (\<lambda>k v s. (Inr 1, s\<lparr>ref_sets := (ref_sets s)(k := List.insert v (ref_sets s k))\<rparr>)),
      r_srem = (\<lambda>k v s. (Inr 1, s\<lparr>ref_sets := (ref_sets s)(k := filter (\<lambda>x. x \<noteq> v) (ref_sets s k))\<rparr>)),
      r_smembers = (\<lambda>k s. (Inr (remdups (ref_sets s k)), s)),
      r_llen = (\<lambda>k s. if ref_exists s k then raise (ResponseError ''WRONGTYPE'') s else ret 0 s)\<rparr>"

lemma ref_new_id_fresh: "ref_new_id es \<notin> fst ` set es"
proof
  assume "ref_new_id es \<in> fst ` set es"
  then obtain e where "e \<in> set es" "ref_new_id es = fst e" by auto
  then have "length (ref_new_id es) \<le> sum_by (\<lambda>e. length (fst e)) es"
    by (simp add: member_le_sum_list)
  then show False by (simp add: ref_new_id_def ref_id_def)
qed

lemma ref_autoclaim_law:
  "\<exists>cur es s'. ref_xautoclaim k g c idle st n s = (Inr (cur, es), s')
     \<and> ref_entries s' = ref_entries s \<and> set es \<subseteq> set (ref_entries s k) \<and> distinct (map fst es)
     \<and> fst ` set es \<subseteq> dom (ref_pend s (k, g))
     \<and> (\<forall>i \<in> fst ` set es. ref_rank st \<le> ref_rank i \<and> (cur \<noteq> ''0-0'' \<longrightarrow> ref_rank i < ref_rank cur))
     \<and> ref_pend s' = (ref_pend s)((k, g) :=
         (\<lambda>i. if i \<in> fst ` set es then map_option Suc (ref_pend s (k, g) i) else ref_pend s (k, g) i))"
proof -
  let ?p = "py_min_by (\<lambda>e. ref_rank (fst e))
    (filter (\<lambda>e. ref_pend s (k, g) (fst e) \<noteq> None \<and> ref_rank st \<le> ref_rank (fst e)) (ref_entries s k))"
  show ?thesis
  proof (cases ?p)
    case None
    then show ?thesis by (simp add: ref_xautoclaim_def)
  next
    case (Some e)
    have e: "e \<in> set (ref_entries s k)" "ref_pend s (k, g) (fst e) \<noteq> None" "ref_rank st \<le> ref_rank (fst e)"
      using py_min_by_in [OF Some] by auto
    have "hd (ref_id n) \<noteq> hd ''0-0''" for n by (simp add: ref_id_def)
    then have "ref_id n \<noteq> ''0-0''" for n by metis
    then have "ref_rank (fst e) < ref_rank (ref_id (ref_rank (fst e)))"
      by (simp add: ref_rank_def ref_id_def)
    then have rank: "\<forall>i \<in> fst ` set [e]. ref_rank st \<le> ref_rank i
        \<and> (ref_id (ref_rank (fst e)) \<noteq> ''0-0'' \<longrightarrow> ref_rank i < ref_rank (ref_id (ref_rank (fst e))))"
      using e by simp
    let ?s = "s\<lparr>ref_pending := (ref_pending s)((k, g) :=
        AList.update (fst e) (Suc (the (ref_pend s (k, g) (fst e)))) (ref_pending s (k, g)))\<rparr>"
    have run: "ref_xautoclaim k g c idle st n s = (Inr (ref_id (ref_rank (fst e)), [e]), ?s)"
      by (simp only: ref_xautoclaim_def Some option.case)
    have pend: "ref_pend ?s = (ref_pend s)((k, g) :=
         (\<lambda>i. if i \<in> fst ` set [e] then map_option Suc (ref_pend s (k, g) i) else ref_pend s (k, g) i))"
      using e(2) by (auto simp: ref_pend_def fun_eq_iff update_conv)
    have sub: "set [e] \<subseteq> set (ref_entries s k)" "fst ` set [e] \<subseteq> dom (ref_pend s (k, g))"
      using e by auto
    show ?thesis
      by (rule exI [of _ "ref_id (ref_rank (fst e))"], rule exI [of _ "[e]"], rule exI [of _ ?s],
          intro conjI run sub rank pend) simp_all
  qed
qed

lemma ref_stream_laws: "stream_laws ref_redis ref_entries ref_pend ref_rank"
  unfolding stream_laws_def
proof (intro conjI allI)
  fix k g c idle st n s
  show "\<exists>cur es s'. xautoclaim ref_redis k g c idle st n s = (Inr (cur, es), s')
     \<and> ref_entries s' = ref_entries s \<and> set es \<subseteq> set (ref_entries s k) \<and> distinct (map fst es)
     \<and> fst ` set es \<subseteq> dom (ref_pend s (k, g))
     \<and> (\<forall>i \<in> fst ` set es. ref_rank st \<le> ref_rank i \<and> (cur \<noteq> ''0-0'' \<longrightarrow> ref_rank i < ref_rank cur))
     \<and> ref_pend s' = (ref_pend s)((k, g) :=
         (\<lambda>i. if i \<in> fst ` set es then map_option Suc (ref_pend s (k, g) i) else ref_pend s (k, g) i))"
    using ref_autoclaim_law [of k g c idle st n s] by (simp add: ref_redis_def)
qed (auto simp: ref_redis_def ref_xadd_def ref_xack_def ref_new_id_fresh ref_pend_def fun_eq_iff Let_def
    delete_conv' finite_dom_map_of)

lemma ref_keyspace_laws: "keyspace_laws ref_redis ref_kv ref_members"
  by (auto simp: keyspace_laws_def ref_redis_def ref_members_def fun_eq_iff)

lemma ref_list_laws: "list_laws ref_redis ref_exists"
  by (simp add: list_laws_def ref_redis_def ret_def ref_exists_def ref_xadd_def Let_def)

lemma map_of_delivered:
  "(m ++ map_of (map (\<lambda>e. (fst e, n)) es)) i = (if i \<in> fst ` set es then Some n else m i)"
  by (induction es) (auto simp: map_add_def split: option.splits if_splits)

lemma ref_delivery_laws: "delivery_laws ref_redis k g ref_entries ref_pend (\<lambda>s. ref_fresh s (k, g))"
  by (auto simp: delivery_laws_def ref_redis_def ref_xreadgroup_def ref_xadd_def ref_xack_def ref_xautoclaim_def
      ref_pend_def Let_def map_of_delivered fun_eq_iff split: if_splits option.split)

lemma ref_separate_laws: "separate_laws ref_redis ref_entries ref_pend ref_kv"
  by (auto simp: separate_laws_def ref_redis_def ref_pend_def ref_xack_def fun_eq_iff)

lemma ref_keys_apart: "keys_apart ref_redis ref_kv"
  by (auto simp: keys_apart_def ref_redis_def ref_xadd_def ref_xreadgroup_def ref_xack_def ref_xautoclaim_def Let_def
      ret_def raise_def split: option.split)

text \<open>A command sequence that leaves a view \<open>f\<close> of the state as it is.\<close>

definition keeps :: "('s \<Rightarrow> 'v) \<Rightarrow> ('s, 'b) io \<Rightarrow> bool" where
  "keeps f act \<longleftrightarrow> (\<forall>s. f (snd (act s)) = f s)"

lemma keeps_ret: "keeps f (ret x)" "keeps f (lift_result r)" "keeps f (raise e)"
  by (simp_all add: keeps_def ret_def lift_result_def raise_def)

lemma keeps_bind: "keeps f m \<Longrightarrow> (\<And>x. keeps f (k x)) \<Longrightarrow> keeps f (bind m k)"
  by (auto simp: keeps_def bind_def split: prod.split sum.split) (metis snd_conv)+

lemma keeps_run: "keeps f act \<Longrightarrow> act s = (r, s') \<Longrightarrow> f s' = f s"
  unfolding keeps_def by (metis snd_conv)

end
