(* ===== verification/JobQueue.thy ===== *)
theory JobQueue
  imports RedisApi
begin

text \<open>
  \<^verbatim>\<open>job_queue/streams.py\<close>, \<^verbatim>\<open>job_queue/dead_letter.py\<close> and \<^verbatim>\<open>job_queue/retry.py\<close>: the job
  queue on a Redis stream with a consumer group, the dead-letter stream and the recovery of jobs
  that were delivered but never acknowledged.
\<close>

section \<open>Streams\<close>

type_synonym payload = "json pydict"

definition encode_fields :: "payload \<Rightarrow> string pydict" where
  "encode_fields p = map (\<lambda>(k, v). (k, dumps v)) p"

definition decode_fields :: "string pydict \<Rightarrow> payload result" where
  "decode_fields f =
     traverse (\<lambda>(k, v). case loads v of Inl e \<Rightarrow> Inl e | Inr j \<Rightarrow> Inr (k, j)) f"

definition decode_entries :: "stream_entry list \<Rightarrow> (string \<times> payload) list result" where
  "decode_entries es =
     traverse (\<lambda>(i, f). case decode_fields f of Inl e \<Rightarrow> Inl e | Inr p \<Rightarrow> Inr (i, p)) es"

record stream_queue =
  stream_key :: string
  group_name :: string
  consumer_name :: string

text \<open>The second argument of \<open>new_queue\<close> supplies the hexadecimal digits of a fresh uuid.\<close>

definition new_queue :: "string \<Rightarrow> string \<Rightarrow> string option \<Rightarrow> string \<Rightarrow> stream_queue" where
  "new_queue k g c hex =
     \<lparr>stream_key = k, group_name = g,
      consumer_name = (case c of Some n \<Rightarrow> if n = [] then ''consumer-'' @ take 8 hex else n
                       | None \<Rightarrow> ''consumer-'' @ take 8 hex)\<rparr>"

definition queue_connect :: "'s redis \<Rightarrow> stream_queue \<Rightarrow> ('s, unit) io" where
  "queue_connect rd q s =
     (case xgroup_create rd (stream_key q) (group_name q) s of
        (Inl (ResponseError m), s') \<Rightarrow>
          (if contains ''BUSYGROUP'' m then Inr () else Inl (ResponseError m), s')
      | r \<Rightarrow> r)"

definition enqueue :: "'s redis \<Rightarrow> stream_queue \<Rightarrow> payload \<Rightarrow> ('s, string) io" where
  "enqueue rd q p = xadd rd (stream_key q) (encode_fields p)"

definition queue_read :: "'s redis \<Rightarrow> stream_queue \<Rightarrow> nat \<Rightarrow> ('s, (string \<times> payload) list) io" where
  "queue_read rd q n =
     bind (xreadgroup rd (stream_key q) (group_name q) (consumer_name q) n)
       (\<lambda>resp. case resp of [] \<Rightarrow> ret [] | (_, es) # _ \<Rightarrow> lift_result (decode_entries es))"

definition ack :: "'s redis \<Rightarrow> stream_queue \<Rightarrow> string \<Rightarrow> ('s, unit) io" where
  "ack rd q i = bind (xack rd (stream_key q) (group_name q) i) (\<lambda>_. ret ())"

definition depth :: "'s redis \<Rightarrow> stream_queue \<Rightarrow> ('s, nat) io" where
  "depth rd q = xlen rd (stream_key q)"

section \<open>Dead letters\<close>

text \<open>\<open>now\<close> is the clock as Python prints a float: a decimal.\<close>

definition dead_letter_add ::
  "'s redis \<Rightarrow> string \<Rightarrow> json \<Rightarrow> string \<Rightarrow> payload \<Rightarrow> string \<Rightarrow> ('s, string) io" where
  "dead_letter_add rd key now i p reason =
     xadd rd key [(''original_entry_id'', i), (''reason'', reason), (''failed_at'', dumps now),
                  (''payload'', dumps (JDict p))]"

record dead_letter =
  dl_entry_id :: string
  dl_original_id :: string
  dl_reason :: string
  dl_failed_at :: json
  dl_payload :: json

definition field :: "string pydict \<Rightarrow> string \<Rightarrow> string result" where
  "field f k = (case map_of f k of None \<Rightarrow> Inl (KeyError k) | Some v \<Rightarrow> Inr v)"

text \<open>\<open>float(text)\<close> for texts that are JSON numbers.\<close>

definition py_float :: "string \<Rightarrow> json result" where
  "py_float t =
     (case loads t of
        Inr (JFloat m k) \<Rightarrow> Inr (JFloat m k)
      | Inr (JInt i) \<Rightarrow> Inr (JFloat (i * 10) 1)
      | _ \<Rightarrow> Inl (ValueError (''could not convert string to float: '' @ py_repr t)))"

definition dead_letter_of :: "stream_entry \<Rightarrow> dead_letter result" where
  "dead_letter_of e =
     (case field (snd e) ''original_entry_id'' of Inl x \<Rightarrow> Inl x
      | Inr oid \<Rightarrow> (case field (snd e) ''reason'' of Inl x \<Rightarrow> Inl x
      | Inr r \<Rightarrow> (case field (snd e) ''failed_at'' of Inl x \<Rightarrow> Inl x
      | Inr ft \<Rightarrow> (case py_float ft of Inl x \<Rightarrow> Inl x
      | Inr t \<Rightarrow> (case field (snd e) ''payload'' of Inl x \<Rightarrow> Inl x
      | Inr pt \<Rightarrow> (case loads pt of Inl x \<Rightarrow> Inl x
      | Inr p \<Rightarrow> Inr \<lparr>dl_entry_id = fst e, dl_original_id = oid, dl_reason = r, dl_failed_at = t,
                    dl_payload = p\<rparr>))))))"

definition dead_letter_list :: "'s redis \<Rightarrow> string \<Rightarrow> nat \<Rightarrow> ('s, dead_letter list) io" where
  "dead_letter_list rd key n = bind (xrange rd key n) (\<lambda>es. lift_result (traverse dead_letter_of es))"

definition dead_letter_depth :: "'s redis \<Rightarrow> string \<Rightarrow> ('s, nat) io" where
  "dead_letter_depth rd key = xlen rd key"

section \<open>Recovery\<close>

definition delivery_count :: "'s redis \<Rightarrow> stream_queue \<Rightarrow> string \<Rightarrow> ('s, nat) io" where
  "delivery_count rd q i =
     bind (xpending_range rd (stream_key q) (group_name q) i)
       (\<lambda>ns. ret (case ns of [] \<Rightarrow> 0 | n # _ \<Rightarrow> n))"

text \<open>The \<open>while True\<close> of \<open>_reclaim_stale\<close>; \<open>None\<close> is a loop that does not end.\<close>

partial_function (option) reclaim_loop ::
  "'s redis \<Rightarrow> stream_queue \<Rightarrow> int \<Rightarrow> string \<Rightarrow> (string \<times> payload) list \<Rightarrow> 's
     \<Rightarrow> ((string \<times> payload) list result \<times> 's) option" where
  "reclaim_loop rd q idle cursor acc s =
     (case xautoclaim rd (stream_key q) (group_name q) (consumer_name q) idle cursor 50 s of
        (Inl e, s') \<Rightarrow> Some (Inl e, s')
      | (Inr (cursor', es), s') \<Rightarrow>
          (case decode_entries es of
             Inl e \<Rightarrow> Some (Inl e, s')
           | Inr ps \<Rightarrow>
               if cursor' = ''0-0'' \<or> es = [] then Some (Inr (acc @ ps), s')
               else reclaim_loop rd q idle cursor' (acc @ ps) s'))"

definition reclaim_stale ::
  "'s redis \<Rightarrow> stream_queue \<Rightarrow> int \<Rightarrow> 's \<Rightarrow> ((string \<times> payload) list result \<times> 's) option" where
  "reclaim_stale rd q idle s = reclaim_loop rd q idle ''0-0'' [] s"

record retry_policy =
  rp_queue :: stream_queue
  max_retries :: int
  min_idle_ms :: int

record recovery_result =
  retryable :: "(string \<times> payload) list"
  dead_lettered :: "string list"

definition max_retries_exceeded :: string where
  "max_retries_exceeded = ''max_retries_exceeded''"

text \<open>The loop that splits the reclaimed entries. \<open>clock\<close> is the time each dead letter is added at.\<close>

fun split_reclaimed ::
  "'s redis \<Rightarrow> retry_policy \<Rightarrow> string \<Rightarrow> (string \<Rightarrow> json) \<Rightarrow> (string \<times> payload) list \<Rightarrow> recovery_result
     \<Rightarrow> ('s, recovery_result) io" where
  "split_reclaimed rd rp dlq clock [] acc = ret acc"
| "split_reclaimed rd rp dlq clock ((i, p) # rest) acc =
     bind (delivery_count rd (rp_queue rp) i)
       (\<lambda>n. if int n > max_retries rp
            then bind (dead_letter_add rd dlq (clock i) i p max_retries_exceeded)
                   (\<lambda>_. bind (ack rd (rp_queue rp) i)
                     (\<lambda>_. split_reclaimed rd rp dlq clock rest
                            (acc\<lparr>dead_lettered := dead_lettered acc @ [i]\<rparr>)))
            else split_reclaimed rd rp dlq clock rest (acc\<lparr>retryable := retryable acc @ [(i, p)]\<rparr>))"

definition recover ::
  "'s redis \<Rightarrow> retry_policy \<Rightarrow> string \<Rightarrow> (string \<Rightarrow> json) \<Rightarrow> 's \<Rightarrow> (recovery_result result \<times> 's) option" where
  "recover rd rp dlq clock s =
     (case reclaim_stale rd (rp_queue rp) (min_idle_ms rp) s of
        None \<Rightarrow> None
      | Some (Inl e, s') \<Rightarrow> Some (Inl e, s')
      | Some (Inr ps, s') \<Rightarrow>
          Some (split_reclaimed rd rp dlq clock ps \<lparr>retryable = [], dead_lettered = []\<rparr> s'))"


section \<open>Lemmas\<close>

definition wf_payload :: "payload \<Rightarrow> bool" where
  "wf_payload p = list_all (\<lambda>(k, v). wf_json v) p"

lemma decode_encode: "wf_payload p \<Longrightarrow> decode_fields (encode_fields p) = Inr p"
  by (induction p) (auto simp: wf_payload_def encode_fields_def decode_fields_def)

definition wf_stream :: "stream_entry list \<Rightarrow> bool" where
  "wf_stream es \<longleftrightarrow> (\<forall>e \<in> set es. \<exists>p. snd e = encode_fields p \<and> wf_payload p)"

lemma decode_entries_wf:
  "wf_stream es \<Longrightarrow> \<exists>ps. decode_entries es = Inr ps \<and> map fst ps = map fst es
     \<and> (\<forall>(i, p) \<in> set ps. (i, encode_fields p) \<in> set es \<and> wf_payload p)"
proof (induction es)
  case Nil
  then show ?case by (simp add: decode_entries_def)
next
  case (Cons e es)
  obtain i f where e: "e = (i, f)" by force
  obtain p where p: "f = encode_fields p" "wf_payload p" using Cons.prems by (auto simp: wf_stream_def e)
  obtain ps where "decode_entries es = Inr ps" "map fst ps = map fst es"
      "\<forall>(i, p) \<in> set ps. (i, encode_fields p) \<in> set es \<and> wf_payload p"
    using Cons by (auto simp: wf_stream_def)
  then show ?case
    using p by (intro exI [of _ "(i, p) # ps"]) (auto simp: decode_entries_def e decode_encode)
qed

text \<open>What a reclaim run from \<open>cursor\<close> on has done when it took the state \<open>s\<close> to \<open>s'\<close>.\<close>

definition reclaimed ::
  "('s \<Rightarrow> string \<Rightarrow> stream_entry list) \<Rightarrow> ('s \<Rightarrow> string \<times> string \<Rightarrow> string \<Rightarrow> nat option) \<Rightarrow> (string \<Rightarrow> nat)
     \<Rightarrow> stream_queue \<Rightarrow> string \<Rightarrow> 's \<Rightarrow> (string \<times> payload) list \<Rightarrow> 's \<Rightarrow> bool" where
  "reclaimed entries pending rank q cursor s ps s' \<longleftrightarrow>
     entries s' = entries s \<and> distinct (map fst ps)
     \<and> (\<forall>x \<in> set ps. (fst x, encode_fields (snd x)) \<in> set (entries s (stream_key q)) \<and> wf_payload (snd x)
          \<and> rank cursor \<le> rank (fst x))
     \<and> fst ` set ps \<subseteq> dom (pending s (stream_key q, group_name q))
     \<and> pending s' = (pending s)((stream_key q, group_name q) :=
         (\<lambda>i. if i \<in> fst ` set ps then map_option Suc (pending s (stream_key q, group_name q) i)
               else pending s (stream_key q, group_name q) i))"

lemma reclaimed_dom:
  "reclaimed entries pending rank q cursor s ps s' \<Longrightarrow>
   dom (pending s' (stream_key q, group_name q)) = dom (pending s (stream_key q, group_name q))"
  by (auto simp: reclaimed_def split: if_splits)

text \<open>One round of XAUTOCLAIM.\<close>

lemma claim_round:
  assumes laws: "stream_laws rd entries pending rank" and wf: "wf_stream (entries s (stream_key q))"
  obtains cur es ps s1 where
    "xautoclaim rd (stream_key q) (group_name q) (consumer_name q) idle cursor 50 s = (Inr (cur, es), s1)"
    "decode_entries es = Inr ps" "ps = [] \<longleftrightarrow> es = []"
    "reclaimed entries pending rank q cursor s ps s1"
    "\<And>x. x \<in> set ps \<Longrightarrow> cur \<noteq> ''0-0'' \<Longrightarrow> rank (fst x) < rank cur"
proof -
  let ?k = "stream_key q" and ?kg = "(stream_key q, group_name q)"
  obtain cur es s1 where x: "xautoclaim rd ?k (group_name q) (consumer_name q) idle cursor 50 s = (Inr (cur, es), s1)"
    and e1: "entries s1 = entries s" and sub: "set es \<subseteq> set (entries s ?k)" and d: "distinct (map fst es)"
    and pd: "fst ` set es \<subseteq> dom (pending s ?kg)"
    and rk: "\<forall>i \<in> fst ` set es. rank cursor \<le> rank i \<and> (cur \<noteq> ''0-0'' \<longrightarrow> rank i < rank cur)"
    and p1: "pending s1 = (pending s)(?kg := (\<lambda>i. if i \<in> fst ` set es then map_option Suc (pending s ?kg i)
        else pending s ?kg i))"
    using stream_lawsD(6) [OF laws, of ?k "group_name q" "consumer_name q" idle cursor 50 s]
    by (elim exE conjE) (rule that)
  have "wf_stream es" using wf sub by (auto simp: wf_stream_def)
  then obtain ps where ps: "decode_entries es = Inr ps" "map fst ps = map fst es"
      "\<forall>(i, p) \<in> set ps. (i, encode_fields p) \<in> set es \<and> wf_payload p"
    using decode_entries_wf by blast
  have ids: "fst ` set ps = fst ` set es" using ps(2) by (metis list.set_map)
  have "(fst x, encode_fields (snd x)) \<in> set (entries s ?k) \<and> wf_payload (snd x) \<and> rank cursor \<le> rank (fst x)"
    if x: "x \<in> set ps" for x
  proof -
    have "(fst x, encode_fields (snd x)) \<in> set es \<and> wf_payload (snd x)" using ps(3) x by (cases x) auto
    moreover have "fst x \<in> fst ` set es" using x ids by blast
    ultimately show ?thesis using sub rk by blast
  qed
  then have "reclaimed entries pending rank q cursor s ps s1"
    unfolding reclaimed_def using e1 d pd p1 by (simp add: ids ps(2))
  moreover have "rank (fst x) < rank cur" if "x \<in> set ps" "cur \<noteq> ''0-0''" for x
    using that rk ids by blast
  moreover have "ps = [] \<longleftrightarrow> es = []" using ps(2) by (metis Nil_is_map_conv)
  ultimately show thesis using that x ps(1) by blast
qed

lemma reclaimed_append:
  assumes "reclaimed entries pending rank q cursor s ps s1" "reclaimed entries pending rank q cur s1 ps' s'"
    and "\<And>x. x \<in> set ps \<Longrightarrow> rank (fst x) < rank cur" "rank cursor \<le> rank cur"
  shows "reclaimed entries pending rank q cursor s (ps @ ps') s'"
proof -
  have disj: "fst ` set ps \<inter> fst ` set ps' = {}"
    using assms(2,3) by (fastforce simp: reclaimed_def)
  let ?kg = "(stream_key q, group_name q)"
  have p1: "pending s1 = (pending s)(?kg := (\<lambda>i. if i \<in> fst ` set ps then map_option Suc (pending s ?kg i)
      else pending s ?kg i))"
    using assms(1) unfolding reclaimed_def by (elim conjE)
  have p2: "pending s' = (pending s1)(?kg := (\<lambda>i. if i \<in> fst ` set ps' then map_option Suc (pending s1 ?kg i)
      else pending s1 ?kg i))"
    using assms(2) unfolding reclaimed_def by (elim conjE)
  have "(\<lambda>i. if i \<in> fst ` set ps' then map_option Suc (pending s1 ?kg i) else pending s1 ?kg i)
      = (\<lambda>i. if i \<in> fst ` set (ps @ ps') then map_option Suc (pending s ?kg i) else pending s ?kg i)"
  proof
    fix i
    show "(if i \<in> fst ` set ps' then map_option Suc (pending s1 ?kg i) else pending s1 ?kg i)
      = (if i \<in> fst ` set (ps @ ps') then map_option Suc (pending s ?kg i) else pending s ?kg i)"
      using disj by (cases "i \<in> fst ` set ps"; cases "i \<in> fst ` set ps'") (auto simp: p1)
  qed
  then have "pending s' = (pending s)(?kg :=
      (\<lambda>i. if i \<in> fst ` set (ps @ ps') then map_option Suc (pending s ?kg i) else pending s ?kg i))"
    using p2 p1 by simp
  moreover have "fst ` set (ps @ ps') \<subseteq> dom (pending s (stream_key q, group_name q))"
    using reclaimed_dom [OF assms(1)] assms(1,2) by (simp add: reclaimed_def image_Un)
  moreover have "distinct (map fst (ps @ ps'))"
    using assms(1,2) disj by (simp add: reclaimed_def)
  moreover have "entries s' = entries s" using assms(1,2) by (simp add: reclaimed_def)
  moreover have "(fst x, encode_fields (snd x)) \<in> set (entries s (stream_key q)) \<and> wf_payload (snd x)
      \<and> rank cursor \<le> rank (fst x)" if "x \<in> set (ps @ ps')" for x
  proof (cases "x \<in> set ps")
    case True
    then show ?thesis using assms(1) by (simp add: reclaimed_def)
  next
    case False
    with that have "x \<in> set ps'" by simp
    then show ?thesis using assms(1,2,4) by (force simp: reclaimed_def)
  qed
  ultimately show ?thesis unfolding reclaimed_def by blast
qed

text \<open>The loop ends, because every round moves the cursor past a pending entry.\<close>

lemma reclaim_loop_ok:
  assumes laws: "stream_laws rd entries pending rank"
    and wf: "wf_stream (entries s (stream_key q))"
  shows "\<exists>ps s'. reclaim_loop rd q idle cursor acc s = Some (Inr (acc @ ps), s')
    \<and> reclaimed entries pending rank q cursor s ps s'"
  using wf
proof (induction "card {i \<in> dom (pending s (stream_key q, group_name q)). rank cursor \<le> rank i}"
    arbitrary: s cursor acc rule: less_induct)
  case less
  let ?kg = "(stream_key q, group_name q)"
  obtain cur es ps s1 where x: "xautoclaim rd (stream_key q) (group_name q) (consumer_name q) idle cursor 50 s = (Inr (cur, es), s1)"
    and ps: "decode_entries es = Inr ps" and ne: "ps = [] \<longleftrightarrow> es = []"
    and rc: "reclaimed entries pending rank q cursor s ps s1"
    and lt: "\<And>x. x \<in> set ps \<Longrightarrow> cur \<noteq> ''0-0'' \<Longrightarrow> rank (fst x) < rank cur"
    by (rule claim_round [OF laws less.prems, of idle cursor]) (rule that)
  show ?case
  proof (cases "cur = ''0-0'' \<or> es = []")
    case True
    then have "reclaim_loop rd q idle cursor acc s = Some (Inr (acc @ ps), s1)"
      by (simp add: reclaim_loop.simps [of rd q idle cursor acc s] x ps)
    with rc show ?thesis by blast
  next
    case False
    then have step: "reclaim_loop rd q idle cursor acc s = reclaim_loop rd q idle cur (acc @ ps) s1"
      by (simp add: reclaim_loop.simps [of rd q idle cursor acc s] x ps)
    obtain y where y: "y \<in> set ps" using False ne by (cases ps) auto
    then have yr: "rank cursor \<le> rank (fst y)" "rank (fst y) < rank cur" "fst y \<in> dom (pending s ?kg)"
      using rc lt False by (auto simp: reclaimed_def)
    have "{i \<in> dom (pending s1 ?kg). rank cur \<le> rank i} \<subset> {i \<in> dom (pending s ?kg). rank cursor \<le> rank i}"
    proof
      show "{i \<in> dom (pending s1 ?kg). rank cur \<le> rank i} \<subseteq> {i \<in> dom (pending s ?kg). rank cursor \<le> rank i}"
        using yr unfolding reclaimed_dom [OF rc] by auto
      have "fst y \<in> {i \<in> dom (pending s ?kg). rank cursor \<le> rank i}"
        "fst y \<notin> {i \<in> dom (pending s1 ?kg). rank cur \<le> rank i}" using yr by simp_all
      then show "{i \<in> dom (pending s1 ?kg). rank cur \<le> rank i} \<noteq> {i \<in> dom (pending s ?kg). rank cursor \<le> rank i}"
        by blast
    qed
    then have smaller: "card {i \<in> dom (pending s1 ?kg). rank cur \<le> rank i}
        < card {i \<in> dom (pending s ?kg). rank cursor \<le> rank i}"
      by (rule psubset_card_mono [rotated]) (simp add: stream_lawsD(7) [OF laws])
    have "wf_stream (entries s1 (stream_key q))" using rc less.prems by (simp add: reclaimed_def)
    from less.hyps [OF smaller this, of "acc @ ps"] obtain ps' s' where
      r: "reclaim_loop rd q idle cur (acc @ ps) s1 = Some (Inr ((acc @ ps) @ ps'), s')"
      and rc': "reclaimed entries pending rank q cur s1 ps' s'"
      by blast
    have "reclaimed entries pending rank q cursor s (ps @ ps') s'"
      using lt False yr by (intro reclaimed_append [OF rc rc']) simp_all
    moreover have "reclaim_loop rd q idle cursor acc s = Some (Inr (acc @ (ps @ ps')), s')"
      using step r by simp
    ultimately show ?thesis by blast
  qed
qed

text \<open>The fields a dead letter is stored with.\<close>

definition dead_fields :: "json \<Rightarrow> string \<Rightarrow> payload \<Rightarrow> string pydict" where
  "dead_fields now i p = [(''original_entry_id'', i), (''reason'', max_retries_exceeded),
     (''failed_at'', dumps now), (''payload'', dumps (JDict p))]"

lemma delivery_count_eq:
  "stream_laws rd entries pending rank \<Longrightarrow> pending s (stream_key q, group_name q) i = Some n \<Longrightarrow>
   delivery_count rd q i s = (Inr n, s)"
  by (simp add: delivery_count_def bind_def stream_lawsD(5) ret_def)

lemma dead_letter_add_eq:
  assumes "stream_laws rd entries pending rank"
  shows "\<exists>j s'. dead_letter_add rd dlq now i p max_retries_exceeded s = (Inr j, s')
    \<and> entries s' = (entries s)(dlq := entries s dlq @ [(j, dead_fields now i p)]) \<and> pending s' = pending s"
  using stream_lawsD(1) [OF assms, of dlq "dead_fields now i p" s]
  by (auto simp: dead_letter_add_def dead_fields_def)

lemma ack_eq:
  assumes "stream_laws rd entries pending rank"
  shows "\<exists>s'. ack rd q i s = (Inr (), s') \<and> entries s' = entries s
    \<and> pending s' = (pending s)((stream_key q, group_name q) := (pending s (stream_key q, group_name q))(i := None))"
  using stream_lawsD(2) [OF assms, of "stream_key q" "group_name q" i s]
  by (auto simp: ack_def bind_def ret_def)

text \<open>What splitting the reclaimed entries has done; \<open>retry\<close> and \<open>dead\<close> are the two parts.\<close>

definition exhausted ::
  "('s \<Rightarrow> string \<times> string \<Rightarrow> string \<Rightarrow> nat option) \<Rightarrow> retry_policy \<Rightarrow> 's \<Rightarrow> string \<Rightarrow> bool" where
  "exhausted pending rp s i \<longleftrightarrow>
     max_retries rp < int (the (pending s (stream_key (rp_queue rp), group_name (rp_queue rp)) i))"

definition split_done ::
  "('s \<Rightarrow> string \<Rightarrow> stream_entry list) \<Rightarrow> ('s \<Rightarrow> string \<times> string \<Rightarrow> string \<Rightarrow> nat option) \<Rightarrow> retry_policy
     \<Rightarrow> string \<Rightarrow> (string \<Rightarrow> json) \<Rightarrow> (string \<times> payload) list \<Rightarrow> 's
     \<Rightarrow> (string \<times> payload) list \<Rightarrow> (string \<times> payload) list \<Rightarrow> 's \<Rightarrow> bool" where
  "split_done entries pending rp dlq clock ps s retry dead s' \<longleftrightarrow>
     retry = filter (\<lambda>x. \<not> exhausted pending rp s (fst x)) ps
     \<and> dead = filter (\<lambda>x. exhausted pending rp s (fst x)) ps
     \<and> pending s' = (pending s)((stream_key (rp_queue rp), group_name (rp_queue rp)) :=
         (\<lambda>i. if i \<in> fst ` set dead then None else pending s (stream_key (rp_queue rp), group_name (rp_queue rp)) i))
     \<and> (\<exists>new. entries s' = (entries s)(dlq := entries s dlq @ new)
         \<and> map snd new = map (\<lambda>x. dead_fields (clock (fst x)) (fst x) (snd x)) dead)"

lemma split_done_retry:
  assumes "split_done entries pending rp dlq clock ps s retry dead s'" "\<not> exhausted pending rp s (fst x)"
  shows "split_done entries pending rp dlq clock (x # ps) s (x # retry) dead s'"
  using assms unfolding split_done_def by (elim conjE, intro conjI) simp_all

lemma split_done_dead:
  assumes dn: "split_done entries pending rp dlq clock ps s2 retry dead s'" and x: "exhausted pending rp s (fst x)"
    and e: "entries s2 = (entries s)(dlq := entries s dlq @ [(j, dead_fields (clock (fst x)) (fst x) (snd x))])"
    and p: "pending s2 = (pending s)((stream_key (rp_queue rp), group_name (rp_queue rp)) :=
        (pending s (stream_key (rp_queue rp), group_name (rp_queue rp)))(fst x := None))"
    and new: "fst x \<notin> fst ` set ps"
  shows "split_done entries pending rp dlq clock (x # ps) s retry (x # dead) s'"
proof -
  let ?kg = "(stream_key (rp_queue rp), group_name (rp_queue rp))"
  have same: "exhausted pending rp s2 (fst y) = exhausted pending rp s (fst y)" if "y \<in> set ps" for y
  proof -
    have "fst y \<noteq> fst x" using that new by (metis image_eqI)
    then show ?thesis by (simp add: exhausted_def p)
  qed
  have retry: "retry = filter (\<lambda>y. \<not> exhausted pending rp s (fst y)) ps"
    and dead: "dead = filter (\<lambda>y. exhausted pending rp s (fst y)) ps"
    using dn same by (auto simp: split_done_def intro!: filter_cong)
  have "(\<lambda>i. if i \<in> fst ` set dead then None else pending s2 ?kg i)
      = (\<lambda>i. if i \<in> fst ` set (x # dead) then None else pending s ?kg i)"
    by (auto simp: p)
  then have pend: "pending s' = (pending s)(?kg := (\<lambda>i. if i \<in> fst ` set (x # dead) then None else pending s ?kg i))"
    using dn p unfolding split_done_def by simp
  obtain new' where "entries s' = (entries s2)(dlq := entries s2 dlq @ new')"
      "map snd new' = map (\<lambda>x. dead_fields (clock (fst x)) (fst x) (snd x)) dead"
    using dn unfolding split_done_def by blast
  then have "entries s' = (entries s)(dlq := entries s dlq @ ((j, dead_fields (clock (fst x)) (fst x) (snd x)) # new'))"
      "map snd ((j, dead_fields (clock (fst x)) (fst x) (snd x)) # new')
        = map (\<lambda>x. dead_fields (clock (fst x)) (fst x) (snd x)) (x # dead)"
    using e by simp_all
  then show ?thesis
    unfolding split_done_def using retry dead pend x by fastforce
qed

lemma split_reclaimed_ok:
  assumes laws: "stream_laws rd entries pending rank"
  assumes "distinct (map fst ps)"
    and "fst ` set ps \<subseteq> dom (pending s (stream_key (rp_queue rp), group_name (rp_queue rp)))"
  shows "\<exists>retry dead s'. split_reclaimed rd rp dlq clock ps acc s =
      (Inr \<lparr>retryable = retryable acc @ retry, dead_lettered = dead_lettered acc @ map fst dead\<rparr>, s')
    \<and> split_done entries pending rp dlq clock ps s retry dead s'"
  using assms(2,3)
proof (induction ps arbitrary: acc s)
  case Nil
  have "split_done entries pending rp dlq clock [] s [] [] s"
    unfolding split_done_def by (simp only: filter.simps list.map list.set image_empty empty_iff if_False
        fun_upd_triv) (metis append_Nil2 fun_upd_triv list.map(1))
  then show ?case
    by - (rule exI [of _ "[]"], rule exI [of _ "[]"], rule exI [of _ s], simp add: ret_def)
next
  case (Cons x ps)
  let ?q = "rp_queue rp" and ?kg = "(stream_key (rp_queue rp), group_name (rp_queue rp))"
  obtain i p where x: "x = (i, p)" by force
  obtain n where n: "pending s ?kg i = Some n" using Cons.prems(2) by (auto simp: x)
  note count = bind_Inr [of "delivery_count rd ?q i", OF delivery_count_eq [OF laws n]]
  have ex: "exhausted pending rp s (fst x) \<longleftrightarrow> max_retries rp < int n" by (simp add: exhausted_def x n)
  show ?case
  proof (cases "exhausted pending rp s (fst x)")
    case False
    let ?acc = "acc\<lparr>retryable := retryable acc @ [(i, p)]\<rparr>"
    have step: "split_reclaimed rd rp dlq clock (x # ps) acc s = split_reclaimed rd rp dlq clock ps ?acc s"
      using False by (simp add: ex) (simp add: x count)
    have "distinct (map fst ps)" "fst ` set ps \<subseteq> dom (pending s ?kg)" using Cons.prems by simp_all
    from Cons.IH [OF this, of ?acc] obtain retry dead s' where
      r: "split_reclaimed rd rp dlq clock ps ?acc s =
        (Inr \<lparr>retryable = retryable ?acc @ retry, dead_lettered = dead_lettered ?acc @ map fst dead\<rparr>, s')"
      and d: "split_done entries pending rp dlq clock ps s retry dead s'"
      by blast
    from split_done_retry [OF d False] r step show ?thesis
      by - (rule exI [of _ "x # retry"], rule exI [of _ dead], rule exI [of _ s'], simp add: x)
  next
    case True
    let ?acc = "acc\<lparr>dead_lettered := dead_lettered acc @ [i]\<rparr>"
    obtain j s1 where a: "dead_letter_add rd dlq (clock i) i p max_retries_exceeded s = (Inr j, s1)"
      "entries s1 = (entries s)(dlq := entries s dlq @ [(j, dead_fields (clock i) i p)])" "pending s1 = pending s"
      using dead_letter_add_eq [OF laws] by blast
    obtain s2 where k: "ack rd ?q i s1 = (Inr (), s2)" "entries s2 = entries s1"
      "pending s2 = (pending s1)(?kg := (pending s1 ?kg)(i := None))"
      using ack_eq [OF laws] by blast
    note add = bind_Inr [of "dead_letter_add rd dlq (clock i) i p max_retries_exceeded", OF a(1)]
    have step: "split_reclaimed rd rp dlq clock (x # ps) acc s = split_reclaimed rd rp dlq clock ps ?acc s2"
      using True by (simp add: ex) (simp add: x count add bind_Inr [of "ack rd ?q i", OF k(1)])
    have fresh: "fst x \<notin> fst ` set ps" using Cons.prems(1) by simp
    have "pending s2 ?kg (fst y) = pending s ?kg (fst y)" if "y \<in> set ps" for y
    proof -
      have "fst y \<noteq> i" using that fresh x by (metis image_eqI fst_conv)
      then show ?thesis by (simp add: k(3) a(3))
    qed
    then have "fst ` set ps \<subseteq> dom (pending s2 ?kg)" using Cons.prems(2) by (force simp: dom_def)
    moreover have "distinct (map fst ps)" using Cons.prems(1) by simp
    ultimately obtain retry dead s' where
      r: "split_reclaimed rd rp dlq clock ps ?acc s2 =
        (Inr \<lparr>retryable = retryable ?acc @ retry, dead_lettered = dead_lettered ?acc @ map fst dead\<rparr>, s')"
      and d: "split_done entries pending rp dlq clock ps s2 retry dead s'"
      using Cons.IH [of s2 ?acc] by blast
    have e2: "entries s2 = (entries s)(dlq := entries s dlq @ [(j, dead_fields (clock (fst x)) (fst x) (snd x))])"
      by (simp add: k(2) a(2) x)
    have p2: "pending s2 = (pending s)(?kg := (pending s ?kg)(fst x := None))"
      by (simp add: k(3) a(3) x)
    from split_done_dead [OF d True e2 p2 fresh] r step show ?thesis
      by - (rule exI [of _ retry], rule exI [of _ "x # dead"], rule exI [of _ s'], simp add: x)
  qed
qed

lemma stream_queue_entries_other:
  "entries s' = (entries s)(dlq := x) \<Longrightarrow> dlq \<noteq> k \<Longrightarrow> entries s' k = entries s k"
  by simp

text \<open>The reclaim run and the split, composed.\<close>

lemma recover_ok:
  assumes laws: "stream_laws rd entries pending rank"
    and wf: "wf_stream (entries s (stream_key (rp_queue rp)))"
  obtains ps s1 retry dead s' where
    "recover rd rp dlq clock s = Some (Inr \<lparr>retryable = retry, dead_lettered = map fst dead\<rparr>, s')"
    "reclaimed entries pending rank (rp_queue rp) ''0-0'' s ps s1"
    "split_done entries pending rp dlq clock ps s1 retry dead s'"
proof -
  obtain ps s1 where r: "reclaim_loop rd (rp_queue rp) (min_idle_ms rp) ''0-0'' [] s = Some (Inr ([] @ ps), s1)"
    and rc: "reclaimed entries pending rank (rp_queue rp) ''0-0'' s ps s1"
    using reclaim_loop_ok [OF laws wf, of "min_idle_ms rp" "''0-0''" "[]"] by blast
  have "fst ` set ps \<subseteq> dom (pending s1 (stream_key (rp_queue rp), group_name (rp_queue rp)))"
    using rc reclaimed_dom [OF rc] by (simp add: reclaimed_def)
  moreover have "distinct (map fst ps)" using rc by (simp add: reclaimed_def)
  ultimately obtain retry dead s' where "split_reclaimed rd rp dlq clock ps \<lparr>retryable = [], dead_lettered = []\<rparr> s1 =
      (Inr \<lparr>retryable = [] @ retry, dead_lettered = [] @ map fst dead\<rparr>, s')"
    and d: "split_done entries pending rp dlq clock ps s1 retry dead s'"
    using split_reclaimed_ok [OF laws, of ps s1 rp dlq clock "\<lparr>retryable = [], dead_lettered = []\<rparr>"] by fastforce
  with r have "recover rd rp dlq clock s = Some (Inr \<lparr>retryable = retry, dead_lettered = map fst dead\<rparr>, s')"
    by (simp add: recover_def reclaim_stale_def)
  from that [OF this rc d] show thesis .
qed

section \<open>Properties\<close>

text \<open>What one pass does to each pending job.\<close>

lemma recovery_outcome:
  assumes "stream_laws rd entries pending rank"
    and "wf_stream (entries s (stream_key (rp_queue rp)))" and "dlq \<noteq> stream_key (rp_queue rp)"
  shows "\<exists>r s'. recover rd rp dlq clock s = Some (Inr r, s')
    \<and> entries s' (stream_key (rp_queue rp)) = entries s (stream_key (rp_queue rp))
    \<and> (\<forall>i n. pending s (stream_key (rp_queue rp), group_name (rp_queue rp)) i = Some n \<longrightarrow>
        (pending s' (stream_key (rp_queue rp), group_name (rp_queue rp)) i = Some n
            \<and> i \<notin> fst ` set (retryable r) \<and> i \<notin> set (dead_lettered r))
        \<or> (pending s' (stream_key (rp_queue rp), group_name (rp_queue rp)) i = Some (n + 1)
            \<and> int n + 1 \<le> max_retries rp \<and> i \<notin> set (dead_lettered r)
            \<and> (\<exists>p. (i, p) \<in> set (retryable r) \<and> (i, encode_fields p) \<in> set (entries s (stream_key (rp_queue rp)))))
        \<or> (pending s' (stream_key (rp_queue rp), group_name (rp_queue rp)) i = None
            \<and> max_retries rp < int n + 1 \<and> i \<in> set (dead_lettered r) \<and> i \<notin> fst ` set (retryable r)
            \<and> (\<exists>p j. (i, encode_fields p) \<in> set (entries s (stream_key (rp_queue rp)))
                 \<and> (j, dead_fields (clock i) i p) \<in> set (entries s' dlq))))
    \<and> (\<forall>i. pending s (stream_key (rp_queue rp), group_name (rp_queue rp)) i = None \<longrightarrow>
        pending s' (stream_key (rp_queue rp), group_name (rp_queue rp)) i = None
        \<and> i \<notin> fst ` set (retryable r) \<and> i \<notin> set (dead_lettered r))"
proof -
  let ?k = "stream_key (rp_queue rp)" and ?kg = "(stream_key (rp_queue rp), group_name (rp_queue rp))"
  obtain ps s1 retry dead s' where
    run: "recover rd rp dlq clock s = Some (Inr \<lparr>retryable = retry, dead_lettered = map fst dead\<rparr>, s')"
    and rc: "reclaimed entries pending rank (rp_queue rp) ''0-0'' s ps s1"
    and d: "split_done entries pending rp dlq clock ps s1 retry dead s'"
    by (rule recover_ok [OF assms(1,2)])
  have p1: "pending s1 ?kg i = (if i \<in> fst ` set ps then map_option Suc (pending s ?kg i) else pending s ?kg i)" for i
    using rc by (simp add: reclaimed_def)
  have p2: "pending s' ?kg i = (if i \<in> fst ` set dead then None else pending s1 ?kg i)" for i
    using d by (simp add: split_done_def)
  have retry: "retry = filter (\<lambda>x. \<not> exhausted pending rp s1 (fst x)) ps"
    and dead: "dead = filter (\<lambda>x. exhausted pending rp s1 (fst x)) ps"
    using d by (simp_all add: split_done_def)
  obtain new where e: "entries s' = (entries s1)(dlq := entries s1 dlq @ new)"
      "map snd new = map (\<lambda>x. dead_fields (clock (fst x)) (fst x) (snd x)) dead"
    using d unfolding split_done_def by blast
  have dist: "distinct (map fst ps)" using rc by (simp add: reclaimed_def)
  have here: "(fst x, encode_fields (snd x)) \<in> set (entries s ?k)" if "x \<in> set ps" for x
    using rc that by (simp add: reclaimed_def)
  have each: "(pending s' ?kg i = Some n \<and> i \<notin> fst ` set retry \<and> i \<notin> set (map fst dead))
        \<or> (pending s' ?kg i = Some (n + 1) \<and> int n + 1 \<le> max_retries rp \<and> i \<notin> set (map fst dead)
            \<and> (\<exists>p. (i, p) \<in> set retry \<and> (i, encode_fields p) \<in> set (entries s ?k)))
        \<or> (pending s' ?kg i = None \<and> max_retries rp < int n + 1 \<and> i \<in> set (map fst dead) \<and> i \<notin> fst ` set retry
            \<and> (\<exists>p j. (i, encode_fields p) \<in> set (entries s ?k) \<and> (j, dead_fields (clock i) i p) \<in> set (entries s' dlq)))"
    if n: "pending s ?kg i = Some n" for i n
  proof (cases "i \<in> fst ` set ps")
    case False
    then have "i \<notin> fst ` set retry" "i \<notin> fst ` set dead" by (auto simp: retry dead)
    with False n p1 p2 show ?thesis by simp
  next
    case True
    then obtain p where ip: "(i, p) \<in> set ps" by auto
    have ex: "exhausted pending rp s1 i \<longleftrightarrow> max_retries rp < int n + 1"
      using True n by (auto simp: exhausted_def p1)
    show ?thesis
    proof (cases "exhausted pending rp s1 i")
      case exh: True
      then have dp: "(i, p) \<in> set dead" using ip by (simp add: dead)
      then have "dead_fields (clock i) i p \<in> set (map snd new)" by (force simp: e(2))
      then obtain j where "(j, dead_fields (clock i) i p) \<in> set new" by auto
      then have "(j, dead_fields (clock i) i p) \<in> set (entries s' dlq)" by (simp add: e(1))
      moreover have "i \<in> fst ` set dead" using dp by force
      moreover have "i \<notin> fst ` set retry" using exh by (auto simp: retry)
      ultimately show ?thesis using p2 exh ex here [OF ip] by auto
    next
      case False
      then have "(i, p) \<in> set retry" using ip by (simp add: retry)
      moreover have "i \<notin> fst ` set dead" using False by (auto simp: dead)
      ultimately show ?thesis using p1 p2 n True False ex here [OF ip] by auto
    qed
  qed
  have none: "pending s' ?kg i = None \<and> i \<notin> fst ` set retry \<and> i \<notin> set (map fst dead)"
    if "pending s ?kg i = None" for i
  proof -
    have "i \<notin> fst ` set ps" using rc that by (auto simp: reclaimed_def)
    then have "i \<notin> fst ` set retry" "i \<notin> fst ` set dead" by (auto simp: retry dead)
    with \<open>i \<notin> fst ` set ps\<close> p1 p2 that show ?thesis by simp
  qed
  have "entries s' ?k = entries s ?k" using e(1) rc assms(3) by (simp add: reclaimed_def)
  with run each none show ?thesis
    by (intro exI [of _ "\<lparr>retryable = retry, dead_lettered = map fst dead\<rparr>"] exI [of _ s']) simp
qed

text \<open>
  The passes of \<open>_recovery_loop\<close>, one after the other; before each the rest of the system changes
  Redis. A pass that raises is skipped, as the loop catches the exception.
\<close>

fun recover_passes ::
  "'s redis \<Rightarrow> retry_policy \<Rightarrow> string \<Rightarrow> ((string \<Rightarrow> json) \<times> ('s \<Rightarrow> 's)) list \<Rightarrow> 's \<Rightarrow> (recovery_result list \<times> 's) option" where
  "recover_passes rd rp dlq [] s = Some ([], s)"
| "recover_passes rd rp dlq ((clock, others) # ps) s =
     (case recover rd rp dlq clock (others s) of
        None \<Rightarrow> None
      | Some (Inl e, s1) \<Rightarrow> recover_passes rd rp dlq ps s1
      | Some (Inr r, s1) \<Rightarrow>
          (case recover_passes rd rp dlq ps s1 of None \<Rightarrow> None | Some (rs, s2) \<Rightarrow> Some (r # rs, s2)))"

text \<open>What the rest of the system may do to a pending job: acknowledge it or deliver it again.\<close>

definition leaves_job ::
  "('s \<Rightarrow> string \<Rightarrow> stream_entry list) \<Rightarrow> ('s \<Rightarrow> string \<times> string \<Rightarrow> string \<Rightarrow> nat option) \<Rightarrow> retry_policy \<Rightarrow> string
     \<Rightarrow> ('s \<Rightarrow> 's) \<Rightarrow> bool" where
  "leaves_job entries pending rp i f \<longleftrightarrow>
     (\<forall>s. (wf_stream (entries s (stream_key (rp_queue rp))) \<longrightarrow> wf_stream (entries (f s) (stream_key (rp_queue rp))))
        \<and> (case pending (f s) (stream_key (rp_queue rp), group_name (rp_queue rp)) i of
             None \<Rightarrow> True
           | Some m \<Rightarrow> (\<exists>n. pending s (stream_key (rp_queue rp), group_name (rp_queue rp)) i = Some n \<and> n \<le> m)))"

definition times :: "(recovery_result \<Rightarrow> bool) \<Rightarrow> recovery_result list \<Rightarrow> nat" where
  "times P rs = length (filter P rs)"

definition retries_left :: "retry_policy \<Rightarrow> nat option \<Rightarrow> nat" where
  "retries_left rp d = (case d of None \<Rightarrow> 0 | Some n \<Rightarrow> nat (max_retries rp - int n))"

definition off_pending :: "nat option \<Rightarrow> nat" where
  "off_pending d = (case d of None \<Rightarrow> 0 | Some n \<Rightarrow> 1)"

lemma recovery_of_job:
  assumes "stream_laws rd entries pending rank" and "dlq \<noteq> stream_key (rp_queue rp)"
    and "wf_stream (entries s (stream_key (rp_queue rp)))"
  obtains r s1 where "recover rd rp dlq clock s = Some (Inr r, s1)"
    "entries s1 (stream_key (rp_queue rp)) = entries s (stream_key (rp_queue rp))"
    "of_bool (i \<in> fst ` set (retryable r))
        + retries_left rp (pending s1 (stream_key (rp_queue rp), group_name (rp_queue rp)) i)
      \<le> retries_left rp (pending s (stream_key (rp_queue rp), group_name (rp_queue rp)) i)"
    "of_bool (i \<in> set (dead_lettered r)) + off_pending (pending s1 (stream_key (rp_queue rp), group_name (rp_queue rp)) i)
      \<le> off_pending (pending s (stream_key (rp_queue rp), group_name (rp_queue rp)) i)"
proof -
  let ?kg = "(stream_key (rp_queue rp), group_name (rp_queue rp))"
  obtain r s1 where r: "recover rd rp dlq clock s = Some (Inr r, s1)"
      "entries s1 (stream_key (rp_queue rp)) = entries s (stream_key (rp_queue rp))"
    and some: "\<And>n. pending s ?kg i = Some n \<Longrightarrow>
        (pending s1 ?kg i = Some n \<and> i \<notin> fst ` set (retryable r) \<and> i \<notin> set (dead_lettered r))
        \<or> (pending s1 ?kg i = Some (n + 1) \<and> int n + 1 \<le> max_retries rp \<and> i \<notin> set (dead_lettered r))
        \<or> (pending s1 ?kg i = None \<and> i \<in> set (dead_lettered r) \<and> i \<notin> fst ` set (retryable r))"
    and none: "pending s ?kg i = None \<Longrightarrow>
        pending s1 ?kg i = None \<and> i \<notin> fst ` set (retryable r) \<and> i \<notin> set (dead_lettered r)"
    using recovery_outcome [OF assms(1,3,2), of clock] by (elim exE conjE) blast
  have "of_bool (i \<in> fst ` set (retryable r)) + retries_left rp (pending s1 ?kg i) \<le> retries_left rp (pending s ?kg i)"
    and "of_bool (i \<in> set (dead_lettered r)) + off_pending (pending s1 ?kg i) \<le> off_pending (pending s ?kg i)"
    using some none
    by (cases "pending s ?kg i"; force simp: retries_left_def off_pending_def of_bool_def)+
  with r show thesis by (rule that)
qed

lemma leaves_job_left:
  assumes "leaves_job entries pending rp i f"
  shows "retries_left rp (pending (f s) (stream_key (rp_queue rp), group_name (rp_queue rp)) i)
      \<le> retries_left rp (pending s (stream_key (rp_queue rp), group_name (rp_queue rp)) i)"
    "off_pending (pending (f s) (stream_key (rp_queue rp), group_name (rp_queue rp)) i)
      \<le> off_pending (pending s (stream_key (rp_queue rp), group_name (rp_queue rp)) i)"
proof -
  let ?kg = "(stream_key (rp_queue rp), group_name (rp_queue rp))"
  have "pending (f s) ?kg i = None \<or> (\<exists>n m. pending (f s) ?kg i = Some m \<and> pending s ?kg i = Some n \<and> n \<le> m)"
    using spec [OF assms [unfolded leaves_job_def], of s] by (auto split: option.splits)
  then show "retries_left rp (pending (f s) ?kg i) \<le> retries_left rp (pending s ?kg i)"
    "off_pending (pending (f s) ?kg i) \<le> off_pending (pending s ?kg i)"
    by (auto simp: retries_left_def off_pending_def)
qed

lemma recover_passes_bound:
  assumes "stream_laws rd entries pending rank" and "dlq \<noteq> stream_key (rp_queue rp)"
    and "wf_stream (entries s (stream_key (rp_queue rp)))" and "list_all (\<lambda>(clock, f). leaves_job entries pending rp i f) passes"
  shows "\<exists>rs s'. recover_passes rd rp dlq passes s = Some (rs, s') \<and> length rs = length passes
    \<and> times (\<lambda>r. i \<in> fst ` set (retryable r)) rs
        \<le> retries_left rp (pending s (stream_key (rp_queue rp), group_name (rp_queue rp)) i)
    \<and> times (\<lambda>r. i \<in> set (dead_lettered r)) rs
        \<le> off_pending (pending s (stream_key (rp_queue rp), group_name (rp_queue rp)) i)"
  using assms(3,4)
proof (induction passes arbitrary: s)
  case Nil
  then show ?case by (simp add: times_def)
next
  case (Cons x passes)
  let ?k = "stream_key (rp_queue rp)" and ?kg = "(stream_key (rp_queue rp), group_name (rp_queue rp))"
  obtain clock f where x: "x = (clock, f)" by (rule prod.exhaust)
  have f: "leaves_job entries pending rp i f" using Cons.prems(2) x by simp
  have wf: "wf_stream (entries (f s) ?k)" using f Cons.prems(1) by (simp add: leaves_job_def)
  obtain r s1 where r: "recover rd rp dlq clock (f s) = Some (Inr r, s1)" "entries s1 ?k = entries (f s) ?k"
    and job: "of_bool (i \<in> fst ` set (retryable r)) + retries_left rp (pending s1 ?kg i) \<le> retries_left rp (pending (f s) ?kg i)"
      "of_bool (i \<in> set (dead_lettered r)) + off_pending (pending s1 ?kg i) \<le> off_pending (pending (f s) ?kg i)"
    by (rule recovery_of_job [OF assms(1,2) wf, of clock i])
  have "wf_stream (entries s1 ?k)" "list_all (\<lambda>(clock, f). leaves_job entries pending rp i f) passes"
    using r(2) wf Cons.prems(2) by simp_all
  from Cons.IH [OF this] obtain rs s' where rs: "recover_passes rd rp dlq passes s1 = Some (rs, s')" "length rs = length passes"
      "times (\<lambda>r. i \<in> fst ` set (retryable r)) rs \<le> retries_left rp (pending s1 ?kg i)"
      "times (\<lambda>r. i \<in> set (dead_lettered r)) rs \<le> off_pending (pending s1 ?kg i)"
    by blast
  have times: "times P (r # rs) = of_bool (P r) + times P rs" for P by (simp add: times_def)
  have run: "recover_passes rd rp dlq (x # passes) s = Some (r # rs, s')" by (simp add: x r(1) rs(1))
  note left = leaves_job_left [OF f, of s]
  have "times (\<lambda>r. i \<in> fst ` set (retryable r)) (r # rs) \<le> retries_left rp (pending s ?kg i)"
    unfolding times using rs(3) job(1) left(1) by linarith
  moreover have "times (\<lambda>r. i \<in> set (dead_lettered r)) (r # rs) \<le> off_pending (pending s ?kg i)"
    unfolding times using rs(4) job(2) left(2) by linarith
  ultimately show ?case using run rs(2) by (intro exI [of _ "r # rs"] exI [of _ s'] conjI) simp_all
qed


definition demo_queue :: stream_queue where
  "demo_queue = new_queue ''llm:stream:request_queue'' ''fleet-workers'' (Some ''c1'') []"

definition demo_policy :: retry_policy where
  "demo_policy = \<lparr>rp_queue = demo_queue, max_retries = 3, min_idle_ms = 30000\<rparr>"

definition demo_job :: payload where
  "demo_job = [(''request_id'', JStr ''r1''), (''prompt'', JStr ''hello'')]"

text \<open>One job in the queue that was delivered \<open>n\<close> times and never acknowledged.\<close>

definition demo_stream :: "nat \<Rightarrow> ref_state" where
  "demo_stream n = ref_empty\<lparr>
     ref_entries := (\<lambda>k. if k = stream_key demo_queue then [(''1'', encode_fields demo_job)] else []),
     ref_pending := (\<lambda>kg. if kg = (stream_key demo_queue, group_name demo_queue) then [(''1'', n)] else [])\<rparr>"

lemma demo_stream_wf: "wf_stream (ref_entries (demo_stream n) (stream_key demo_queue))"
  by (auto simp: wf_stream_def demo_stream_def wf_payload_def demo_job_def)


text \<open>
  C14. Recovery gives up on a job that keeps failing. Over any number of recovery passes, each of
  which returns, with the rest of the system acknowledging and redelivering in between, a job that
  was delivered \<open>n\<close> times is handed back for a retry at most \<open>max_retries - n\<close> times (so a job that
  is read once is run at most \<open>max_retries\<close> times in all) and is dead-lettered at most once.
\<close>

theorem poison_job_bounded:
  assumes "stream_laws rd entries pending rank" and "dlq \<noteq> stream_key (rp_queue rp)"
    and "wf_stream (entries s (stream_key (rp_queue rp)))"
    and "list_all (\<lambda>(clock, f). leaves_job entries pending rp i f) passes"
    and "pending s (stream_key (rp_queue rp), group_name (rp_queue rp)) i = Some n"
  shows "\<exists>rs s'. recover_passes rd rp dlq passes s = Some (rs, s') \<and> length rs = length passes
    \<and> int (length (filter (\<lambda>r. i \<in> fst ` set (retryable r)) rs)) \<le> max 0 (max_retries rp - int n)
    \<and> length (filter (\<lambda>r. i \<in> set (dead_lettered r)) rs) \<le> 1"
proof -
  obtain rs s' where rs: "recover_passes rd rp dlq passes s = Some (rs, s')" "length rs = length passes"
      "times (\<lambda>r. i \<in> fst ` set (retryable r)) rs \<le> nat (max_retries rp - int n)"
      "times (\<lambda>r. i \<in> set (dead_lettered r)) rs \<le> 1"
    using recover_passes_bound [OF assms(1-4)] unfolding assms(5) retries_left_def off_pending_def option.case
    by (elim exE conjE)
  have "int (times (\<lambda>r. i \<in> fst ` set (retryable r)) rs) \<le> max 0 (max_retries rp - int n)"
    using rs(3) by linarith
  with rs show ?thesis unfolding times_def by (intro exI conjI)
qed

theorem poison_job_bounded_witness:
  "\<exists>rs s'. recover_passes ref_redis demo_policy ''llm:stream:dead_letter'' (replicate 5 (\<lambda>_. JFloat 15 1, \<lambda>s. s)) (demo_stream 1)
      = Some (rs, s') \<and> length (filter (\<lambda>r. ''1'' \<in> fst ` set (retryable r)) rs) \<le> 2"
proof -
  have wf: "wf_stream (ref_entries (demo_stream 1) (stream_key (rp_queue demo_policy)))"
    using demo_stream_wf by (simp add: demo_policy_def)
  have ne: "''llm:stream:dead_letter'' \<noteq> stream_key (rp_queue demo_policy)"
    by (simp add: demo_policy_def demo_queue_def new_queue_def)
  have n: "ref_pend (demo_stream 1) (stream_key (rp_queue demo_policy), group_name (rp_queue demo_policy)) ''1'' = Some 1"
    by (simp add: demo_stream_def ref_pend_def demo_policy_def)
  have "leaves_job ref_entries ref_pend demo_policy ''1'' (\<lambda>s. s)"
    by (simp add: leaves_job_def split: option.split)
  then have "list_all (\<lambda>(clock, f). leaves_job ref_entries ref_pend demo_policy ''1'' f)
      (replicate 5 (\<lambda>_ :: string. JFloat 15 1, \<lambda>s. s))" by (simp add: list_all_iff)
  note bound = poison_job_bounded [OF ref_stream_laws ne wf this n]
  from bound obtain rs s' where
    rs: "recover_passes ref_redis demo_policy ''llm:stream:dead_letter'' (replicate 5 (\<lambda>_. JFloat 15 1, \<lambda>s. s)) (demo_stream 1)
      = Some (rs, s')" "int (length (filter (\<lambda>r. ''1'' \<in> fst ` set (retryable r)) rs)) \<le> max 0 (max_retries demo_policy - int 1)"
    by (elim exE conjE)
  have "max_retries demo_policy = 3" by (simp add: demo_policy_def)
  with rs(2) have "length (filter (\<lambda>r. ''1'' \<in> fst ` set (retryable r)) rs) \<le> 2" by simp
  with rs(1) show ?thesis by (intro exI conjI)
qed

text \<open>
  What is enqueued is what is dequeued: decoding the fields of an encoded job gives the job
  back, key for key in order.
\<close>

theorem payload_roundtrip:
  assumes "list_all (\<lambda>(k, v). wf_json v) p"
  shows "decode_fields (encode_fields p) = Inr p"
  by (rule decode_encode) (simp add: wf_payload_def assms)

theorem payload_roundtrip_witness: "decode_fields (encode_fields demo_job) = Inr demo_job"
  by (rule payload_roundtrip) (simp add: demo_job_def)

text \<open>
  A dead letter stays inspectable: after a job was dead-lettered, listing the dead letters
  returns those listed before and then the new one, with the original id, the reason, the time and
  the payload it was stored with.
\<close>

theorem dead_letter_roundtrip:
  assumes "stream_laws rd entries pending rank"
    and "dead_letter_list rd dlq n s = (Inr ds, s)" and "length (entries s dlq) < n"
    and "wf_json (JDict p)" and "0 < k"
  shows "\<exists>i s'. dead_letter_add rd dlq (JFloat m k) oid p reason s = (Inr i, s')
    \<and> dead_letter_list rd dlq n s' = (Inr (ds @ [\<lparr>dl_entry_id = i, dl_original_id = oid, dl_reason = reason,
        dl_failed_at = JFloat m k, dl_payload = JDict p\<rparr>]), s')"
proof -
  let ?f = "[(''original_entry_id'', oid), (''reason'', reason), (''failed_at'', dumps (JFloat m k)),
     (''payload'', dumps (JDict p))]"
  obtain i s' where a: "xadd rd dlq ?f s = (Inr i, s')"
      "entries s' = (entries s)(dlq := entries s dlq @ [(i, ?f)])"
    using stream_lawsD(1) [OF assms(1)] by blast
  have list: "dead_letter_list rd dlq n t = (traverse dead_letter_of (take n (entries t dlq)), t)" for t
    by (simp add: dead_letter_list_def bind_def stream_lawsD(4) [OF assms(1)] lift_result_def)
  have wf: "wf_json (JFloat m k)" using assms(5) by simp
  have "dead_letter_of (i, ?f) = Inr \<lparr>dl_entry_id = i, dl_original_id = oid, dl_reason = reason,
      dl_failed_at = JFloat m k, dl_payload = JDict p\<rparr>"
    using loads_dumps [OF wf] loads_dumps [OF assms(4)]
    by (simp add: dead_letter_of_def field_def py_float_def del: dumps.simps)
  moreover have "traverse dead_letter_of (entries s dlq) = Inr ds"
    using assms(2,3) by (simp add: list)
  ultimately have "traverse dead_letter_of (take n (entries s' dlq)) = Inr (ds @ [\<lparr>dl_entry_id = i,
      dl_original_id = oid, dl_reason = reason, dl_failed_at = JFloat m k, dl_payload = JDict p\<rparr>])"
    using assms(3) by (simp add: a(2) traverse_append del: dumps.simps)
  with a(1) show ?thesis
    by (intro exI [of _ i] exI [of _ s']) (simp add: dead_letter_add_def list del: dumps.simps)
qed

theorem dead_letter_roundtrip_witness:
  "\<exists>i s'. dead_letter_list ref_redis ''dlq'' 100 s' = (Inr [\<lparr>dl_entry_id = i, dl_original_id = ''1'',
      dl_reason = max_retries_exceeded, dl_failed_at = JFloat 15 1, dl_payload = JDict demo_job\<rparr>], s')"
proof -
  have "dead_letter_list ref_redis ''dlq'' 100 ref_empty = (Inr [], ref_empty)"
    by (simp add: dead_letter_list_def ref_redis_def ref_empty_def bind_def lift_result_def)
  moreover have "length (ref_entries ref_empty ''dlq'') < 100" by (simp add: ref_empty_def)
  moreover have "wf_json (JDict demo_job)" by (simp add: demo_job_def)
  ultimately show ?thesis
    using dead_letter_roundtrip [OF ref_stream_laws, of "''dlq''" 100 ref_empty "[]" demo_job 1 15 "''1''" max_retries_exceeded]
    by auto
qed

text \<open>
  The reported queue depth counts every job ever enqueued: enqueueing adds one, and neither
  acknowledging nor any number of acknowledgements takes anything off, so it is not the number of
  jobs that wait.
\<close>

theorem queue_depth_counts_finished_jobs:
  assumes "stream_laws rd entries pending rank"
  shows "\<exists>i s1 s2 n. enqueue rd q p s = (Inr i, s1) \<and> fold (\<lambda>j t. snd (ack rd q j t)) acked s1 = s2
    \<and> depth rd q s = (Inr n, s) \<and> depth rd q s2 = (Inr (n + 1), s2)"
proof -
  obtain i s1 where e: "xadd rd (stream_key q) (encode_fields p) s = (Inr i, s1)"
      "entries s1 = (entries s)(stream_key q := entries s (stream_key q) @ [(i, encode_fields p)])"
    using stream_lawsD(1) [OF assms] by blast
  have ack: "entries (fold (\<lambda>j t. snd (ack rd q j t)) js t) = entries t" for js t
  proof (induction js arbitrary: t)
    case (Cons j js)
    have "entries (snd (ack rd q j t)) = entries t"
      using ack_eq [OF assms, of q j t] by (metis snd_conv)
    with Cons [of "snd (ack rd q j t)"] show ?case by simp
  qed simp
  show ?thesis
    using e ack by (simp add: enqueue_def depth_def stream_lawsD(3) [OF assms])
qed

theorem queue_depth_counts_finished_jobs_witness:
  "\<exists>i s1 s2 n. enqueue ref_redis demo_queue demo_job (demo_stream 1) = (Inr i, s1)
    \<and> fold (\<lambda>j t. snd (ack ref_redis demo_queue j t)) [''1''] s1 = s2
    \<and> depth ref_redis demo_queue (demo_stream 1) = (Inr n, demo_stream 1)
    \<and> depth ref_redis demo_queue s2 = (Inr (n + 1), s2)"
  by (rule queue_depth_counts_finished_jobs [OF ref_stream_laws])

end
