(* ===== verification/OllamaClient.thy ===== *)
theory OllamaClient
  imports PyJson
begin

text \<open>
  \<^verbatim>\<open>workers/ollama_client.py\<close>: one client object per worker, its statistics, the health probe and
  the two inference calls. The HTTP exchange belongs to httpx and the worker: its outcome is an
  argument. A call suspends while the exchange runs, so it is two atomic steps, \<open>begin_call\<close>
  (before the await) and \<open>finish_generate\<close> / \<open>finish_chat\<close> (after it); other requests may run in
  between. Prometheus counters reject some amounts: \<open>inc\<close> says which exception, if any,
  \<open>Counter.inc\<close> answers a JSON value with.
\<close>

section \<open>State\<close>

record worker_stats =
  url :: string
  active_requests :: int
  total_requests :: int
  total_latency :: real
  failures :: int
  is_healthy :: bool

definition new_stats :: "string \<Rightarrow> worker_stats" where
  "new_stats u =
     \<lparr>url = u, active_requests = 0, total_requests = 0, total_latency = 0, failures = 0,
      is_healthy = True\<rparr>"

definition avg_latency :: "worker_stats \<Rightarrow> real" where
  "avg_latency s =
     (if total_requests s = 0 then 0 else total_latency s / of_int (total_requests s))"

text \<open>\<open>cid\<close> is the identity of the Python object: two clients of one URL are different objects.\<close>

record client =
  cid :: nat
  base_url :: string
  req_timeout :: int
  max_context_tokens :: int
  stats :: worker_stats

definition new_client :: "nat \<Rightarrow> string \<Rightarrow> int \<Rightarrow> int option \<Rightarrow> int \<Rightarrow> client" where
  "new_client i u tmo max_ctx dflt =
     \<lparr>cid = i, base_url = rstrip_char (CHR ''/'') u, req_timeout = tmo,
      max_context_tokens = (case max_ctx of Some m \<Rightarrow> m | None \<Rightarrow> dflt),
      stats = new_stats u\<rparr>"

abbreviation curl :: "client \<Rightarrow> string" where
  "curl w \<equiv> url (stats w)"

text \<open>The outcome of an exchange: a status code, a JSON body, or an exception with its text.\<close>

datatype probe_outcome = Status nat | ProbeRaised

datatype http_outcome = Body json | Raised string

section \<open>health\_check\<close>

definition health_check :: "probe_outcome \<Rightarrow> client \<Rightarrow> bool \<times> client" where
  "health_check o' w =
     (let ok = (case o' of Status c \<Rightarrow> c = 200 | ProbeRaised \<Rightarrow> False)
      in (ok, w\<lparr>stats := (stats w)\<lparr>is_healthy := ok\<rparr>\<rparr>))"

section \<open>generate and chat\<close>

text \<open>The JSON each call posts to \<open>/api/chat\<close>.\<close>

definition chat_body :: "json \<Rightarrow> json \<Rightarrow> json" where
  "chat_body model messages =
     JDict [(''model'', model), (''messages'', messages), (''stream'', JBool False)]"

definition generate_body :: "json \<Rightarrow> json \<Rightarrow> json" where
  "generate_body model prompt =
     chat_body model (JList [JDict [(''role'', JStr ''user''), (''content'', prompt)]])"

definition begin_call :: "client \<Rightarrow> client" where
  "begin_call w = w\<lparr>stats := (stats w)\<lparr>active_requests := active_requests (stats w) + 1\<rparr>\<rparr>"

text \<open>The \<open>finally\<close> block.\<close>

definition end_call :: "client \<Rightarrow> client" where
  "end_call w = w\<lparr>stats := (stats w)\<lparr>active_requests := active_requests (stats w) - 1\<rparr>\<rparr>"

definition count_success :: "real \<Rightarrow> client \<Rightarrow> client" where
  "count_success latency w =
     w\<lparr>stats := (stats w)\<lparr>total_requests := total_requests (stats w) + 1,
        total_latency := total_latency (stats w) + latency, failures := 0\<rparr>\<rparr>"

definition count_failure :: "client \<Rightarrow> client" where
  "count_failure w = w\<lparr>stats := (stats w)\<lparr>failures := failures (stats w) + 1\<rparr>\<rparr>"

text \<open>\<open>round(latency * 1000, 2)\<close> as a decimal, halves to the even neighbour.\<close>

definition round_half_even :: "real \<Rightarrow> int" where
  "round_half_even x =
     (let f = \<lfloor>x\<rfloor>; d = x - of_int f
      in if d < 1 / 2 then f else if d > 1 / 2 then f + 1 else if even f then f else f + 1)"

definition decimal2 :: "int \<Rightarrow> json" where
  "decimal2 m = (if m mod 10 = 0 then JFloat (m div 10) 1 else JFloat m 2)"

definition latency_ms :: "real \<Rightarrow> json" where
  "latency_ms latency = decimal2 (round_half_even (latency * 1000 * 100))"

text \<open>\<open>d.get(k, v)\<close> on a JSON value: only an object has the method.\<close>

fun type_name :: "json \<Rightarrow> string" where
  "type_name JNull = ''NoneType''"
| "type_name (JBool _) = ''bool''"
| "type_name (JInt _) = ''int''"
| "type_name (JFloat _ _) = ''float''"
| "type_name (JStr _) = ''str''"
| "type_name (JList _) = ''list''"
| "type_name (JDict _) = ''dict''"

definition no_get :: "json \<Rightarrow> py_exc" where
  "no_get j = AttributeError (CHR 0x27 # type_name j @ CHR 0x27 # '' object has no attribute ''
     @ CHR 0x27 # ''get'' @ [CHR 0x27])"

definition json_get :: "json \<Rightarrow> string \<Rightarrow> json \<Rightarrow> json result" where
  "json_get j k v = (case j of JDict d \<Rightarrow> Inr (dict_get d k v) | _ \<Rightarrow> Inl (no_get j))"

text \<open>The two token counts, each handed to a Prometheus counter.\<close>

definition token_counts :: "(json \<Rightarrow> py_exc option) \<Rightarrow> json \<Rightarrow> (json \<times> json) result" where
  "token_counts inc result =
     (case json_get result ''prompt_eval_count'' (JInt 0) of Inl e \<Rightarrow> Inl e
      | Inr p \<Rightarrow>
          (case json_get result ''eval_count'' (JInt 0) of Inl e \<Rightarrow> Inl e
           | Inr c \<Rightarrow> (case inc p of Some e \<Rightarrow> Inl e
                     | None \<Rightarrow> (case inc c of Some e \<Rightarrow> Inl e | None \<Rightarrow> Inr (p, c)))))"

definition generate_reply :: "(json \<Rightarrow> py_exc option) \<Rightarrow> string \<Rightarrow> real \<Rightarrow> json \<Rightarrow> json pydict result" where
  "generate_reply inc base latency result =
     (case token_counts inc result of Inl e \<Rightarrow> Inl e
      | Inr (p, c) \<Rightarrow>
          (case json_get result ''message'' (JDict []) of Inl e \<Rightarrow> Inl e
           | Inr m \<Rightarrow>
               (case json_get m ''content'' (JStr []) of Inl e \<Rightarrow> Inl e
                | Inr t \<Rightarrow>
                    (case json_get result ''model'' JNull of Inl e \<Rightarrow> Inl e
                     | Inr mo \<Rightarrow> Inr [(''response'', t), (''model'', mo), (''worker_url'', JStr base),
                         (''latency_ms'', latency_ms latency), (''prompt_tokens'', p),
                         (''completion_tokens'', c)]))))"

definition chat_reply :: "(json \<Rightarrow> py_exc option) \<Rightarrow> string \<Rightarrow> real \<Rightarrow> json \<Rightarrow> json pydict result" where
  "chat_reply inc base latency result =
     (case token_counts inc result of Inl e \<Rightarrow> Inl e
      | Inr (p, c) \<Rightarrow>
          (case json_get result ''message'' (JDict []) of Inl e \<Rightarrow> Inl e
           | Inr m \<Rightarrow>
               (case json_get result ''model'' JNull of Inl e \<Rightarrow> Inl e
                | Inr mo \<Rightarrow> Inr [(''message'', m), (''model'', mo), (''worker_url'', JStr base),
                    (''latency_ms'', latency_ms latency), (''prompt_tokens'', p),
                    (''completion_tokens'', c)])))"

definition worker_error :: "client \<Rightarrow> string \<Rightarrow> py_exc" where
  "worker_error w msg = RuntimeError (''Worker '' @ base_url w @ '' failed: '' @ msg)"

text \<open>
  Everything after the await. The statistics are updated as soon as the body is parsed, so a body
  the reply cannot be built from counts as a success first and then as one failure.
\<close>

definition finish_call ::
  "(string \<Rightarrow> real \<Rightarrow> json \<Rightarrow> json pydict result) \<Rightarrow> real \<Rightarrow> http_outcome \<Rightarrow> client
     \<Rightarrow> json pydict result \<times> client" where
  "finish_call reply latency o' w =
     (case o' of
        Raised msg \<Rightarrow> (Inl (worker_error w msg), end_call (count_failure w))
      | Body result \<Rightarrow>
          (let w' = count_success latency w
           in case reply (base_url w) latency result of
                Inl e \<Rightarrow> (Inl (worker_error w (exc_text e)), end_call (count_failure w'))
              | Inr r \<Rightarrow> (Inr r, end_call w')))"

definition finish_generate ::
  "(json \<Rightarrow> py_exc option) \<Rightarrow> real \<Rightarrow> http_outcome \<Rightarrow> client \<Rightarrow> json pydict result \<times> client" where
  "finish_generate inc = finish_call (generate_reply inc)"

definition finish_chat ::
  "(json \<Rightarrow> py_exc option) \<Rightarrow> real \<Rightarrow> http_outcome \<Rightarrow> client \<Rightarrow> json pydict result \<times> client" where
  "finish_chat inc = finish_call (chat_reply inc)"

lemmas call_defs = begin_call_def end_call_def count_success_def count_failure_def

section \<open>Lemmas\<close>

lemma new_client_sel [simp]:
  "cid (new_client i u tmo mc d) = i" "curl (new_client i u tmo mc d) = u"
  "is_healthy (stats (new_client i u tmo mc d))" "active_requests (stats (new_client i u tmo mc d)) = 0"
  by (simp_all add: new_client_def new_stats_def)

lemma begin_call_sel [simp]:
  "cid (begin_call w) = cid w" "curl (begin_call w) = curl w" "base_url (begin_call w) = base_url w"
  "active_requests (stats (begin_call w)) = active_requests (stats w) + 1"
  "max_context_tokens (begin_call w) = max_context_tokens w"
  "is_healthy (stats (begin_call w)) = is_healthy (stats w)"
  by (simp_all add: begin_call_def)

lemma health_check_sel [simp]:
  "cid (snd (health_check o' w)) = cid w" "curl (snd (health_check o' w)) = curl w"
  "active_requests (stats (snd (health_check o' w))) = active_requests (stats w)"
  "max_context_tokens (snd (health_check o' w)) = max_context_tokens w"
  "is_healthy (stats (snd (health_check o' w))) = fst (health_check o' w)"
  by (simp_all add: health_check_def Let_def)

lemma finish_call_sel [simp]:
  "cid (snd (finish_call reply l o' w)) = cid w"
  "curl (snd (finish_call reply l o' w)) = curl w"
  "active_requests (stats (snd (finish_call reply l o' w))) = active_requests (stats w) - 1"
  "max_context_tokens (snd (finish_call reply l o' w)) = max_context_tokens w"
  "is_healthy (stats (snd (finish_call reply l o' w))) = is_healthy (stats w)"
  by (simp_all add: finish_call_def call_defs Let_def split: http_outcome.split sum.split)

lemma finish_call_error:
  "fst (finish_call reply l o' w) = Inl e \<Longrightarrow> \<exists>m. e = RuntimeError (''Worker '' @ base_url w @ '' failed: '' @ m)"
  by (auto simp: finish_call_def worker_error_def Let_def split: http_outcome.splits sum.splits)

lemma finish_call_failures:
  "failures (stats (snd (finish_call reply l o' w))) =
     (case fst (finish_call reply l o' w) of
        Inr _ \<Rightarrow> 0
      | Inl _ \<Rightarrow> (case o' of Raised _ \<Rightarrow> failures (stats w) + 1 | Body _ \<Rightarrow> 1))"
  by (simp add: finish_call_def call_defs Let_def split: http_outcome.split sum.split)

lemma avg_latency_nonneg:
  "0 \<le> total_requests s \<Longrightarrow> 0 \<le> total_latency s \<Longrightarrow> 0 \<le> avg_latency s"
  by (simp add: avg_latency_def)

section \<open>Properties\<close>

text \<open>
  A call that nothing interleaves with leaves the number of active requests as it found it,
  on success and on every failure, and any failure reaches the caller as a \<open>RuntimeError\<close> that
  names the worker; the failure counter is zero exactly after a success.
\<close>

theorem generate_call_balanced:
  assumes "0 \<le> failures (stats w)"
  shows "case finish_generate inc latency o' (begin_call w) of
           (Inr r, w') \<Rightarrow> active_requests (stats w') = active_requests (stats w)
                          \<and> failures (stats w') = 0 \<and> total_requests (stats w') = total_requests (stats w) + 1
         | (Inl e, w') \<Rightarrow> active_requests (stats w') = active_requests (stats w)
                          \<and> failures (stats w') > 0 \<and> is_runtime_error e
                          \<and> prefix (''Worker '' @ base_url w) (exc_text e)"
  using assms
  by (auto simp: finish_generate_def finish_call_def worker_error_def call_defs Let_def
      split: http_outcome.splits sum.splits)

theorem generate_call_balanced_witness:
  "is_runtime_error (projl (fst (finish_generate (\<lambda>_. None) 1 (Raised ''timeout'')
      (begin_call (new_client 0 ''http://w/'' 120 None 8192)))))"
  using generate_call_balanced [of "new_client 0 ''http://w/'' 120 None 8192" "\<lambda>_. None" 1 "Raised ''timeout''"]
  by (simp add: new_client_def new_stats_def finish_generate_def finish_call_def call_defs worker_error_def)

end
