(* ===== verification/CircuitBreaker.thy ===== *)
theory CircuitBreaker
  imports Prelude
begin

text \<open>
  \<^verbatim>\<open>router/circuit_breaker.py\<close>: the per-worker breaker. \<open>is_open\<close> both answers and moves an
  \<open>OPEN\<close> breaker whose cooldown has passed to \<open>HALF_OPEN\<close>, so it returns the new breaker beside
  the answer. The clock reading of each call is an argument.
\<close>

section \<open>State and operations\<close>

datatype circuit_state = CLOSED | OPEN | HALF_OPEN

record breaker =
  worker_url :: string
  cstate :: circuit_state
  failure_count :: int
  last_failure_time :: real
  threshold :: int
  cb_timeout :: real

definition new_breaker :: "int \<Rightarrow> real \<Rightarrow> string \<Rightarrow> breaker" where
  "new_breaker thr tmo url =
     \<lparr>worker_url = url, cstate = CLOSED, failure_count = 0, last_failure_time = 0,
      threshold = thr, cb_timeout = tmo\<rparr>"

definition is_open :: "real \<Rightarrow> breaker \<Rightarrow> bool \<times> breaker" where
  "is_open now b =
     (if cstate b = OPEN then
        (if now - last_failure_time b \<ge> cb_timeout b then (False, b\<lparr>cstate := HALF_OPEN\<rparr>)
         else (True, b))
      else (False, b))"

definition cb_record_success :: "breaker \<Rightarrow> breaker" where
  "cb_record_success b = b\<lparr>cstate := CLOSED, failure_count := 0\<rparr>"

definition cb_record_failure :: "real \<Rightarrow> breaker \<Rightarrow> breaker" where
  "cb_record_failure now b =
     (let b' = b\<lparr>failure_count := failure_count b + 1, last_failure_time := now\<rparr>
      in if failure_count b' \<ge> threshold b' then b'\<lparr>cstate := OPEN\<rparr> else b')"

fun status :: "breaker \<Rightarrow> string" where
  "status b = (case cstate b of CLOSED \<Rightarrow> ''closed'' | OPEN \<Rightarrow> ''open'' | HALF_OPEN \<Rightarrow> ''half_open'')"

text \<open>Severity orders the states; the library's order reasoning applies to them.\<close>

instantiation circuit_state :: linorder
begin

fun rank_circuit_state :: "circuit_state \<Rightarrow> nat" where
  "rank_circuit_state CLOSED = 0"
| "rank_circuit_state HALF_OPEN = 1"
| "rank_circuit_state OPEN = 2"

definition less_eq_circuit_state :: "circuit_state \<Rightarrow> circuit_state \<Rightarrow> bool" where
  "s \<le> t \<longleftrightarrow> rank_circuit_state s \<le> rank_circuit_state t"

definition less_circuit_state :: "circuit_state \<Rightarrow> circuit_state \<Rightarrow> bool" where
  "s < t \<longleftrightarrow> rank_circuit_state s < rank_circuit_state t"

instance
proof
  fix s t :: circuit_state
  assume "s \<le> t" and "t \<le> s"
  then show "s = t" by (cases s; cases t) (auto simp: less_eq_circuit_state_def)
qed (auto simp: less_eq_circuit_state_def less_circuit_state_def)

end

lemma OPEN_top: "s \<le> OPEN"
  by (cases s) (auto simp: less_eq_circuit_state_def)

section \<open>Events, runs and the transition relation\<close>

text \<open>
  What the rest of the program does to one breaker: ask it (\<open>Probe\<close>), or report the outcome of a
  call.
\<close>

datatype cb_event = Probe real | Success | Failure real

fun cb_apply :: "cb_event \<Rightarrow> breaker \<Rightarrow> breaker" where
  "cb_apply (Probe now) b = snd (is_open now b)"
| "cb_apply Success b = cb_record_success b"
| "cb_apply (Failure now) b = cb_record_failure now b"

fun cb_run :: "cb_event list \<Rightarrow> breaker \<Rightarrow> breaker" where
  "cb_run [] b = b"
| "cb_run (e # es) b = cb_run es (cb_apply e b)"

lemma cb_run_append [simp]: "cb_run (es @ fs) b = cb_run fs (cb_run es b)"
  by (induction es arbitrary: b) auto

inductive cb_step :: "breaker \<Rightarrow> cb_event \<Rightarrow> breaker \<Rightarrow> bool" where
  cooldown: "cstate b = OPEN \<Longrightarrow> now - last_failure_time b \<ge> cb_timeout b \<Longrightarrow>
     cb_step b (Probe now) (b\<lparr>cstate := HALF_OPEN\<rparr>)"
| blocked: "cstate b = OPEN \<Longrightarrow> now - last_failure_time b < cb_timeout b \<Longrightarrow> cb_step b (Probe now) b"
| pass: "cstate b \<noteq> OPEN \<Longrightarrow> cb_step b (Probe now) b"
| recover: "cb_step b Success (b\<lparr>cstate := CLOSED, failure_count := 0\<rparr>)"
| trip: "failure_count b + 1 \<ge> threshold b \<Longrightarrow>
     cb_step b (Failure now)
       (b\<lparr>failure_count := failure_count b + 1, last_failure_time := now, cstate := OPEN\<rparr>)"
| tolerate: "failure_count b + 1 < threshold b \<Longrightarrow>
     cb_step b (Failure now) (b\<lparr>failure_count := failure_count b + 1, last_failure_time := now\<rparr>)"

inductive_cases cb_step_probeE: "cb_step b (Probe now) b'"
inductive_cases cb_step_failureE: "cb_step b (Failure now) b'"
inductive_simps cb_step_success_iff: "cb_step b Success b'"

lemma cb_step_apply: "cb_step b e b' \<longleftrightarrow> b' = cb_apply e b"
proof
  assume "cb_step b e b'"
  then show "b' = cb_apply e b"
    by cases (auto simp: is_open_def cb_record_success_def cb_record_failure_def Let_def)
next
  assume b': "b' = cb_apply e b"
  show "cb_step b e b'"
  proof (cases e)
    case (Probe now)
    with b' show ?thesis
      using cooldown [of b now] blocked [of b now] pass [of b now]
      by (cases "cb_timeout b \<le> now - last_failure_time b") (auto simp: is_open_def)
  next
    case Success
    with b' show ?thesis by (auto simp: cb_record_success_def intro: cb_step.intros)
  next
    case (Failure now)
    with b' show ?thesis
      using trip [of b now] tolerate [of b now] by (auto simp: cb_record_failure_def Let_def)
  qed
qed

section \<open>Invariant\<close>

text \<open>
  The breaker is closed exactly while the failures counted since the last success stay below the
  threshold.
\<close>

definition cb_inv :: "breaker \<Rightarrow> bool" where
  "cb_inv b \<longleftrightarrow> 0 \<le> failure_count b \<and> (cstate b = CLOSED \<longleftrightarrow> failure_count b < threshold b)"

lemma cb_inv_new [inv_intros]: "0 < thr \<Longrightarrow> cb_inv (new_breaker thr tmo url)"
  by (simp add: cb_inv_def new_breaker_def)

lemma cb_inv_is_open [inv_intros]: "cb_inv b \<Longrightarrow> cb_inv (snd (is_open now b))"
  by (auto simp: cb_inv_def is_open_def)

lemma threshold_apply [simp]: "threshold (cb_apply e b) = threshold b"
  by (cases e) (auto simp: is_open_def cb_record_success_def cb_record_failure_def Let_def)

lemma cb_timeout_apply [simp]: "cb_timeout (cb_apply e b) = cb_timeout b"
  by (cases e) (auto simp: is_open_def cb_record_success_def cb_record_failure_def Let_def)

lemma worker_url_apply [simp]: "worker_url (cb_apply e b) = worker_url b"
  by (cases e) (auto simp: is_open_def cb_record_success_def cb_record_failure_def Let_def)

lemma cb_inv_apply [inv_intros]: "0 < threshold b \<Longrightarrow> cb_inv b \<Longrightarrow> cb_inv (cb_apply e b)"
  by (cases e) (auto simp: cb_inv_def is_open_def cb_record_success_def cb_record_failure_def Let_def)

lemma cb_inv_run [inv_intros]: "0 < threshold b \<Longrightarrow> cb_inv b \<Longrightarrow> cb_inv (cb_run es b)"
  by (induction es arbitrary: b) (simp_all add: cb_inv_apply)

lemma threshold_run [simp]: "threshold (cb_run es b) = threshold b"
  by (induction es arbitrary: b) auto

text \<open>The number of failures reported since the last success of a history.\<close>

fun trailing_failures :: "cb_event list \<Rightarrow> int \<Rightarrow> int" where
  "trailing_failures [] n = n"
| "trailing_failures (Probe _ # es) n = trailing_failures es n"
| "trailing_failures (Success # es) n = trailing_failures es 0"
| "trailing_failures (Failure _ # es) n = trailing_failures es (n + 1)"

lemma failure_count_run: "failure_count (cb_run es b) = trailing_failures es (failure_count b)"
proof (induction es arbitrary: b)
  case (Cons e es)
  then show ?case
    by (cases e) (auto simp: is_open_def cb_record_success_def cb_record_failure_def Let_def)
qed simp

section \<open>Properties\<close>

text \<open>
  Whatever sequence of probes, successes and failures a fresh breaker sees, it is closed
  exactly when fewer failures than the threshold were reported since the last success.
\<close>

theorem breaker_closed_iff:
  assumes "0 < thr"
  shows "cstate (cb_run es (new_breaker thr tmo url)) = CLOSED
           \<longleftrightarrow> trailing_failures es 0 < thr"
proof -
  let ?b = "new_breaker thr tmo url"
  have "cb_inv (cb_run es ?b)"
    using assms by (intro inv_intros) (simp_all add: new_breaker_def)
  then show ?thesis
    using failure_count_run [of es ?b] by (simp add: cb_inv_def new_breaker_def)
qed

theorem breaker_closed_iff_witness:
  "cstate (cb_run [Failure 1, Failure 2] (new_breaker 2 30 ''w'')) \<noteq> CLOSED"
  using breaker_closed_iff [of 2 "[Failure 1, Failure 2]" 30 "''w''"] by simp



text \<open>
  In every state a breaker can reach, one failure while it is half-open opens it again, and
  one success closes it with a clean count.
\<close>

theorem half_open_decides:
  assumes "0 < thr" and "b = cb_run es (new_breaker thr tmo url)" and "cstate b = HALF_OPEN"
  shows "cstate (cb_record_failure now b) = OPEN \<and> cstate (cb_record_success b) = CLOSED
         \<and> failure_count (cb_record_success b) = 0"
proof -
  have "cb_inv b"
    unfolding assms(2) using assms(1) by (intro inv_intros) (simp_all add: new_breaker_def)
  with assms(3) show ?thesis
    by (auto simp: cb_inv_def cb_record_failure_def cb_record_success_def Let_def)
qed

theorem half_open_decides_witness:
  "cstate (cb_record_failure 50 (cb_run [Failure 1, Probe 40] (new_breaker 1 30 ''w''))) = OPEN"
proof -
  have h: "cstate (cb_run [Failure 1, Probe 40] (new_breaker 1 30 ''w'')) = HALF_OPEN"
    by (simp add: new_breaker_def cb_record_failure_def is_open_def)
  show ?thesis
    using half_open_decides [of 1 _ "[Failure 1, Probe 40]" 30 "''w''" 50, OF _ refl h] by simp
qed

text \<open>
  A half-open breaker lets through every probe, however many arrive before the first of them
  reports back: the half-open state does not admit a single trial request.
\<close>

theorem half_open_admits_all:
  assumes "cstate b = HALF_OPEN"
  shows "\<not> fst (is_open now (cb_run (map Probe ts) b)) \<and> cb_run (map Probe ts) b = b"
proof -
  have "cb_run (map Probe ts) b = b"
    using assms by (induction ts) (simp_all add: is_open_def)
  with assms show ?thesis by (simp add: is_open_def)
qed

theorem half_open_admits_all_witness:
  "\<not> fst (is_open 9 (cb_run [Probe 7, Probe 8] ((new_breaker 1 3 ''w'')\<lparr>cstate := HALF_OPEN\<rparr>)))"
proof -
  have "cstate ((new_breaker 1 3 ''w'')\<lparr>cstate := HALF_OPEN\<rparr>) = HALF_OPEN" by simp
  from half_open_admits_all [OF this, of 9 "[7, 8]", THEN conjunct1, unfolded list.map]
  show ?thesis .
qed

end
