(* ===== verification/LoadBalancer.thy ===== *)
theory LoadBalancer
  imports OllamaClient CircuitBreaker
begin

text \<open>
  \<^verbatim>\<open>router/load_balancer.py\<close>: the registered clients, one breaker per URL, the round-robin
  index. Listing the available workers asks every healthy worker's breaker whether it is open,
  which may turn breakers half-open: the listing returns the new breakers. Each listing reads the
  clock at one instant; \<open>pick_worker\<close> may list twice and takes an instant for each.
\<close>

section \<open>State\<close>

record balancer =
  workers :: "client list"
  breakers :: "string \<rightharpoonup> breaker"
  rr_index :: nat
  next_cid :: nat
  capacity_rejections :: nat

text \<open>The settings the balancer reads (\<^verbatim>\<open>config/settings.py\<close>).\<close>

record lb_config =
  strategy :: string
  request_timeout :: int
  worker_max_context :: int
  cb_threshold :: int
  cb_cooldown :: real

definition make_client :: "lb_config \<Rightarrow> nat \<Rightarrow> string \<Rightarrow> client" where
  "make_client cfg i u = new_client i u (request_timeout cfg) None (worker_max_context cfg)"

definition make_breaker :: "lb_config \<Rightarrow> string \<Rightarrow> breaker" where
  "make_breaker cfg u = new_breaker (cb_threshold cfg) (cb_cooldown cfg) u"

definition new_balancer :: "lb_config \<Rightarrow> string list \<Rightarrow> balancer" where
  "new_balancer cfg urls =
     \<lparr>workers = map (\<lambda>(i, u). make_client cfg i u) (enumerate 0 urls),
      breakers = (\<lambda>u. if u \<in> set urls then Some (make_breaker cfg u) else None),
      rr_index = 0, next_cid = length urls, capacity_rejections = 0\<rparr>"

section \<open>Listing the available workers\<close>

text \<open>
  The comprehension of \<open>_available_workers\<close>: an unhealthy worker's breaker is not consulted, a
  missing breaker is a \<open>KeyError\<close>.
\<close>

fun healthy_workers ::
  "real \<Rightarrow> client list \<Rightarrow> (string \<rightharpoonup> breaker) \<Rightarrow> client list result \<times> (string \<rightharpoonup> breaker)" where
  "healthy_workers now [] bs = (Inr [], bs)"
| "healthy_workers now (w # ws) bs =
     (if is_healthy (stats w) then
        (case bs (curl w) of
           None \<Rightarrow> (Inl (KeyError (curl w)), bs)
         | Some b \<Rightarrow>
             (let (op, b') = is_open now b
              in case healthy_workers now ws (bs(curl w \<mapsto> b')) of
                   (Inl e, bs') \<Rightarrow> (Inl e, bs')
                 | (Inr r, bs') \<Rightarrow> (Inr (if op then r else w # r), bs')))
      else healthy_workers now ws bs)"

definition available_workers ::
  "real \<Rightarrow> int option \<Rightarrow> balancer \<Rightarrow> client list result \<times> balancer" where
  "available_workers now ctx lb =
     (case healthy_workers now (workers lb) (breakers lb) of
        (Inl e, bs) \<Rightarrow> (Inl e, lb\<lparr>breakers := bs\<rparr>)
      | (Inr healthy, bs) \<Rightarrow>
          (Inr (case ctx of None \<Rightarrow> healthy
                | Some n \<Rightarrow> filter (\<lambda>w. max_context_tokens w \<ge> n) healthy),
           lb\<lparr>breakers := bs\<rparr>))"

section \<open>pick\_worker\<close>

text \<open>The dash of the first message is U+2014 in the source.\<close>

definition no_workers :: py_exc where
  "no_workers = RuntimeError ''No available workers - all are unhealthy or circuit open''"

definition no_capacity :: "int \<Rightarrow> py_exc" where
  "no_capacity n = NoCapacityError (''No available workers can handle '' @ show_int n
     @ '' tokens of context (max capacity across healthy workers is lower)'')"

text \<open>The strategy's choice among the available workers (never empty here).\<close>

definition choose_worker :: "string \<Rightarrow> nat \<Rightarrow> client list \<Rightarrow> client \<times> nat" where
  "choose_worker strat rr ws =
     (if strat = ''round_robin'' then (ws ! (rr mod length ws), rr + 1)
      else if strat = ''least_latency'' then
        (case py_min_by (\<lambda>w. avg_latency (stats w)) ws of Some w \<Rightarrow> (w, rr) | None \<Rightarrow> (hd ws, rr))
      else if strat = ''queue_depth'' then
        (case py_min_by (\<lambda>w. active_requests (stats w)) ws of Some w \<Rightarrow> (w, rr) | None \<Rightarrow> (hd ws, rr))
      else (hd ws, rr))"

definition pick_worker ::
  "string \<Rightarrow> real \<Rightarrow> real \<Rightarrow> int option \<Rightarrow> balancer \<Rightarrow> client result \<times> balancer" where
  "pick_worker strat now1 now2 ctx lb =
     (case available_workers now1 ctx lb of
        (Inl e, lb1) \<Rightarrow> (Inl e, lb1)
      | (Inr avail, lb1) \<Rightarrow>
          if avail = [] then
            (case ctx of
               None \<Rightarrow> (Inl no_workers, lb1)
             | Some n \<Rightarrow>
                 (case available_workers now2 None lb1 of
                    (Inl e, lb2) \<Rightarrow> (Inl e, lb2)
                  | (Inr any, lb2) \<Rightarrow>
                      if any \<noteq> [] then
                        (Inl (no_capacity n), lb2\<lparr>capacity_rejections := capacity_rejections lb2 + 1\<rparr>)
                      else (Inl no_workers, lb2)))
          else
            (let (w, rr) = choose_worker strat (rr_index lb1) avail in (Inr w, lb1\<lparr>rr_index := rr\<rparr>)))"

section \<open>Registration and outcomes\<close>

definition has_worker :: "string \<Rightarrow> balancer \<Rightarrow> bool" where
  "has_worker u lb = list_ex (\<lambda>w. curl w = u) (workers lb)"

definition add_worker :: "lb_config \<Rightarrow> string \<Rightarrow> balancer \<Rightarrow> bool \<times> balancer" where
  "add_worker cfg u lb =
     (if has_worker u lb then (False, lb)
      else (True, lb\<lparr>workers := workers lb @ [make_client cfg (next_cid lb) u],
                     breakers := (breakers lb)(u \<mapsto> make_breaker cfg u),
                     next_cid := next_cid lb + 1\<rparr>))"

definition remove_worker :: "string \<Rightarrow> balancer \<Rightarrow> bool \<times> balancer" where
  "remove_worker u lb =
     (let ws = filter (\<lambda>w. curl w \<noteq> u) (workers lb)
      in (length ws < length (workers lb),
          lb\<lparr>workers := ws, breakers := (breakers lb)(u := None)\<rparr>))"

definition on_breaker :: "(breaker \<Rightarrow> breaker) \<Rightarrow> string \<Rightarrow> balancer \<Rightarrow> unit result \<times> balancer" where
  "on_breaker f u lb =
     (case breakers lb u of
        None \<Rightarrow> (Inl (KeyError u), lb)
      | Some b \<Rightarrow> (Inr (), lb\<lparr>breakers := (breakers lb)(u \<mapsto> f b)\<rparr>))"

definition record_success :: "string \<Rightarrow> balancer \<Rightarrow> unit result \<times> balancer" where
  "record_success u lb = on_breaker cb_record_success u lb"

definition record_failure :: "real \<Rightarrow> string \<Rightarrow> balancer \<Rightarrow> unit result \<times> balancer" where
  "record_failure now u lb = on_breaker (cb_record_failure now) u lb"

text \<open>
  Writes to one client object; a client that was removed from \<open>workers\<close> is no longer reachable
  from the balancer. \<open>health_check_all\<close> gathers one probe per registered client; the outcome of
  each probe is an argument.
\<close>

definition update_client :: "nat \<Rightarrow> (client \<Rightarrow> client) \<Rightarrow> balancer \<Rightarrow> balancer" where
  "update_client i f lb = lb\<lparr>workers := map (\<lambda>w. if cid w = i then f w else w) (workers lb)\<rparr>"

definition health_check_all :: "(nat \<Rightarrow> probe_outcome) \<Rightarrow> balancer \<Rightarrow> balancer" where
  "health_check_all probe lb =
     lb\<lparr>workers := map (\<lambda>w. snd (health_check (probe (cid w)) w)) (workers lb)\<rparr>"

section \<open>get\_worker\_stats\<close>

record stats_row =
  row_url :: string
  row_healthy :: bool
  row_active :: int
  row_total :: int
  row_latency_ms :: json
  row_failures :: int
  row_circuit :: string

definition stats_row_of :: "client \<Rightarrow> breaker \<Rightarrow> stats_row" where
  "stats_row_of w b =
     \<lparr>row_url = curl w, row_healthy = is_healthy (stats w),
      row_active = active_requests (stats w), row_total = total_requests (stats w),
      row_latency_ms = latency_ms (avg_latency (stats w)),
      row_failures = failures (stats w), row_circuit = status b\<rparr>"

fun stats_rows :: "client list \<Rightarrow> (string \<rightharpoonup> breaker) \<Rightarrow> stats_row list result" where
  "stats_rows [] bs = Inr []"
| "stats_rows (w # ws) bs =
     (case bs (curl w) of
        None \<Rightarrow> Inl (KeyError (curl w))
      | Some b \<Rightarrow> (case stats_rows ws bs of Inl e \<Rightarrow> Inl e | Inr rs \<Rightarrow> Inr (stats_row_of w b # rs)))"

definition get_worker_stats :: "balancer \<Rightarrow> stats_row list result" where
  "get_worker_stats lb = stats_rows (workers lb) (breakers lb)"

section \<open>Invariant\<close>

text \<open>
  Breakers and clients stay in step, every breaker satisfies its own invariant, and object
  identities are never reused.
\<close>

definition lb_inv :: "balancer \<Rightarrow> bool" where
  "lb_inv lb \<longleftrightarrow>
     dom (breakers lb) = curl ` set (workers lb)
     \<and> distinct (map cid (workers lb))
     \<and> (\<forall>w \<in> set (workers lb). cid w < next_cid lb)
     \<and> (\<forall>b \<in> ran (breakers lb). 0 < threshold b \<and> cb_inv b)"

lemma lb_inv_dom: "lb_inv lb \<Longrightarrow> w \<in> set (workers lb) \<Longrightarrow> \<exists>b. breakers lb (curl w) = Some b"
  by (auto simp: lb_inv_def dom_def set_eq_iff)

lemma make_client_sel [simp]:
  "cid (make_client cfg i u) = i" "curl (make_client cfg i u) = u"
  by (simp_all add: make_client_def)

lemma make_breaker_ok: "0 < cb_threshold cfg \<Longrightarrow> 0 < threshold (make_breaker cfg u) \<and> cb_inv (make_breaker cfg u)"
  using cb_inv_new by (simp add: make_breaker_def) (simp add: new_breaker_def)

lemma map_cid_new: "map cid (map (\<lambda>(i, u). make_client cfg i u) (enumerate n us)) = [n..<n + length us]"
proof -
  have "map cid (map (\<lambda>(i, u). make_client cfg i u) (enumerate n us)) = map fst (enumerate n us)"
    by (simp add: case_prod_beta comp_def)
  then show ?thesis by simp
qed

lemma curl_new: "curl ` set (map (\<lambda>(i, u). make_client cfg i u) (enumerate n us)) = set us"
proof -
  have "map curl (map (\<lambda>(i, u). make_client cfg i u) (enumerate n us)) = map snd (enumerate n us)"
    by (simp add: case_prod_beta comp_def)
  then have "set (map curl (map (\<lambda>(i, u). make_client cfg i u) (enumerate n us))) = set us"
    by (simp only: map_snd_enumerate)
  then show ?thesis by (simp only: set_map)
qed

lemma lb_inv_new [inv_intros]:
  assumes "0 < cb_threshold cfg"
  shows "lb_inv (new_balancer cfg urls)"
proof -
  let ?ws = "map (\<lambda>(i, u). make_client cfg i u) (enumerate 0 urls)"
  have "\<forall>w \<in> set ?ws. cid w < length urls"
    using map_cid_new [of cfg 0 urls] by (metis add_0 atLeastLessThan_iff image_eqI list.set_map set_upt)
  then show ?thesis
    unfolding lb_inv_def new_balancer_def
    using map_cid_new [of cfg 0 urls] curl_new [of cfg 0 urls] make_breaker_ok [OF assms]
    by (auto simp: dom_def ran_def split: if_splits)
qed

lemma lb_inv_add [inv_intros]:
  "0 < cb_threshold cfg \<Longrightarrow> lb_inv lb \<Longrightarrow> lb_inv (snd (add_worker cfg u lb))"
  using make_breaker_ok [of cfg u]
  by (auto simp: lb_inv_def add_worker_def ran_def less_Suc_eq split: if_splits)

lemma lb_inv_remove [inv_intros]: "lb_inv lb \<Longrightarrow> lb_inv (snd (remove_worker u lb))"
  by (auto simp: lb_inv_def remove_worker_def Let_def ran_def distinct_map inj_on_def split: if_splits)

lemma lb_inv_on_breaker:
  "(\<And>b. 0 < threshold b \<Longrightarrow> cb_inv b \<Longrightarrow> 0 < threshold (f b) \<and> cb_inv (f b)) \<Longrightarrow>
   lb_inv lb \<Longrightarrow> lb_inv (snd (on_breaker f u lb))"
  by (auto simp: lb_inv_def on_breaker_def ran_def split: option.splits if_splits)

lemma lb_inv_record_success [inv_intros]: "lb_inv lb \<Longrightarrow> lb_inv (snd (record_success u lb))"
  unfolding record_success_def
  by (rule lb_inv_on_breaker) (auto simp: cb_record_success_def cb_inv_def)

lemma lb_inv_record_failure [inv_intros]: "lb_inv lb \<Longrightarrow> lb_inv (snd (record_failure now u lb))"
  unfolding record_failure_def
  by (rule lb_inv_on_breaker) (auto simp: cb_record_failure_def cb_inv_def Let_def)

lemma lb_inv_map_workers:
  assumes "\<And>w. cid (g w) = cid w \<and> curl (g w) = curl w" and "lb_inv lb"
  shows "lb_inv (lb\<lparr>workers := map g (workers lb)\<rparr>)"
proof -
  have "distinct (map (cid \<circ> g) (workers lb))"
    using assms by (simp add: lb_inv_def comp_def)
  moreover have "curl ` g ` set (workers lb) = curl ` set (workers lb)"
    using assms(1) by (auto simp: image_image)
  ultimately show ?thesis using assms by (auto simp: lb_inv_def)
qed

lemma lb_inv_update_client [inv_intros]:
  "(\<And>w. cid (f w) = cid w \<and> curl (f w) = curl w) \<Longrightarrow> lb_inv lb \<Longrightarrow> lb_inv (update_client i f lb)"
  unfolding update_client_def by (rule lb_inv_map_workers) auto

lemma lb_inv_health [inv_intros]: "lb_inv lb \<Longrightarrow> lb_inv (health_check_all probe lb)"
  unfolding health_check_all_def by (rule lb_inv_map_workers) simp_all

section \<open>What a listing returns\<close>

text \<open>The specification of availability, without the side effect on the breakers.\<close>

definition blocked :: "real \<Rightarrow> (string \<rightharpoonup> breaker) \<Rightarrow> string \<Rightarrow> bool" where
  "blocked now bs u = (case bs u of None \<Rightarrow> True | Some b \<Rightarrow> fst (is_open now b))"

definition eligible :: "real \<Rightarrow> int option \<Rightarrow> balancer \<Rightarrow> client \<Rightarrow> bool" where
  "eligible now ctx lb w \<longleftrightarrow>
     is_healthy (stats w) \<and> \<not> blocked now (breakers lb) (curl w)
     \<and> (case ctx of None \<Rightarrow> True | Some n \<Rightarrow> max_context_tokens w \<ge> n)"

definition eligible_workers :: "real \<Rightarrow> int option \<Rightarrow> balancer \<Rightarrow> client list" where
  "eligible_workers now ctx lb = filter (eligible now ctx lb) (workers lb)"

lemma is_open_idem: "is_open now (snd (is_open now b)) = is_open now b"
  by (auto simp: is_open_def)

lemma is_open_later:
  "fst (is_open now2 (snd (is_open now1 b))) \<longleftrightarrow> fst (is_open now1 b) \<and> fst (is_open now2 b)"
  by (auto simp: is_open_def)

text \<open>The breakers after a listing: those of the healthy workers have been asked.\<close>

definition asked :: "real \<Rightarrow> client list \<Rightarrow> (string \<rightharpoonup> breaker) \<Rightarrow> (string \<rightharpoonup> breaker)" where
  "asked now ws bs =
     (\<lambda>u. if \<exists>w \<in> set ws. is_healthy (stats w) \<and> curl w = u
          then map_option (\<lambda>b. snd (is_open now b)) (bs u) else bs u)"

lemma blocked_update: "bs u = Some b \<Longrightarrow> blocked now (bs(u \<mapsto> snd (is_open now b))) v = blocked now bs v"
  by (auto simp: blocked_def is_open_idem)

lemma asked_update:
  "bs (curl w) = Some b \<Longrightarrow> is_healthy (stats w) \<Longrightarrow>
   asked now ws (bs(curl w \<mapsto> snd (is_open now b))) = asked now (w # ws) bs"
  by (rule ext) (auto simp: asked_def is_open_idem)

lemma healthy_workers_eq:
  assumes "\<And>w. w \<in> set ws \<Longrightarrow> \<exists>b. bs (curl w) = Some b"
  shows "healthy_workers now ws bs =
     (Inr (filter (\<lambda>w. is_healthy (stats w) \<and> \<not> blocked now bs (curl w)) ws), asked now ws bs)"
  using assms
proof (induction ws arbitrary: bs)
  case Nil
  then show ?case by (simp add: asked_def)
next
  case (Cons w ws)
  obtain b where b: "bs (curl w) = Some b" using Cons.prems [of w] by auto
  show ?case
  proof (cases "is_healthy (stats w)")
    case False
    with Cons show ?thesis by (auto simp: asked_def fun_eq_iff)
  next
    case True
    let ?bs = "bs(curl w \<mapsto> snd (is_open now b))"
    have "healthy_workers now ws ?bs =
       (Inr (filter (\<lambda>w. is_healthy (stats w) \<and> \<not> blocked now ?bs (curl w)) ws), asked now ws ?bs)"
      using Cons.prems by (intro Cons.IH) auto
    then show ?thesis
      using True b by (auto simp: case_prod_beta blocked_update asked_update) (auto simp: blocked_def)
  qed
qed

lemma available_workers_eq:
  assumes "lb_inv lb"
  shows "available_workers now ctx lb =
     (Inr (eligible_workers now ctx lb), lb\<lparr>breakers := asked now (workers lb) (breakers lb)\<rparr>)"
  unfolding available_workers_def
  using healthy_workers_eq [of "workers lb" "breakers lb" now] lb_inv_dom [OF assms]
  by (auto simp: eligible_workers_def eligible_def conj_ac intro!: filter_cong split: option.split)

lemma lb_inv_asked [inv_intros]:
  "lb_inv lb \<Longrightarrow> lb_inv (lb\<lparr>breakers := asked now (workers lb) (breakers lb)\<rparr>)"
proof -
  assume inv: "lb_inv lb"
  have "dom (asked now (workers lb) (breakers lb)) = dom (breakers lb)"
    by (auto simp: asked_def dom_def split: if_splits)
  moreover have "0 < threshold b \<and> cb_inv b" if b: "b \<in> ran (asked now (workers lb) (breakers lb))" for b
  proof -
    from b obtain b0 where "b0 \<in> ran (breakers lb)" "b = b0 \<or> b = snd (is_open now b0)"
      by (auto simp: asked_def ran_def split: if_splits)
    then show ?thesis
      using inv cb_inv_is_open [of b0 now] threshold_apply [of "Probe now" b0] by (auto simp: lb_inv_def)
  qed
  ultimately show ?thesis using inv by (simp add: lb_inv_def)
qed

lemma eligible_later:
  assumes "lb_inv lb" "w \<in> set (workers lb)"
  shows "eligible now2 None (lb\<lparr>breakers := asked now1 (workers lb) (breakers lb)\<rparr>) w
     \<longleftrightarrow> eligible now1 None lb w \<or> eligible now2 None lb w"
proof -
  obtain b where "breakers lb (curl w) = Some b" using lb_inv_dom [OF assms] by blast
  then show ?thesis
    using assms(2) by (auto simp: eligible_def blocked_def asked_def is_open_later)
qed

lemma lb_inv_pick [inv_intros]: "lb_inv lb \<Longrightarrow> lb_inv (snd (pick_worker strat now1 now2 ctx lb))"
proof -
  assume inv: "lb_inv lb"
  let ?lb1 = "lb\<lparr>breakers := asked now1 (workers lb) (breakers lb)\<rparr>"
  have inv1: "lb_inv ?lb1" by (rule lb_inv_asked [OF inv])
  have inv2: "lb_inv (?lb1\<lparr>breakers := asked now2 (workers ?lb1) (breakers ?lb1)\<rparr>)"
    by (rule lb_inv_asked [OF inv1])
  have mono: "lb_inv x \<Longrightarrow> lb_inv (x\<lparr>rr_index := r\<rparr>) \<and> lb_inv (x\<lparr>capacity_rejections := c\<rparr>)" for x r c
    by (simp add: lb_inv_def)
  show ?thesis
    using inv1 inv2 mono
    by (simp add: pick_worker_def available_workers_eq [OF inv] available_workers_eq [OF inv1]
        case_prod_beta split: option.split)
qed

section \<open>What a pick returns\<close>

definition after_listing :: "real \<Rightarrow> balancer \<Rightarrow> balancer" where
  "after_listing now lb = lb\<lparr>breakers := asked now (workers lb) (breakers lb)\<rparr>"

lemma after_listing_sel [simp]:
  "workers (after_listing now lb) = workers lb" "rr_index (after_listing now lb) = rr_index lb"
  "capacity_rejections (after_listing now lb) = capacity_rejections lb"
  "next_cid (after_listing now lb) = next_cid lb"
  by (simp_all add: after_listing_def)

lemma pick_worker_eq:
  assumes "lb_inv lb"
  shows "pick_worker strat now1 now2 ctx lb =
    (let lb1 = after_listing now1 lb; lb2 = after_listing now2 lb1
     in if eligible_workers now1 ctx lb \<noteq> [] then
          (let (w, rr) = choose_worker strat (rr_index lb) (eligible_workers now1 ctx lb)
           in (Inr w, lb1\<lparr>rr_index := rr\<rparr>))
        else case ctx of None \<Rightarrow> (Inl no_workers, lb1)
          | Some n \<Rightarrow>
              if eligible_workers now2 None lb1 \<noteq> []
              then (Inl (no_capacity n), lb2\<lparr>capacity_rejections := capacity_rejections lb2 + 1\<rparr>)
              else (Inl no_workers, lb2))"
proof -
  have inv1: "lb_inv (after_listing now1 lb)"
    unfolding after_listing_def by (rule lb_inv_asked [OF assms])
  note eq1 = available_workers_eq [OF assms, of now1 ctx, folded after_listing_def]
  note eq2 = available_workers_eq [OF inv1, of now2 None, folded after_listing_def]
  show ?thesis
    by (simp add: pick_worker_def eq1 eq2 Let_def split: option.split)
qed

lemma eligible_workers_later:
  assumes "lb_inv lb"
  shows "eligible_workers now2 None (after_listing now1 lb) \<noteq> []
    \<longleftrightarrow> (\<exists>w \<in> set (workers lb). eligible now1 None lb w \<or> eligible now2 None lb w)"
  using eligible_later [OF assms, of _ now2 now1]
  by (auto simp: eligible_workers_def after_listing_def filter_empty_conv)

lemma choose_worker_in: "ws \<noteq> [] \<Longrightarrow> fst (choose_worker strat rr ws) \<in> set ws"
  by (auto simp: choose_worker_def dest: py_min_by_in split: option.split)

lemma pick_worker_Inr:
  assumes "lb_inv lb" "pick_worker strat now1 now2 ctx lb = (Inr w, lb')"
  shows "w \<in> set (eligible_workers now1 ctx lb)"
    and "workers lb' = workers lb" and "lb_inv lb'"
proof -
  show "w \<in> set (eligible_workers now1 ctx lb)"
    using assms choose_worker_in [of "eligible_workers now1 ctx lb" strat "rr_index lb"]
    by (auto simp: pick_worker_eq Let_def case_prod_beta split: if_splits option.splits)
  show "workers lb' = workers lb"
    using assms by (auto simp: pick_worker_eq Let_def case_prod_beta split: if_splits option.splits)
  show "lb_inv lb'"
    using lb_inv_pick [OF assms(1), of strat now1 now2 ctx] assms(2) by simp
qed

lemma pick_worker_Inl:
  "lb_inv lb \<Longrightarrow> pick_worker strat now1 now2 ctx lb = (Inl e, lb') \<Longrightarrow> is_runtime_error e"
  by (auto simp: pick_worker_eq Let_def case_prod_beta no_workers_def no_capacity_def
      split: if_splits option.splits)

lemma pick_worker_workers: "lb_inv lb \<Longrightarrow> workers (snd (pick_worker strat now1 now2 ctx lb)) = workers lb"
  by (auto simp: pick_worker_eq Let_def case_prod_beta split: option.split)

section \<open>Events and reachable balancers\<close>

text \<open>Every way the rest of the program changes a balancer, one atomic step each.\<close>

datatype lb_event =
    Pick string real real "int option"
  | Add lb_config string
  | Remove string
  | Succeed string
  | Fail real string
  | BeginCall nat
  | FinishGenerate nat "json \<Rightarrow> py_exc option" real http_outcome
  | FinishChat nat "json \<Rightarrow> py_exc option" real http_outcome
  | HealthChecks "nat \<Rightarrow> probe_outcome"

fun lb_apply :: "lb_event \<Rightarrow> balancer \<Rightarrow> balancer" where
  "lb_apply (Pick s t1 t2 ctx) lb = snd (pick_worker s t1 t2 ctx lb)"
| "lb_apply (Add cfg u) lb = snd (add_worker cfg u lb)"
| "lb_apply (Remove u) lb = snd (remove_worker u lb)"
| "lb_apply (Succeed u) lb = snd (record_success u lb)"
| "lb_apply (Fail t u) lb = snd (record_failure t u lb)"
| "lb_apply (BeginCall i) lb = update_client i begin_call lb"
| "lb_apply (FinishGenerate i inc l o') lb = update_client i (\<lambda>w. snd (finish_generate inc l o' w)) lb"
| "lb_apply (FinishChat i inc l o') lb = update_client i (\<lambda>w. snd (finish_chat inc l o' w)) lb"
| "lb_apply (HealthChecks probe) lb = health_check_all probe lb"

fun event_ok :: "lb_event \<Rightarrow> bool" where
  "event_ok (Add cfg u) = (0 < cb_threshold cfg)"
| "event_ok _ = True"

inductive lb_reachable :: "balancer \<Rightarrow> bool" where
  start: "0 < cb_threshold cfg \<Longrightarrow> lb_reachable (new_balancer cfg urls)"
| step: "lb_reachable lb \<Longrightarrow> event_ok e \<Longrightarrow> lb_reachable (lb_apply e lb)"

lemma lb_inv_apply [inv_intros]: "event_ok e \<Longrightarrow> lb_inv lb \<Longrightarrow> lb_inv (lb_apply e lb)"
  by (cases e) (auto simp: finish_generate_def finish_chat_def intro: inv_intros)

lemma lb_reachable_inv: "lb_reachable lb \<Longrightarrow> lb_inv lb"
  by (induction rule: lb_reachable.induct) (auto intro: inv_intros)

lemma stats_rows_total:
  "(\<And>w. w \<in> set ws \<Longrightarrow> \<exists>b. bs (curl w) = Some b) \<Longrightarrow>
   \<exists>rs. stats_rows ws bs = Inr rs \<and> map row_url rs = map curl ws"
proof (induction ws)
  case (Cons w ws)
  obtain b where "bs (curl w) = Some b" using Cons.prems [of w] by auto
  moreover obtain rs where "stats_rows ws bs = Inr rs" "map row_url rs = map curl ws"
    using Cons by auto
  ultimately show ?case by (simp add: stats_row_of_def)
qed simp

section \<open>Round robin\<close>

text \<open>Consecutive picks with nothing in between.\<close>

fun pick_many :: "nat \<Rightarrow> string \<Rightarrow> real \<Rightarrow> int option \<Rightarrow> balancer \<Rightarrow> client result list \<times> balancer" where
  "pick_many 0 strat now ctx lb = ([], lb)"
| "pick_many (Suc n) strat now ctx lb =
     (let (r, lb') = pick_worker strat now now ctx lb; (rs, lb'') = pick_many n strat now ctx lb'
      in (r # rs, lb''))"

lemma blocked_asked: "blocked now (asked now ws bs) u = blocked now bs u"
  by (auto simp: blocked_def asked_def is_open_idem split: option.splits)

lemma eligible_stable: "eligible now ctx (after_listing now lb\<lparr>rr_index := r\<rparr>) w = eligible now ctx lb w"
  by (simp add: eligible_def after_listing_def blocked_asked)

lemma eligible_workers_stable:
  "eligible_workers now ctx (after_listing now lb\<lparr>rr_index := r\<rparr>) = eligible_workers now ctx lb"
proof -
  have "eligible now ctx (after_listing now lb\<lparr>rr_index := r\<rparr>) = eligible now ctx lb"
    by (rule ext) (rule eligible_stable)
  then show ?thesis by (simp add: eligible_workers_def)
qed

lemma pick_many_round_robin:
  assumes "lb_inv lb" "eligible_workers now ctx lb \<noteq> []"
  shows "fst (pick_many n ''round_robin'' now ctx lb) =
    map (\<lambda>i. Inr (eligible_workers now ctx lb ! ((rr_index lb + i) mod length (eligible_workers now ctx lb))))
      [0..<n]"
  using assms
proof (induction n arbitrary: lb)
  case (Suc n)
  let ?e = "eligible_workers now ctx lb"
  let ?lb' = "after_listing now lb\<lparr>rr_index := rr_index lb + 1\<rparr>"
  have p: "pick_worker ''round_robin'' now now ctx lb = (Inr (?e ! (rr_index lb mod length ?e)), ?lb')"
    using Suc.prems by (simp add: pick_worker_eq choose_worker_def Let_def)
  have e': "eligible_workers now ctx ?lb' = ?e" by (rule eligible_workers_stable)
  have "lb_inv ?lb'"
    using lb_inv_pick [OF Suc.prems(1), of "''round_robin''" now now ctx] p by simp
  with Suc.IH [of ?lb'] e' Suc.prems(2)
  have "fst (pick_many n ''round_robin'' now ctx ?lb') =
    map (\<lambda>i. Inr (?e ! ((rr_index lb + 1 + i) mod length ?e))) [0..<n]"
    by simp
  then show ?case
    by (simp add: p case_prod_beta upt_conv_Cons map_Suc_upt [symmetric] comp_def del: upt_Suc)
qed simp

lemma map_nth_mod_rotate:
  "xs \<noteq> [] \<Longrightarrow> map (\<lambda>i. xs ! ((r + i) mod length xs)) [0..<length xs] = rotate r xs"
  by (rule nth_equalityI) (auto simp: nth_rotate)

lemma count_round_robin:
  assumes "distinct xs" "x \<in> set xs"
  shows "count_list (map (\<lambda>i. xs ! ((r + i) mod length xs)) [0..<k * length xs]) x = k"
proof (induction k)
  case (Suc k)
  let ?n = "length xs" and ?f = "\<lambda>i. xs ! ((r + i) mod length xs)"
  have ne: "xs \<noteq> []" using assms(2) by auto
  have split: "[0..<Suc k * ?n] = [0..<k * ?n] @ map (\<lambda>i. i + k * ?n) [0..<?n]"
    using upt_add_eq_append [of 0 "k * ?n" ?n] map_add_upt [of "k * ?n" ?n] by (simp add: add.commute)
  have shift: "map ?f (map (\<lambda>i. i + k * ?n) [0..<?n]) = map ?f [0..<?n]"
    by (simp add: comp_def add.assoc [symmetric] mod_mult_self3)
  have "count_list (map ?f [0..<?n]) x = 1"
    using assms by (simp add: map_nth_mod_rotate [OF ne] count_list_distinct)
  then show ?case using Suc by (simp only: split map_append shift count_list_append)
qed simp

section \<open>The contract of a pool of URLs\<close>

text \<open>
  What the autoscaler relies on when it moves URLs between its standby list and the fleet: the fleet
  is a duplicate-free list that grows at its end and loses exactly the URL that is removed. \<open>pooled\<close>
  says that the fleet is the fixed URLs and then the dynamic ones, and that the dynamic and the
  standby URLs together are the pool.
\<close>

definition pooled :: "string list \<Rightarrow> string list \<Rightarrow> string list \<Rightarrow> string list \<Rightarrow> string list \<Rightarrow> bool" where
  "pooled fixed pool dyn rest us \<longleftrightarrow> us = fixed @ dyn \<and> mset dyn + mset rest = mset pool"

lemma pooled_distinct:
  assumes "pooled fixed pool dyn rest us" "distinct (fixed @ pool)"
  shows "distinct (fixed @ dyn @ rest)"
proof -
  have "mset (fixed @ dyn @ rest) = mset (fixed @ pool)" using assms(1) by (simp add: pooled_def)
  then show ?thesis using assms(2) by (metis mset_eq_imp_distinct_iff)
qed

lemma filter_notin: "y \<notin> set zs \<Longrightarrow> filter (\<lambda>v. v \<noteq> y) zs = zs"
  by (induction zs) auto

lemma filter_last_out: "xs \<noteq> [] \<Longrightarrow> distinct (ys @ xs) \<Longrightarrow> filter (\<lambda>v. v \<noteq> last xs) (ys @ xs) = ys @ butlast xs"
  by (cases xs rule: rev_cases) (auto simp: filter_notin)

locale url_pool =
  fixes add :: "string \<Rightarrow> 's \<Rightarrow> bool \<times> 's"
    and remove :: "string \<Rightarrow> 's \<Rightarrow> bool \<times> 's"
    and listing :: "'s \<Rightarrow> string list"
    and good :: "'s \<Rightarrow> bool"
  assumes add_new: "good s \<Longrightarrow> u \<notin> set (listing s) \<Longrightarrow> fst (add u s) \<and> listing (snd (add u s)) = listing s @ [u]"
    and add_present: "u \<in> set (listing s) \<Longrightarrow> add u s = (False, s)"
    and listing_removed: "listing (snd (remove u s)) = filter (\<lambda>v. v \<noteq> u) (listing s)"
    and good_add: "good s \<Longrightarrow> good (snd (add u s))"
    and good_remove: "good s \<Longrightarrow> good (snd (remove u s))"
begin

lemma taken:
  assumes "good s" "pooled fixed pool dyn (u # rest) (listing s)" "distinct (fixed @ pool)"
  shows "fst (add u s)" "listing (snd (add u s)) = listing s @ [u]"
    "pooled fixed pool (dyn @ [u]) rest (listing (snd (add u s)))"
proof -
  have "u \<notin> set (listing s)" using pooled_distinct [OF assms(2,3)] assms(2) by (auto simp: pooled_def)
  from add_new [OF assms(1) this] assms(2) show "fst (add u s)" "listing (snd (add u s)) = listing s @ [u]"
    "pooled fixed pool (dyn @ [u]) rest (listing (snd (add u s)))" by (simp_all add: pooled_def)
qed

lemma returned:
  assumes "pooled fixed pool dyn rest (listing s)" "distinct (fixed @ pool)" "dyn \<noteq> []"
  shows "listing (snd (remove (last dyn) s)) = fixed @ butlast dyn"
    "pooled fixed pool (butlast dyn) (last dyn # rest) (listing (snd (remove (last dyn) s)))"
proof -
  have "distinct (fixed @ dyn)" using pooled_distinct [OF assms(1,2)] by auto
  then show l: "listing (snd (remove (last dyn) s)) = fixed @ butlast dyn"
    using filter_last_out [OF assms(3)] assms(1) by (simp add: listing_removed pooled_def)
  have "mset dyn = mset (butlast dyn) + {#last dyn#}"
    using assms(3) by (metis append_butlast_last_id mset_append mset_single_iff_right)
  then show "pooled fixed pool (butlast dyn) (last dyn # rest) (listing (snd (remove (last dyn) s)))"
    using assms(1) by (simp add: pooled_def l)
qed

end

abbreviation fleet_urls :: "balancer \<Rightarrow> string list" where
  "fleet_urls lb \<equiv> map curl (workers lb)"

lemma add_worker_urls:
  "fleet_urls (snd (add_worker cfg u lb)) =
     (if u \<in> set (fleet_urls lb) then fleet_urls lb else fleet_urls lb @ [u])"
  "fst (add_worker cfg u lb) \<longleftrightarrow> u \<notin> set (fleet_urls lb)"
  by (auto simp: add_worker_def has_worker_def list_ex_iff)

lemma remove_worker_urls:
  "fleet_urls (snd (remove_worker u lb)) = filter (\<lambda>v. v \<noteq> u) (fleet_urls lb)"
  by (simp add: remove_worker_def Let_def filter_map comp_def)

interpretation fleet: url_pool "add_worker cfg" remove_worker fleet_urls
  "\<lambda>lb. 0 < cb_threshold cfg \<and> lb_inv lb" for cfg
proof unfold_locales
  show "add_worker cfg u s = (False, s)" if "u \<in> set (fleet_urls s)" for u s
    using that by (auto simp: add_worker_def has_worker_def list_ex_iff)
qed (auto simp: add_worker_urls remove_worker_urls simp del: set_map intro: inv_intros)

section \<open>Properties\<close>

text \<open>
  C5. A worker that \<open>pick_worker\<close> returns is registered, healthy, not blocked by its breaker and
  large enough for the request, whatever has happened to the balancer before.
\<close>

theorem pick_worker_sound:
  assumes "lb_reachable lb" and "pick_worker strat now1 now2 ctx lb = (Inr w, lb')"
  shows "w \<in> set (workers lb) \<and> is_healthy (stats w)
    \<and> (\<exists>b. breakers lb (curl w) = Some b \<and> \<not> fst (is_open now1 b))
    \<and> (\<forall>n. ctx = Some n \<longrightarrow> n \<le> max_context_tokens w)"
  using pick_worker_Inr(1) [OF lb_reachable_inv [OF assms(1)] assms(2)]
  by (auto simp: eligible_workers_def eligible_def blocked_def split: option.splits)

definition demo_config :: lb_config where
  "demo_config =
     \<lparr>strategy = ''round_robin'', request_timeout = 120, worker_max_context = 8192,
      cb_threshold = 5, cb_cooldown = 30\<rparr>"

lemma demo_reachable: "lb_reachable (new_balancer demo_config urls)"
  by (rule lb_reachable.start) (simp add: demo_config_def)

lemmas demo_simps = new_balancer_def demo_config_def make_client_def new_client_def new_stats_def
  make_breaker_def new_breaker_def enumerate_eq_zip

theorem pick_worker_sound_witness:
  "max_context_tokens (projr (fst (pick_worker ''round_robin'' 1 2 (Some 100)
     (new_balancer demo_config [''a'', ''b''])))) \<ge> 100"
proof -
  let ?lb = "new_balancer demo_config [''a'', ''b'']"
  obtain w lb' where p: "pick_worker ''round_robin'' 1 2 (Some 100) ?lb = (Inr w, lb')"
    by (simp add: demo_simps pick_worker_def available_workers_def is_open_def choose_worker_def)
  show ?thesis using pick_worker_sound [OF demo_reachable p] p by simp
qed

text \<open>
  A pick fails only for lack of an eligible worker, and the exception tells the two causes
  apart: \<open>NoCapacityError\<close> when some healthy, unblocked worker exists but none is large enough, the
  plain \<open>RuntimeError\<close> when there is none at all. Only the first one is counted.
\<close>

theorem pick_worker_failure:
  assumes "lb_reachable lb"
  shows "case pick_worker strat now1 now2 ctx lb of
      (Inr w, lb') \<Rightarrow> eligible now1 ctx lb w \<and> capacity_rejections lb' = capacity_rejections lb
    | (Inl e, lb') \<Rightarrow>
        (\<forall>w \<in> set (workers lb). \<not> eligible now1 ctx lb w)
        \<and> (if \<exists>w \<in> set (workers lb). ctx \<noteq> None \<and> (eligible now1 None lb w \<or> eligible now2 None lb w)
            then e = no_capacity (the ctx) \<and> capacity_rejections lb' = capacity_rejections lb + 1
            else e = no_workers \<and> capacity_rejections lb' = capacity_rejections lb)"
proof -
  note inv = lb_reachable_inv [OF assms(1)]
  let ?e = "eligible_workers now1 ctx lb"
  show ?thesis
  proof (cases "?e = []")
    case False
    have "eligible now1 ctx lb (fst (choose_worker strat (rr_index lb) ?e))"
      using choose_worker_in [OF False, of strat "rr_index lb"] by (simp add: eligible_workers_def)
    then show ?thesis
      by (simp add: pick_worker_eq [OF inv] Let_def case_prod_beta False)
  next
    case True
    then have none: "\<forall>w \<in> set (workers lb). \<not> eligible now1 ctx lb w"
      by (simp add: eligible_workers_def filter_empty_conv)
    show ?thesis
      using none eligible_workers_later [OF inv, of now2 now1] True
      by (auto simp: pick_worker_eq [OF inv] Let_def split: option.split)
  qed
qed

theorem pick_worker_failure_witness:
  "fst (pick_worker ''round_robin'' 1 2 (Some 9000) (new_balancer demo_config [''a''])) = Inl (no_capacity 9000)"
proof -
  let ?lb = "new_balancer demo_config [''a'']"
  have p: "\<exists>w \<in> set (workers ?lb). eligible 1 None ?lb w"
    by (simp add: demo_simps eligible_def blocked_def is_open_def)
  have q: "\<not> eligible 1 (Some 9000) ?lb w" if "w \<in> set (workers ?lb)" for w
    using that by (simp add: demo_simps eligible_def)
  obtain r lb' where r: "pick_worker ''round_robin'' 1 2 (Some 9000) ?lb = (r, lb')" by force
  show ?thesis
  proof (cases r)
    case (Inr w)
    then show ?thesis
      using r q pick_worker_Inr(1) [OF lb_reachable_inv [OF demo_reachable] r [unfolded Inr]]
      by (auto simp: eligible_workers_def)
  next
    case (Inl e)
    with pick_worker_failure [OF demo_reachable, where strat = "''round_robin''" and ?now1.0 = 1
        and ?now2.0 = 2 and ctx = "Some 9000" and urls1 = "[''a'']"] r p
    show ?thesis by (auto split: if_splits)
  qed
qed

text \<open>
  C37. Round robin is fair: while nothing but picking happens, \<open>k\<close> full rounds choose every
  eligible worker exactly \<open>k\<close> times, wherever the index stood.
\<close>

theorem round_robin_fair:
  assumes "lb_reachable lb" and "w \<in> set (workers lb)" and "eligible now ctx lb w"
  shows "count_list (fst (pick_many (k * length (eligible_workers now ctx lb)) ''round_robin'' now ctx lb))
           (Inr w) = k"
proof -
  note inv = lb_reachable_inv [OF assms(1)]
  let ?e = "eligible_workers now ctx lb"
  have w: "w \<in> set ?e" using assms(2,3) by (simp add: eligible_workers_def)
  have "distinct (workers lb)" using inv by (simp add: lb_inv_def distinct_map)
  then have d: "distinct ?e" by (simp add: eligible_workers_def)
  have "map (\<lambda>i. Inr (?e ! ((rr_index lb + i) mod length ?e)) :: client result) [0..<k * length ?e]
    = map Inr (map (\<lambda>i. ?e ! ((rr_index lb + i) mod length ?e)) [0..<k * length ?e])"
    by simp
  moreover have "count_list (map Inr (map (\<lambda>i. ?e ! ((rr_index lb + i) mod length ?e)) [0..<k * length ?e]))
      (Inr w :: client result) = k"
    by (subst count_list_map_conv) (auto intro: injI count_round_robin [OF d w])
  moreover have "?e \<noteq> []" using w by auto
  ultimately show ?thesis by (simp only: pick_many_round_robin [OF inv \<open>?e \<noteq> []\<close>])
qed

theorem round_robin_fair_witness:
  "count_list (fst (pick_many (3 * length (eligible_workers 1 None (new_balancer demo_config [''a'', ''b''])))
      ''round_robin'' 1 None (new_balancer demo_config [''a'', ''b''])))
     (Inr (make_client demo_config 1 ''b'')) = 3"
  by (rule round_robin_fair [OF demo_reachable])
    (simp_all add: demo_simps eligible_def blocked_def is_open_def)

text \<open>
  Under \<open>least_latency\<close> no eligible worker has a lower average latency than the one picked, and
  under \<open>queue_depth\<close> none has fewer active requests.
\<close>

theorem pick_worker_least:
  assumes "lb_reachable lb" and "pick_worker strat now1 now2 ctx lb = (Inr w, lb')"
    and "v \<in> set (workers lb)" and "eligible now1 ctx lb v"
  shows "(strat = ''least_latency'' \<longrightarrow> avg_latency (stats w) \<le> avg_latency (stats v))
    \<and> (strat = ''queue_depth'' \<longrightarrow> active_requests (stats w) \<le> active_requests (stats v))"
proof -
  note inv = lb_reachable_inv [OF assms(1)]
  have v: "v \<in> set (eligible_workers now1 ctx lb)" using assms(3,4) by (simp add: eligible_workers_def)
  then have "w = fst (choose_worker strat (rr_index lb) (eligible_workers now1 ctx lb))"
    using assms(2) by (auto simp: pick_worker_eq [OF inv] Let_def case_prod_beta split: if_splits)
  then show ?thesis
    using v by (auto simp: choose_worker_def dest: py_min_by_le split: option.splits)
qed

theorem pick_worker_least_witness:
  "curl (projr (fst (pick_worker ''queue_depth'' 1 2 None
      (lb_apply (BeginCall 0) (new_balancer demo_config [''a'', ''b'']))))) = ''b''"
proof -
  let ?lb = "lb_apply (BeginCall 0) (new_balancer demo_config [''a'', ''b''])"
  have r: "lb_reachable ?lb" by (rule lb_reachable.step [OF demo_reachable]) simp
  obtain w lb' where p: "pick_worker ''queue_depth'' 1 2 None ?lb = (Inr w, lb')"
    by (simp add: demo_simps update_client_def begin_call_def pick_worker_def available_workers_def
        is_open_def choose_worker_def)
  have v: "make_client demo_config 1 ''b'' \<in> set (workers ?lb)"
    by (simp add: demo_simps update_client_def begin_call_def)
  have e: "eligible 1 None ?lb (make_client demo_config 1 ''b'')"
    by (simp add: demo_simps update_client_def begin_call_def eligible_def blocked_def is_open_def)
  have "active_requests (stats w) \<le> 0"
    using pick_worker_least [OF r p v e] by (simp add: demo_simps)
  moreover have "w \<in> set (workers ?lb)"
    using pick_worker_Inr(1) [OF lb_reachable_inv [OF r] p] by (simp add: eligible_workers_def)
  ultimately have "curl w = ''b''"
    by (auto simp: demo_simps update_client_def begin_call_def)
  with p show ?thesis by simp
qed

text \<open>
  C29. In every reachable balancer, whatever workers were added and removed, each registered worker
  has a breaker: listing, picking and reporting statistics never fail with a \<open>KeyError\<close>, and the
  statistics list the workers in registration order.
\<close>

theorem reachable_no_key_error:
  assumes "lb_reachable lb"
  shows "(\<exists>rs. get_worker_stats lb = Inr rs \<and> map row_url rs = map curl (workers lb))
    \<and> (\<forall>e. fst (pick_worker strat now1 now2 ctx lb) = Inl e \<longrightarrow> is_runtime_error e)
    \<and> (\<forall>w \<in> set (workers lb). fst (record_success (curl w) lb) = Inr ()
          \<and> fst (record_failure now1 (curl w) lb) = Inr ())"
proof -
  note inv = lb_reachable_inv [OF assms(1)]
  have b: "\<exists>b. breakers lb (curl w) = Some b" if "w \<in> set (workers lb)" for w
    using lb_inv_dom [OF inv that] .
  then have "\<exists>rs. get_worker_stats lb = Inr rs \<and> map row_url rs = map curl (workers lb)"
    unfolding get_worker_stats_def by (rule stats_rows_total)
  moreover have "is_runtime_error e" if "fst (pick_worker strat now1 now2 ctx lb) = Inl e" for e
    using pick_worker_Inl [OF inv] that by (metis prod.collapse)
  moreover have "fst (record_success (curl w) lb) = Inr () \<and> fst (record_failure now1 (curl w) lb) = Inr ()"
    if "w \<in> set (workers lb)" for w
    using b [OF that] by (auto simp: record_success_def record_failure_def on_breaker_def)
  ultimately show ?thesis by blast
qed

theorem reachable_no_key_error_witness:
  "\<exists>rs. get_worker_stats (lb_apply (Remove ''a'') (new_balancer demo_config [''a'', ''b''])) = Inr rs"
proof -
  have "lb_reachable (lb_apply (Remove ''a'') (new_balancer demo_config [''a'', ''b'']))"
    by (rule lb_reachable.step [OF demo_reachable]) simp
  from reachable_no_key_error [OF this, THEN conjunct1] show ?thesis by blast
qed

text \<open>
  Reporting the outcome of a call to a worker that was deregistered while the call was running
  raises \<open>KeyError\<close>, which is not a \<open>RuntimeError\<close>: the callers' handlers do not catch it.
\<close>

theorem outcome_after_removal:
  "fst (record_success u (snd (remove_worker u lb))) = Inl (KeyError u)
   \<and> fst (record_failure now u (snd (remove_worker u lb))) = Inl (KeyError u)
   \<and> \<not> is_runtime_error (KeyError u)"
  by (simp add: record_success_def record_failure_def on_breaker_def remove_worker_def Let_def)

text \<open>
  Adding a worker is idempotent, makes the worker registered, and removing a worker that was
  added to a balancer without it restores the workers and the breakers.
\<close>

theorem add_remove_worker:
  assumes "lb_reachable lb"
  shows "has_worker u (snd (add_worker cfg u lb))
    \<and> add_worker cfg u (snd (add_worker cfg u lb)) = (False, snd (add_worker cfg u lb))
    \<and> \<not> has_worker u (snd (remove_worker u lb))
    \<and> (fst (add_worker cfg u lb) \<longrightarrow>
        (let lb' = snd (remove_worker u (snd (add_worker cfg u lb)))
         in workers lb' = workers lb \<and> breakers lb' = breakers lb))"
proof -
  have fresh: "breakers lb u = None \<and> (\<forall>w \<in> set (workers lb). curl w \<noteq> u)" if "\<not> has_worker u lb"
  proof -
    from that have "u \<notin> curl ` set (workers lb)" by (auto simp: has_worker_def list_ex_iff)
    moreover have "dom (breakers lb) = curl ` set (workers lb)"
      using lb_reachable_inv [OF assms] by (simp add: lb_inv_def)
    ultimately show ?thesis by (auto simp: domIff)
  qed
  have "has_worker u (snd (add_worker cfg u lb))"
    by (simp add: add_worker_def has_worker_def)
  moreover from this have "add_worker cfg u (snd (add_worker cfg u lb)) = (False, snd (add_worker cfg u lb))"
    by (subst add_worker_def) simp
  moreover have "\<not> has_worker u (snd (remove_worker u lb))"
    by (simp add: has_worker_def remove_worker_def Let_def list_ex_iff)
  moreover have "workers (snd (remove_worker u (snd (add_worker cfg u lb)))) = workers lb
      \<and> breakers (snd (remove_worker u (snd (add_worker cfg u lb)))) = breakers lb"
    if "fst (add_worker cfg u lb)"
  proof -
    from that have "\<not> has_worker u lb" by (simp add: add_worker_def split: if_splits)
    with fresh [OF this] show ?thesis
      by (simp add: add_worker_def remove_worker_def Let_def filter_id_conv fun_upd_idem)
  qed
  ultimately show ?thesis by (simp add: Let_def)
qed

theorem add_remove_worker_witness:
  "has_worker ''c'' (snd (add_worker demo_config ''c'' (new_balancer demo_config [''a''])))"
  using add_remove_worker [OF demo_reachable] by blast

end
