(* ===== verification/Dispatch.thy ===== *)
theory Dispatch
  imports LoadBalancer
begin

text \<open>
  The dispatch pattern shared by the gateway's routes (\<^verbatim>\<open>gateway/routes.py\<close>), the queue workers
  (\<^verbatim>\<open>workers/worker_pool.py\<close>) and the summarizer (\<^verbatim>\<open>context/compression.py\<close>): pick a worker,
  call it, report the outcome to the balancer. The call is two atomic steps around the await; the
  caller holds the picked client in between, even when it is deregistered meanwhile.
\<close>

section \<open>The two steps\<close>

definition dispatch_begin ::
  "string \<Rightarrow> real \<Rightarrow> real \<Rightarrow> int option \<Rightarrow> balancer \<Rightarrow> client result \<times> balancer" where
  "dispatch_begin strat now1 now2 ctx lb =
     (case pick_worker strat now1 now2 ctx lb of
        (Inl e, lb1) \<Rightarrow> (Inl e, lb1)
      | (Inr w, lb1) \<Rightarrow> (Inr w, update_client (cid w) begin_call lb1))"

text \<open>
  \<open>finish\<close> is the end of \<open>generate\<close> or \<open>chat\<close>. A \<open>RuntimeError\<close> of the worker is caught and passed
  on after \<open>record_failure\<close>; an exception of \<open>record_success\<close> or \<open>record_failure\<close> itself is not.
\<close>

definition dispatch_end ::
  "(client \<Rightarrow> json pydict result \<times> client) \<Rightarrow> real \<Rightarrow> client \<Rightarrow> balancer \<Rightarrow> json pydict result \<times> balancer" where
  "dispatch_end finish now w lb =
     (let r = fst (finish w); lb1 = update_client (cid w) (\<lambda>c. snd (finish c)) lb
      in case r of
           Inr reply \<Rightarrow>
             (case record_success (curl w) lb1 of
                (Inl e, lb2) \<Rightarrow> (Inl e, lb2) | (Inr _, lb2) \<Rightarrow> (Inr reply, lb2))
         | Inl e \<Rightarrow>
             if is_runtime_error e then
               (case record_failure now (curl w) lb1 of
                  (Inl e', lb2) \<Rightarrow> (Inl e', lb2) | (Inr _, lb2) \<Rightarrow> (Inl e, lb2))
             else (Inl e, lb1))"

text \<open>\<open>llm_summarizer\<close>: the prompt, and the answer taken out of the reply.\<close>

definition summary_prompt :: "string \<Rightarrow> string" where
  "summary_prompt txt =
     ''Summarize the following conversation/context concisely, keeping '' @
     ''only information likely to matter for continuing the task:'' @ newline @ newline @ txt"

text \<open>\<open>model\<close> is the argument if given and not empty, else the default; the second component of the
  answer is the body that is posted to the worker.\<close>

definition summarizer_begin ::
  "string \<Rightarrow> real \<Rightarrow> real \<Rightarrow> string \<Rightarrow> string \<Rightarrow> balancer \<Rightarrow> (client \<times> json) result \<times> balancer" where
  "summarizer_begin strat now1 now2 model txt lb =
     (case dispatch_begin strat now1 now2 None lb of
        (Inl e, lb') \<Rightarrow> (Inl e, lb')
      | (Inr w, lb') \<Rightarrow> (Inr (w, generate_body (JStr model) (JStr (summary_prompt txt))), lb'))"

definition summarizer_end ::
  "(json \<Rightarrow> py_exc option) \<Rightarrow> real \<Rightarrow> http_outcome \<Rightarrow> real \<Rightarrow> client \<Rightarrow> balancer \<Rightarrow> json result \<times> balancer" where
  "summarizer_end inc latency o' now w lb =
     (case dispatch_end (finish_generate inc latency o') now w lb of
        (Inl e, lb') \<Rightarrow> (Inl e, lb')
      | (Inr reply, lb') \<Rightarrow>
          (case map_of reply ''response'' of None \<Rightarrow> (Inl (KeyError ''response''), lb') | Some j \<Rightarrow> (Inr j, lb')))"

section \<open>The contract of a dispatcher\<close>

text \<open>
  What every caller of the pattern relies on, whatever pool it dispatches to: the pool's invariant
  survives both steps, a pick fails with a \<open>RuntimeError\<close> only, and the load of a worker (its calls
  in flight) goes up by one for the worker picked and down by one when its call ends.
\<close>

locale dispatcher =
  fixes start :: "'q \<Rightarrow> 's \<Rightarrow> 'w result \<times> 's"
    and finish :: "'o \<Rightarrow> 'w \<Rightarrow> 's \<Rightarrow> 'r result \<times> 's"
    and invar :: "'s \<Rightarrow> bool"
    and serves :: "nat \<Rightarrow> 's \<Rightarrow> bool"
    and load :: "nat \<Rightarrow> 's \<Rightarrow> int"
    and ident :: "'w \<Rightarrow> nat"
  assumes start_invar: "invar s \<Longrightarrow> invar (snd (start q s))"
    and finish_invar: "invar s \<Longrightarrow> invar (snd (finish o' w s))"
    and start_fails: "invar s \<Longrightarrow> fst (start q s) = Inl e \<Longrightarrow> is_runtime_error e"
    and start_serves: "invar s \<Longrightarrow> serves i (snd (start q s)) = serves i s"
    and finish_serves: "invar s \<Longrightarrow> serves i (snd (finish o' w s)) = serves i s"
    and start_load: "invar s \<Longrightarrow> serves i s \<Longrightarrow>
       load i (snd (start q s)) = load i s + (case fst (start q s) of Inr w \<Rightarrow> (if ident w = i then 1 else 0) | Inl _ \<Rightarrow> 0)"
    and finish_load: "invar s \<Longrightarrow> serves i s \<Longrightarrow>
       load i (snd (finish o' w s)) = load i s - (if ident w = i then 1 else 0)"
begin

text \<open>Calls in flight: a call is started or one of those in flight ends, in any order.\<close>

definition in_step :: "'q + (nat \<times> 'o) \<Rightarrow> 's \<times> 'w list \<Rightarrow> 's \<times> 'w list" where
  "in_step e p =
     (case e of
        Inl q \<Rightarrow> (case start q (fst p) of
            (Inl _, s') \<Rightarrow> (s', snd p) | (Inr w, s') \<Rightarrow> (s', snd p @ [w]))
      | Inr (k, o') \<Rightarrow>
          if k < length (snd p)
          then (snd (finish o' (snd p ! k) (fst p)), take k (snd p) @ drop (Suc k) (snd p)) else p)"

definition balanced :: "'s \<times> 'w list \<Rightarrow> bool" where
  "balanced p \<longleftrightarrow> invar (fst p)
     \<and> (\<forall>i. serves i (fst p) \<longrightarrow> load i (fst p) = int (count_list (map ident (snd p)) i))"

lemma count_list_remove_nth:
  "k < length xs \<Longrightarrow>
   int (count_list (take k xs @ drop (Suc k) xs) i) = int (count_list xs i) - (if xs ! k = i then 1 else 0)"
proof -
  assume k: "k < length xs"
  then have "count_list xs i = count_list (take k xs @ xs ! k # drop (Suc k) xs) i"
    by (simp add: id_take_nth_drop [symmetric])
  then show ?thesis by simp
qed

lemma balanced_start:
  assumes "balanced (s, ws)"
  shows "balanced (in_step (Inl q) (s, ws))"
proof (cases "fst (start q s)")
  case (Inl e)
  then have "in_step (Inl q) (s, ws) = (snd (start q s), ws)"
    by (simp add: in_step_def case_prod_beta)
  with assms Inl show ?thesis
    by (simp add: balanced_def start_invar start_serves start_load)
next
  case (Inr w)
  then have "in_step (Inl q) (s, ws) = (snd (start q s), ws @ [w])"
    by (simp add: in_step_def case_prod_beta)
  with assms Inr show ?thesis
    by (simp add: balanced_def start_invar start_serves start_load)
qed

lemma balanced_finish:
  assumes "balanced (s, ws)"
  shows "balanced (in_step (Inr (k, o')) (s, ws))"
proof (cases "k < length ws")
  case True
  have "load i (snd (finish o' (ws ! k) s)) = int (count_list (map ident (take k ws @ drop (Suc k) ws)) i)"
    if "serves i s" for i
    using that assms True count_list_remove_nth [of k "map ident ws" i]
    by (simp add: balanced_def finish_load take_map drop_map)
  with assms True show ?thesis
    by (simp add: balanced_def in_step_def finish_invar finish_serves)
next
  case False
  with assms show ?thesis by (simp add: in_step_def)
qed

lemma balanced_step: "balanced p \<Longrightarrow> balanced (in_step e p)"
  using balanced_start balanced_finish by (cases p; cases e) auto

lemma balanced_run: "balanced p \<Longrightarrow> balanced (fold in_step es p)"
proof (induction es arbitrary: p)
  case (Cons e es)
  show ?case using Cons.IH [OF balanced_step [OF Cons.prems]] by simp
qed simp

end

section \<open>The balancer is a dispatcher\<close>

text \<open>One call: its request parameters, and how it ends.\<close>

record call_start =
  ca_strategy :: string
  ca_now1 :: real
  ca_now2 :: real
  ca_tokens :: "int option"

record call_end =
  ce_chat :: bool
  ce_inc :: "json \<Rightarrow> py_exc option"
  ce_latency :: real
  ce_outcome :: http_outcome
  ce_now :: real

definition start_call :: "call_start \<Rightarrow> balancer \<Rightarrow> client result \<times> balancer" where
  "start_call c lb = dispatch_begin (ca_strategy c) (ca_now1 c) (ca_now2 c) (ca_tokens c) lb"

definition finish_of :: "call_end \<Rightarrow> client \<Rightarrow> json pydict result \<times> client" where
  "finish_of c = (if ce_chat c then finish_chat (ce_inc c) (ce_latency c) (ce_outcome c)
     else finish_generate (ce_inc c) (ce_latency c) (ce_outcome c))"

definition stop_call :: "call_end \<Rightarrow> client \<Rightarrow> balancer \<Rightarrow> json pydict result \<times> balancer" where
  "stop_call c w lb = dispatch_end (finish_of c) (ce_now c) w lb"

definition registered :: "nat \<Rightarrow> balancer \<Rightarrow> bool" where
  "registered i lb \<longleftrightarrow> (\<exists>w \<in> set (workers lb). cid w = i)"

definition load_of :: "nat \<Rightarrow> balancer \<Rightarrow> int" where
  "load_of i lb = (case find (\<lambda>w. cid w = i) (workers lb) of None \<Rightarrow> 0 | Some w \<Rightarrow> active_requests (stats w))"

lemma workers_on_breaker [simp]: "workers (snd (on_breaker f u lb)) = workers lb"
  by (simp add: on_breaker_def split: option.split)

text \<open>The three ways a call ends.\<close>

lemma dispatch_end_cases:
  obtains (ok) "snd (dispatch_end finish now w lb)
      = snd (record_success (curl w) (update_client (cid w) (\<lambda>c. snd (finish c)) lb))"
  | (failed) "snd (dispatch_end finish now w lb)
      = snd (record_failure now (curl w) (update_client (cid w) (\<lambda>c. snd (finish c)) lb))"
  | (other) "snd (dispatch_end finish now w lb) = update_client (cid w) (\<lambda>c. snd (finish c)) lb"
proof (cases "fst (finish w)")
  case (Inr reply)
  then show thesis
    by (intro ok) (simp add: dispatch_end_def Let_def case_prod_beta split: sum.split)
next
  case (Inl e)
  then show thesis
    by (cases "is_runtime_error e", intro failed, simp_all add: dispatch_end_def Let_def case_prod_beta split: sum.split)
      (intro other, simp add: dispatch_end_def Let_def)
qed

lemma workers_dispatch_end:
  "workers (snd (dispatch_end finish now w lb)) = workers (update_client (cid w) (\<lambda>c. snd (finish c)) lb)"
  by (rule dispatch_end_cases [of finish now w lb]) (simp_all add: record_success_def record_failure_def)

lemma find_map_cid:
  "(\<And>w. cid (g w) = cid w) \<Longrightarrow> find (\<lambda>w. cid w = i) (map g ws) = map_option g (find (\<lambda>w. cid w = i) ws)"
  by (induction ws) auto

lemma registered_find: "registered i lb \<Longrightarrow> \<exists>w. find (\<lambda>w. cid w = i) (workers lb) = Some w \<and> cid w = i"
proof -
  assume "registered i lb"
  then have "find (\<lambda>w. cid w = i) (workers lb) \<noteq> None" by (auto simp: registered_def find_None_iff)
  then show ?thesis by (auto simp: find_Some_iff)
qed

lemma load_update:
  assumes "\<And>c. cid (f c) = cid c" "\<And>c. active_requests (stats (f c)) = active_requests (stats c) + d"
    and "registered i lb"
  shows "load_of i (update_client j f lb) = load_of i lb + (if i = j then d else 0)"
proof -
  obtain w where w: "find (\<lambda>w. cid w = i) (workers lb) = Some w" "cid w = i"
    using registered_find [OF assms(3)] by blast
  have "find (\<lambda>w. cid w = i) (map (\<lambda>w. if cid w = j then f w else w) (workers lb))
      = Some (if cid w = j then f w else w)"
    using w assms(1) by (subst find_map_cid) auto
  then show ?thesis using w assms(2) by (simp add: load_of_def update_client_def)
qed

lemma registered_update: "(\<And>c. cid (f c) = cid c) \<Longrightarrow> registered i (update_client j f lb) = registered i lb"
  by (auto simp: registered_def update_client_def)

lemma finish_of_sel [simp]:
  "cid (snd (finish_of c w)) = cid w" "curl (snd (finish_of c w)) = curl w"
  "active_requests (stats (snd (finish_of c w))) = active_requests (stats w) - 1"
  by (simp_all add: finish_of_def finish_generate_def finish_chat_def)

lemma finish_of_error: "fst (finish_of c w) = Inl e \<Longrightarrow> is_runtime_error e"
  by (auto simp: finish_of_def finish_generate_def finish_chat_def dest!: finish_call_error split: if_splits)

lemma lb_inv_dispatch_begin [inv_intros]: "lb_inv lb \<Longrightarrow> lb_inv (snd (dispatch_begin strat now1 now2 ctx lb))"
  using lb_inv_pick [of lb strat now1 now2 ctx]
  by (auto simp: dispatch_begin_def intro!: lb_inv_update_client split: prod.split sum.split)

lemma lb_inv_dispatch_end [inv_intros]:
  assumes "\<And>c. cid (snd (finish c)) = cid c \<and> curl (snd (finish c)) = curl c" "lb_inv lb"
  shows "lb_inv (snd (dispatch_end finish now w lb))"
proof -
  let ?lb1 = "update_client (cid w) (\<lambda>c. snd (finish c)) lb"
  have "lb_inv ?lb1" by (rule lb_inv_update_client) (simp_all add: assms)
  then have inv: "lb_inv (snd (record_success (curl w) ?lb1))" "lb_inv (snd (record_failure now (curl w) ?lb1))" "lb_inv ?lb1"
    by (auto intro: inv_intros)
  show ?thesis by (rule dispatch_end_cases [of finish now w lb]) (simp_all add: inv)
qed

lemma dispatch_begin_workers:
  "lb_inv lb \<Longrightarrow> workers (snd (dispatch_begin strat now1 now2 ctx lb)) =
     (case fst (dispatch_begin strat now1 now2 ctx lb) of
        Inl _ \<Rightarrow> workers lb
      | Inr w \<Rightarrow> workers (update_client (cid w) begin_call lb))"
  using pick_worker_workers [of lb strat now1 now2 ctx]
  by (auto simp: dispatch_begin_def update_client_def split: prod.splits sum.splits)

lemma load_workers: "workers lb = workers lb' \<Longrightarrow> load_of i lb = load_of i lb' \<and> registered i lb = registered i lb'"
  by (simp add: load_of_def registered_def)

interpretation pool: dispatcher start_call stop_call lb_inv registered load_of "cid :: client \<Rightarrow> nat"
proof unfold_locales
  fix lb :: balancer and q e assume "lb_inv lb" "fst (start_call q lb) = Inl e"
  then show "is_runtime_error e"
    using pick_worker_Inl [of lb]
    by (auto simp: start_call_def dispatch_begin_def split: prod.splits sum.splits)
next
  fix lb :: balancer and q i assume inv: "lb_inv lb"
  let ?r = "fst (start_call q lb)"
  have ws: "workers (snd (start_call q lb)) = (case ?r of Inl _ \<Rightarrow> workers lb
      | Inr w \<Rightarrow> workers (update_client (cid w) begin_call lb))"
    unfolding start_call_def by (rule dispatch_begin_workers [OF inv])
  have up: "registered i (update_client (cid w) begin_call lb) = registered i lb" for w
    by (rule registered_update) simp
  show "registered i (snd (start_call q lb)) = registered i lb"
  proof (cases ?r)
    case (Inl e)
    with ws have "workers (snd (start_call q lb)) = workers lb" by simp
    from load_workers [OF this] show ?thesis by simp
  next
    case (Inr w)
    with ws have "workers (snd (start_call q lb)) = workers (update_client (cid w) begin_call lb)" by simp
    from load_workers [OF this] up show ?thesis by simp
  qed
  assume reg: "registered i lb"
  have load: "load_of i (update_client (cid w) begin_call lb) = load_of i lb + (if i = cid w then 1 else 0)" for w
    by (rule load_update) (simp_all add: reg)
  show "load_of i (snd (start_call q lb)) = load_of i lb
      + (case ?r of Inr w \<Rightarrow> (if cid w = i then 1 else 0) | Inl _ \<Rightarrow> 0)"
  proof (cases ?r)
    case (Inl e)
    with ws have "workers (snd (start_call q lb)) = workers lb" by simp
    from load_workers [OF this] Inl show ?thesis by simp
  next
    case (Inr w)
    with ws have "workers (snd (start_call q lb)) = workers (update_client (cid w) begin_call lb)" by simp
    from load_workers [OF this, of i] load [of w] Inr show ?thesis by auto
  qed
next
  fix lb :: balancer and o' i and w :: client assume inv: "lb_inv lb"
  note ws = workers_dispatch_end [of "finish_of o'" "ce_now o'" w lb]
  have "registered i (update_client (cid w) (\<lambda>c. snd (finish_of o' c)) lb) = registered i lb"
    by (rule registered_update) simp
  then show "registered i (snd (stop_call o' w lb)) = registered i lb"
    using load_workers [OF ws] by (simp add: stop_call_def)
  assume "registered i lb"
  then have "load_of i (update_client (cid w) (\<lambda>c. snd (finish_of o' c)) lb) = load_of i lb + (if i = cid w then -1 else 0)"
    by (intro load_update) simp_all
  then show "load_of i (snd (stop_call o' w lb)) = load_of i lb - (if cid w = i then 1 else 0)"
    using load_workers [OF ws] by (simp add: stop_call_def)
qed (auto simp: start_call_def stop_call_def intro!: inv_intros)


section \<open>Properties\<close>

text \<open>
  C12. The load the balancer routes by is exact: however the calls of all users of the balancer
  interleave, whichever of them fail and in whatever order they end, the active requests of every
  worker are the calls it was picked for that have not ended yet; so no failure leaks a slot.
\<close>

theorem active_requests_exact:
  assumes "0 < cb_threshold cfg"
    and "fold pool.in_step calls (new_balancer cfg urls, []) = (lb, in_flight)"
    and "w \<in> set (workers lb)"
  shows "active_requests (stats w) = int (count_list (map cid in_flight) (cid w))"
proof -
  let ?lb0 = "new_balancer cfg urls"
  have "active_requests (stats v) = 0" if "v \<in> set (workers ?lb0)" for v
    using that by (auto simp: new_balancer_def make_client_def)
  then have "load_of i ?lb0 = 0" for i
    by (auto simp: load_of_def find_Some_iff split: option.split)
  then have "pool.balanced (?lb0, [])"
    using lb_inv_new [OF assms(1)] by (simp add: pool.balanced_def)
  then have b: "pool.balanced (lb, in_flight)"
    using pool.balanced_run [of "(?lb0, [])" calls] assms(2) by simp
  have d: "distinct (map cid (workers lb))" using b by (simp add: pool.balanced_def lb_inv_def)
  have reg: "registered (cid w) lb" using assms(3) by (auto simp: registered_def)
  then obtain v where v: "find (\<lambda>v. cid v = cid w) (workers lb) = Some v" "cid v = cid w"
    using registered_find by blast
  then have "v \<in> set (workers lb)" by (auto simp: find_Some_iff)
  then have "v = w" using d v(2) assms(3) by (auto simp: distinct_map dest: inj_onD)
  with v have "load_of (cid w) lb = active_requests (stats w)" by (simp add: load_of_def)
  with b reg show ?thesis by (simp add: pool.balanced_def)
qed

definition demo_start :: call_start where
  "demo_start = \<lparr>ca_strategy = ''round_robin'', ca_now1 = 1, ca_now2 = 1, ca_tokens = None\<rparr>"

definition demo_end :: "http_outcome \<Rightarrow> call_end" where
  "demo_end out = \<lparr>ce_chat = False, ce_inc = (\<lambda>_. None), ce_latency = 1, ce_outcome = out, ce_now = 2\<rparr>"

theorem active_requests_exact_witness:
  "case fold pool.in_step [Inl demo_start, Inl demo_start, Inl demo_start, Inr (0, demo_end (Raised ''timeout''))]
      (new_balancer demo_config [''a'', ''b''], []) of
     (lb, in_flight) \<Rightarrow> \<forall>w \<in> set (workers lb).
        active_requests (stats w) = int (count_list (map cid in_flight) (cid w))"
proof -
  have "0 < cb_threshold demo_config" by (simp add: demo_config_def)
  from active_requests_exact [OF this prod.collapse [symmetric]] show ?thesis
    unfolding case_prod_beta by blast
qed

text \<open>
  C32. The breaker hears the outcome: when a call to a still registered worker ends, that worker's
  breaker records a success if the caller gets a reply and a failure if not, no other breaker
  changes, and every failure the caller sees is a \<open>RuntimeError\<close>.
\<close>

theorem outcome_reaches_breaker:
  assumes "breakers lb (curl w) = Some b"
  shows "case stop_call c w lb of
      (Inr reply, lb') \<Rightarrow> breakers lb' = (breakers lb)(curl w \<mapsto> cb_record_success b)
    | (Inl e, lb') \<Rightarrow> breakers lb' = (breakers lb)(curl w \<mapsto> cb_record_failure (ce_now c) b)
        \<and> is_runtime_error e \<and> fst (finish_of c w) = Inl e"
proof -
  have up: "breakers (update_client i f lb) = breakers lb" for i f by (simp add: update_client_def)
  show ?thesis
  proof (cases "fst (finish_of c w)")
    case (Inl e)
    have "is_runtime_error e" by (rule finish_of_error [OF Inl])
    with Inl assms show ?thesis
      by (simp add: stop_call_def dispatch_end_def Let_def record_failure_def on_breaker_def up)
  next
    case (Inr r)
    with assms show ?thesis
      by (simp add: stop_call_def dispatch_end_def Let_def record_success_def on_breaker_def up)
  qed
qed

theorem outcome_reaches_breaker_witness:
  "\<exists>b. breakers (snd (stop_call (demo_end (Raised ''timeout'')) (make_client demo_config 0 ''a'')
      (new_balancer demo_config [''a'']))) ''a'' = Some b \<and> failure_count b = 1"
proof -
  let ?w = "make_client demo_config 0 ''a''" and ?lb = "new_balancer demo_config [''a'']"
  let ?c = "demo_end (Raised ''timeout'')"
  have b: "breakers ?lb (curl ?w) = Some (make_breaker demo_config ''a'')" by (simp add: demo_simps)
  obtain r lb' where r: "stop_call ?c ?w ?lb = (r, lb')" by force
  have "fst (finish_of ?c ?w) = Inl (worker_error ?w ''timeout'')"
    by (simp add: finish_of_def demo_end_def finish_generate_def finish_call_def)
  then have "\<exists>e. r = Inl e"
    using r by (cases r) (auto simp: stop_call_def dispatch_end_def Let_def split: prod.splits sum.splits if_splits)
  then obtain e where "r = Inl e" ..
  with outcome_reaches_breaker [OF b, of ?c] r show ?thesis
    by (simp add: make_breaker_def new_breaker_def cb_record_failure_def Let_def)
qed

end
