(* ===== verification/ContextStore.thy ===== *)
theory ContextStore
  imports PyText
begin

text \<open>
  \<^verbatim>\<open>context/models.py\<close> and \<^verbatim>\<open>context/store.py\<close>: context items, the token estimate, and the
  in-memory store with its index of item ids per workflow. The locale \<open>workflow_store\<close> is the
  contract the context manager relies on; it is interpreted on this store.
\<close>

section \<open>Items\<close>

datatype context_type =
    CONVERSATION | FILE | TOOL_RESULT | ERROR | MEMORY | SUMMARY | INSTRUCTION | TASK_STATE

definition estimate_tokens :: "string \<Rightarrow> int" where
  "estimate_tokens text = max 1 (int (length text) div 4)"

record context_item =
  ctype :: context_type
  content :: string
  source :: "string option"
  agent_id :: "string option"
  workflow_id :: "string option"
  importance :: real
  relevance :: real
  artifact_id :: "string option"
  item_id :: string
  token_count :: int
  created_at :: real
  last_accessed_at :: real

text \<open>What the default factories of a new item supply: a uuid and two readings of the clock.\<close>

record stamp =
  fresh_id :: string
  clock1 :: real
  clock2 :: real

text \<open>\<open>ContextItem(type=ty, content=c)\<close>; further keyword arguments are record updates.\<close>

definition new_item :: "stamp \<Rightarrow> context_type \<Rightarrow> string \<Rightarrow> context_item" where
  "new_item st ty c =
     \<lparr>ctype = ty, content = c, source = None, agent_id = None, workflow_id = None,
      importance = 1 / 2, relevance = 1 / 2, artifact_id = None, item_id = fresh_id st,
      token_count = estimate_tokens c, created_at = clock1 st, last_accessed_at = clock2 st\<rparr>"

definition touch :: "real \<Rightarrow> context_item \<Rightarrow> context_item" where
  "touch now it = it\<lparr>last_accessed_at := now\<rparr>"

text \<open>Items as the constructor makes them: the count is the estimate of the content.\<close>

definition wf_item :: "context_item \<Rightarrow> bool" where
  "wf_item it \<longleftrightarrow> token_count it = estimate_tokens (content it)"

lemma estimate_tokens_pos [simp]: "1 \<le> estimate_tokens t"
  by (simp add: estimate_tokens_def)

lemma estimate_tokens_mono: "length s \<le> length t \<Longrightarrow> estimate_tokens s \<le> estimate_tokens t"
  unfolding estimate_tokens_def by (intro max.mono order_refl zdiv_mono1) auto

lemma wf_item_pos: "wf_item it \<Longrightarrow> 1 \<le> token_count it"
  by (simp add: wf_item_def)

lemma wf_item_touch [simp]: "wf_item (touch now it) = wf_item it"
  by (simp add: wf_item_def touch_def)

lemma touch_sel [simp]:
  "item_id (touch now it) = item_id it" "workflow_id (touch now it) = workflow_id it"
  "ctype (touch now it) = ctype it" "content (touch now it) = content it"
  "token_count (touch now it) = token_count it" "created_at (touch now it) = created_at it"
  by (simp_all add: touch_def)

section \<open>The store\<close>

record context_store =
  items :: "string \<rightharpoonup> context_item"
  by_workflow :: "string \<rightharpoonup> string list"
  items_recorded :: nat

definition empty_store :: context_store where
  "empty_store = \<lparr>items = Map.empty, by_workflow = Map.empty, items_recorded = 0\<rparr>"

text \<open>Python truth of an optional string.\<close>

definition truthy :: "string option \<Rightarrow> bool" where
  "truthy w = (case w of None \<Rightarrow> False | Some s \<Rightarrow> s \<noteq> [])"

definition ids_of :: "context_store \<Rightarrow> string \<Rightarrow> string list" where
  "ids_of s w = (case by_workflow s w of None \<Rightarrow> [] | Some ids \<Rightarrow> ids)"

definition store_add :: "context_item \<Rightarrow> context_store \<Rightarrow> context_store" where
  "store_add it s =
     (let s' = s\<lparr>items := (items s)(item_id it \<mapsto> it)\<rparr>;
          s'' = (if truthy (workflow_id it)
                 then s'\<lparr>by_workflow := (by_workflow s')
                        (the (workflow_id it) \<mapsto> ids_of s' (the (workflow_id it)) @ [item_id it])\<rparr>
                 else s')
      in s''\<lparr>items_recorded := items_recorded s'' + 1\<rparr>)"

definition store_get :: "real \<Rightarrow> string \<Rightarrow> context_store \<Rightarrow> context_item option \<times> context_store" where
  "store_get now i s =
     (case items s i of
        None \<Rightarrow> (None, s)
      | Some it \<Rightarrow> (Some (touch now it), s\<lparr>items := (items s)(i \<mapsto> touch now it)\<rparr>))"

definition list_for_workflow :: "context_store \<Rightarrow> string \<Rightarrow> context_type option \<Rightarrow> context_item list" where
  "list_for_workflow s w ty =
     (let its = map (\<lambda>i. the (items s i)) (filter (\<lambda>i. items s i \<noteq> None) (ids_of s w))
      in case ty of None \<Rightarrow> its | Some t \<Rightarrow> filter (\<lambda>it. ctype it = t) its)"

text \<open>\<open>ids.remove\<close> deletes the first occurrence: that is \<open>remove1\<close>.\<close>

definition store_delete :: "string \<Rightarrow> context_store \<Rightarrow> bool \<times> context_store" where
  "store_delete i s =
     (case items s i of
        None \<Rightarrow> (False, s)
      | Some it \<Rightarrow>
          (let s' = s\<lparr>items := (items s)(i := None)\<rparr>
           in (True,
               if truthy (workflow_id it) then
                 (case by_workflow s' (the (workflow_id it)) of
                    None \<Rightarrow> s'
                  | Some ids \<Rightarrow>
                      if i \<in> set ids
                      then s'\<lparr>by_workflow := (by_workflow s')(the (workflow_id it) \<mapsto> remove1 i ids)\<rparr>
                      else s')
               else s')))"

definition clear_workflow :: "string \<Rightarrow> context_store \<Rightarrow> nat \<times> context_store" where
  "clear_workflow w s =
     (let ids = ids_of s w
      in (length ids,
          s\<lparr>by_workflow := (by_workflow s)(w := None),
            items := (\<lambda>i. if i \<in> set ids then None else items s i)\<rparr>))"

definition store_total_tokens :: "context_store \<Rightarrow> string \<Rightarrow> int" where
  "store_total_tokens s w = sum_by token_count (list_for_workflow s w None)"

section \<open>Invariant\<close>

text \<open>
  The index lists exactly the stored items of each named workflow, each once and under its own id.
\<close>

definition store_inv :: "context_store \<Rightarrow> bool" where
  "store_inv s \<longleftrightarrow>
     (\<forall>i it. items s i = Some it \<longrightarrow> item_id it = i \<and> wf_item it)
     \<and> (\<forall>w. distinct (ids_of s w))
     \<and> (\<forall>w i. i \<in> set (ids_of s w) \<longleftrightarrow> w \<noteq> [] \<and> (\<exists>it. items s i = Some it \<and> workflow_id it = Some w))"

lemma store_inv_empty [inv_intros]: "store_inv empty_store"
  by (simp add: store_inv_def empty_store_def ids_of_def)

lemma ids_of_add:
  "ids_of (store_add it s) w =
     ids_of s w @ (if workflow_id it = Some w \<and> w \<noteq> [] then [item_id it] else [])"
  by (auto simp: store_add_def ids_of_def truthy_def Let_def split: option.splits)

lemma items_add: "items (store_add it s) = (items s)(item_id it \<mapsto> it)"
  by (simp add: store_add_def Let_def)

lemma store_inv_add [inv_intros]:
  assumes "store_inv s" "wf_item it" "items s (item_id it) = None"
  shows "store_inv (store_add it s)"
  unfolding store_inv_def
proof (intro conjI allI impI)
  fix i jt assume "items (store_add it s) i = Some jt"
  then show "item_id jt = i" and "wf_item jt"
    using assms by (auto simp: items_add store_inv_def split: if_splits)
next
  fix w
  have "item_id it \<notin> set (ids_of s w)" "distinct (ids_of s w)" using assms by (auto simp: store_inv_def)
  then show "distinct (ids_of (store_add it s) w)"
    by (cases "workflow_id it = Some w \<and> w \<noteq> []") (auto simp: ids_of_add)
next
  fix w i
  have "i \<in> set (ids_of s w) \<longleftrightarrow> w \<noteq> [] \<and> (\<exists>it. items s i = Some it \<and> workflow_id it = Some w)"
    using assms(1) by (simp add: store_inv_def)
  then show "i \<in> set (ids_of (store_add it s) w)
      \<longleftrightarrow> w \<noteq> [] \<and> (\<exists>jt. items (store_add it s) i = Some jt \<and> workflow_id jt = Some w)"
    using assms(3) by (auto simp: ids_of_add items_add)
qed

lemma store_inv_get [inv_intros]: "store_inv s \<Longrightarrow> store_inv (snd (store_get now i s))"
  by (auto simp: store_inv_def store_get_def ids_of_def split: option.splits if_splits)

lemma items_delete: "items (snd (store_delete i s)) = (items s)(i := None)"
  by (auto simp: store_delete_def Let_def split: option.splits)

lemma ids_of_delete_Some:
  assumes "items s i = Some it"
  shows "ids_of (snd (store_delete i s)) w =
    (if workflow_id it = Some w \<and> w \<noteq> [] then remove1 i (ids_of s w) else ids_of s w)"
proof (cases "truthy (workflow_id it)")
  case False
  then show ?thesis
    using assms by (auto simp: store_delete_def Let_def ids_of_def truthy_def)
next
  case True
  then obtain v where v: "workflow_id it = Some v" "v \<noteq> []"
    by (cases "workflow_id it") (auto simp: truthy_def)
  show ?thesis
  proof (cases "by_workflow s v")
    case None
    with assms True v show ?thesis by (auto simp: store_delete_def Let_def ids_of_def)
  next
    case (Some ids)
    with assms True v show ?thesis
      by (simp add: store_delete_def Let_def ids_of_def remove1_idem)
  qed
qed

lemma ids_of_delete:
  assumes "store_inv s"
  shows "ids_of (snd (store_delete i s)) w = filter (\<lambda>j. j \<noteq> i) (ids_of s w)"
proof (cases "items s i")
  case None
  then have "i \<notin> set (ids_of s w)" using assms by (auto simp: store_inv_def)
  then have "filter (\<lambda>j. j \<noteq> i) (ids_of s w) = ids_of s w" by (auto simp: filter_id_conv)
  with None show ?thesis by (simp add: store_delete_def)
next
  case (Some it)
  have d: "distinct (ids_of s w)" using assms by (simp add: store_inv_def)
  have m: "i \<in> set (ids_of s w) \<longleftrightarrow> w \<noteq> [] \<and> workflow_id it = Some w"
    using assms Some by (simp add: store_inv_def)
  have r: "remove1 i (ids_of s w) = filter (\<lambda>j. j \<noteq> i) (ids_of s w)"
    unfolding distinct_remove1_removeAll [OF d] removeAll_filter_not_eq
    by (rule filter_cong) auto
  have "remove1 i (ids_of s w) = ids_of s w" if "\<not> (workflow_id it = Some w \<and> w \<noteq> [])"
  proof -
    from that m have "i \<notin> set (ids_of s w)" by blast
    then show ?thesis by (rule remove1_idem)
  qed
  then show ?thesis unfolding ids_of_delete_Some [OF Some] r [symmetric] by simp
qed

lemma store_inv_delete [inv_intros]:
  assumes "store_inv s" shows "store_inv (snd (store_delete i s))"
  using assms unfolding store_inv_def ids_of_delete [OF assms] items_delete
  by (auto split: if_splits)

lemma ids_of_clear: "ids_of (snd (clear_workflow w s)) v = (if v = w then [] else ids_of s v)"
  by (simp add: clear_workflow_def Let_def ids_of_def)

lemma items_clear:
  "items (snd (clear_workflow w s)) = (\<lambda>i. if i \<in> set (ids_of s w) then None else items s i)"
  by (simp add: clear_workflow_def Let_def)

lemma store_inv_clear [inv_intros]:
  assumes "store_inv s" shows "store_inv (snd (clear_workflow w s))"
  using assms unfolding store_inv_def ids_of_clear items_clear
  by (auto split: if_splits)

section \<open>Listings\<close>

lemma list_for_workflow_all:
  "store_inv s \<Longrightarrow> list_for_workflow s w None = map (\<lambda>i. the (items s i)) (ids_of s w)"
  by (auto simp: list_for_workflow_def store_inv_def intro!: arg_cong [where f = "map _"] filter_True)

lemma list_for_workflow_typed:
  "list_for_workflow s w (Some t) = filter (\<lambda>it. ctype it = t) (list_for_workflow s w None)"
  by (simp add: list_for_workflow_def Let_def)

lemma list_item:
  assumes "store_inv s"
  shows "it \<in> set (list_for_workflow s w None) \<longleftrightarrow>
    w \<noteq> [] \<and> workflow_id it = Some w \<and> items s (item_id it) = Some it"
proof
  assume "it \<in> set (list_for_workflow s w None)"
  then obtain i where "i \<in> set (ids_of s w)" "it = the (items s i)"
    by (auto simp: list_for_workflow_all [OF assms])
  then show "w \<noteq> [] \<and> workflow_id it = Some w \<and> items s (item_id it) = Some it"
    using assms by (auto simp: store_inv_def)
next
  assume it: "w \<noteq> [] \<and> workflow_id it = Some w \<and> items s (item_id it) = Some it"
  then have "item_id it \<in> set (ids_of s w)" using assms by (auto simp: store_inv_def)
  with it show "it \<in> set (list_for_workflow s w None)"
    by (force simp: list_for_workflow_all [OF assms])
qed

lemma list_ids: "store_inv s \<Longrightarrow> map item_id (list_for_workflow s w None) = ids_of s w"
  by (auto simp: list_for_workflow_all store_inv_def intro!: map_idI)

lemma list_add:
  assumes "store_inv s" "wf_item it" "items s (item_id it) = None"
  shows "list_for_workflow (store_add it s) w None =
    list_for_workflow s w None @ (if workflow_id it = Some w \<and> w \<noteq> [] then [it] else [])"
proof -
  have "i \<noteq> item_id it" if "i \<in> set (ids_of s w)" for i
    using that assms by (auto simp: store_inv_def)
  then show ?thesis
    using assms
    by (auto simp: list_for_workflow_all store_inv_add ids_of_add items_add)
qed

lemma list_delete:
  assumes "store_inv s"
  shows "list_for_workflow (snd (store_delete i s)) w None =
    filter (\<lambda>it. item_id it \<noteq> i) (list_for_workflow s w None)"
proof -
  have "item_id (the (items s j)) = j" if "j \<in> set (ids_of s w)" for j
    using that assms by (auto simp: store_inv_def)
  then have "filter (\<lambda>j. item_id (the (items s j)) \<noteq> i) (ids_of s w) = filter (\<lambda>j. j \<noteq> i) (ids_of s w)"
    by (auto intro: filter_cong)
  moreover have "map (\<lambda>j. the (((items s)(i := None)) j)) (filter (\<lambda>j. j \<noteq> i) (ids_of s w))
    = map (\<lambda>j. the (items s j)) (filter (\<lambda>j. j \<noteq> i) (ids_of s w))"
    by (rule map_cong) auto
  ultimately show ?thesis
    using assms
    by (simp add: list_for_workflow_all store_inv_delete ids_of_delete items_delete filter_map comp_def)
qed

lemma list_clear:
  assumes "store_inv s"
  shows "list_for_workflow (snd (clear_workflow w s)) v None =
    (if v = w then [] else list_for_workflow s v None)"
proof -
  have "i \<notin> set (ids_of s w)" if "i \<in> set (ids_of s v)" "v \<noteq> w" for i
    using that assms by (auto simp: store_inv_def)
  then show ?thesis
    using assms by (auto simp: list_for_workflow_all store_inv_clear ids_of_clear items_clear)
qed

section \<open>The contract of a workflow store\<close>

text \<open>
  What the context manager relies on when it replaces old items by a summary: how additions and
  removals show in the per-workflow listing, and that listed items have pairwise different ids.
\<close>

locale workflow_store =
  fixes add :: "'i \<Rightarrow> 's \<Rightarrow> 's"
    and remove :: "string \<Rightarrow> 's \<Rightarrow> 's"
    and listing :: "'s \<Rightarrow> string \<Rightarrow> 'i list"
    and ident :: "'i \<Rightarrow> string"
    and owner :: "'i \<Rightarrow> string option"
    and ok :: "'i \<Rightarrow> bool"
    and fresh :: "string \<Rightarrow> 's \<Rightarrow> bool"
    and invar :: "'s \<Rightarrow> bool"
  assumes listing_add:
      "invar s \<Longrightarrow> ok it \<Longrightarrow> fresh (ident it) s \<Longrightarrow>
       listing (add it s) w = listing s w @ (if owner it = Some w \<and> w \<noteq> [] then [it] else [])"
    and listing_remove:
      "invar s \<Longrightarrow> listing (remove i s) w = filter (\<lambda>it. ident it \<noteq> i) (listing s w)"
    and distinct_listing: "invar s \<Longrightarrow> distinct (map ident (listing s w))"
    and owner_listing: "invar s \<Longrightarrow> it \<in> set (listing s w) \<Longrightarrow> owner it = Some w"
    and invar_add: "invar s \<Longrightarrow> ok it \<Longrightarrow> fresh (ident it) s \<Longrightarrow> invar (add it s)"
    and invar_remove: "invar s \<Longrightarrow> invar (remove i s)"
    and fresh_remove: "invar s \<Longrightarrow> fresh i s \<Longrightarrow> fresh i (remove j s)"
begin

lemma invar_removes: "invar s \<Longrightarrow> invar (fold remove ids s)"
  by (induction ids arbitrary: s) (auto intro: invar_remove)

lemma fresh_removes: "invar s \<Longrightarrow> fresh i s \<Longrightarrow> fresh i (fold remove ids s)"
  by (induction ids arbitrary: s) (auto intro: invar_remove fresh_remove)

lemma listing_removes:
  "invar s \<Longrightarrow> listing (fold remove ids s) w = filter (\<lambda>it. ident it \<notin> set ids) (listing s w)"
proof (induction ids arbitrary: s)
  case (Cons i ids)
  then show ?case
    by (simp add: invar_remove listing_remove)
qed simp

lemma invar_replace:
  "invar s \<Longrightarrow> ok new \<Longrightarrow> fresh (ident new) s \<Longrightarrow> invar (add new (fold remove ids s))"
  by (intro invar_add invar_removes fresh_removes)

lemma listing_replace:
  "invar s \<Longrightarrow> ok new \<Longrightarrow> fresh (ident new) s \<Longrightarrow>
   listing (add new (fold remove ids s)) w =
     filter (\<lambda>it. ident it \<notin> set ids) (listing s w)
     @ (if owner new = Some w \<and> w \<noteq> [] then [new] else [])"
  by (simp add: listing_add invar_removes fresh_removes listing_removes)

lemma weight_removed:
  fixes f :: "'i \<Rightarrow> int"
  assumes "invar s" "set olds \<subseteq> set (listing s w)" "distinct (map ident olds)"
  shows "sum_by f (filter (\<lambda>it. ident it \<notin> ident ` set olds) (listing s w))
    = sum_by f (listing s w) - sum_by f olds"
proof -
  let ?l = "listing s w"
  have d: "distinct (map ident ?l)" by (rule distinct_listing [OF assms(1)])
  then have inj: "inj_on ident (set ?l)" and dl: "distinct ?l" by (auto simp: distinct_map)
  have "mset (filter (\<lambda>it. ident it \<in> ident ` set olds) ?l) = mset olds"
  proof (rule set_eq_iff_mset_eq_distinct [THEN iffD1])
    show "distinct (filter (\<lambda>it. ident it \<in> ident ` set olds) ?l)" using dl by simp
    show "distinct olds" using assms(3) by (simp add: distinct_map)
    show "set (filter (\<lambda>it. ident it \<in> ident ` set olds) ?l) = set olds"
      using assms(2) inj by (auto dest: inj_onD)
  qed
  then have "sum_by f (filter (\<lambda>it. ident it \<in> ident ` set olds) ?l) = sum_by f olds"
    by (rule sum_by_mset)
  then show ?thesis
    using sum_by_filter_split [of f "\<lambda>it. ident it \<in> ident ` set olds" ?l] by simp
qed

lemma weight_replace:
  fixes f :: "'i \<Rightarrow> int"
  assumes "invar s" "ok new" "fresh (ident new) s" "owner new = Some w" "w \<noteq> []"
    and "set olds \<subseteq> set (listing s w)" "distinct (map ident olds)"
  shows "sum_by f (listing (add new (fold remove (map ident olds) s)) w)
    = sum_by f (listing s w) - sum_by f olds + f new"
  using weight_removed [OF assms(1,6,7), of f] assms
  by (simp add: listing_replace)

end

abbreviation workflow_items :: "context_store \<Rightarrow> string \<Rightarrow> context_item list" where
  "workflow_items s w \<equiv> list_for_workflow s w None"

interpretation ctx: workflow_store store_add "\<lambda>i s. snd (store_delete i s)" workflow_items item_id
  workflow_id wf_item "\<lambda>i s. items s i = None" store_inv
proof unfold_locales
  fix s w assume "store_inv s"
  then show "distinct (map item_id (workflow_items s w))"
    by (simp add: list_ids) (simp add: store_inv_def)
qed (auto simp: list_add list_delete list_item items_delete intro: inv_intros)

section \<open>Operation sequences against a specification\<close>

datatype store_op =
    SAdd context_item | SGet real string | SDelete string | SClear string

fun store_apply :: "store_op \<Rightarrow> context_store \<Rightarrow> context_store" where
  "store_apply (SAdd it) s = store_add it s"
| "store_apply (SGet now i) s = snd (store_get now i s)"
| "store_apply (SDelete i) s = snd (store_delete i s)"
| "store_apply (SClear w) s = snd (clear_workflow w s)"

text \<open>The specification: for every workflow the list of its items, oldest first.\<close>

type_synonym store_spec = "string \<Rightarrow> context_item list"

fun spec_apply :: "store_op \<Rightarrow> store_spec \<Rightarrow> store_spec" where
  "spec_apply (SAdd it) a = (\<lambda>w. a w @ (if workflow_id it = Some w \<and> w \<noteq> [] then [it] else []))"
| "spec_apply (SGet now i) a = (\<lambda>w. map (\<lambda>it. if item_id it = i then touch now it else it) (a w))"
| "spec_apply (SDelete i) a = (\<lambda>w. filter (\<lambda>it. item_id it \<noteq> i) (a w))"
| "spec_apply (SClear v) a = a(v := [])"

fun added :: "store_op list \<Rightarrow> context_item list" where
  "added [] = []"
| "added (SAdd it # ops) = it # added ops"
| "added (_ # ops) = added ops"

lemma list_get:
  assumes "store_inv s"
  shows "workflow_items (snd (store_get now i s)) w =
    map (\<lambda>it. if item_id it = i then touch now it else it) (workflow_items s w)"
proof -
  have id: "item_id (the (items s j)) = j" if "j \<in> set (ids_of s w)" for j
    using that assms by (auto simp: store_inv_def)
  have "ids_of (snd (store_get now i s)) w = ids_of s w"
    by (auto simp: store_get_def ids_of_def split: option.split)
  moreover have "the (items (snd (store_get now i s)) j)
      = (if item_id (the (items s j)) = i then touch now (the (items s j)) else the (items s j))"
    if "j \<in> set (ids_of s w)" for j
  proof -
    from assms that have "\<exists>jt. items s j = Some jt" unfolding store_inv_def by blast
    then obtain jt where "items s j = Some jt" ..
    then show ?thesis using id [OF that] by (auto simp: store_get_def split: option.split)
  qed
  ultimately show ?thesis
    using assms by (simp add: list_for_workflow_all store_inv_get)
qed

lemma store_apply_refines:
  assumes "store_inv s" "\<And>it. op = SAdd it \<Longrightarrow> wf_item it \<and> items s (item_id it) = None"
  shows "store_inv (store_apply op s)"
    and "workflow_items (store_apply op s) = spec_apply op (workflow_items s)"
  using assms
  by (cases op; auto intro: inv_intros simp: list_add list_get list_delete list_clear fun_eq_iff)+

lemma dom_items_apply:
  "dom (items (store_apply op s)) \<subseteq> dom (items s) \<union> item_id ` set (added [op])"
  by (cases op) (auto simp: items_add items_delete items_clear store_get_def dom_def split: option.splits if_splits)

lemma store_run_refines:
  assumes "store_inv s" "list_all wf_item (added ops)" "distinct (map item_id (added ops))"
    and "dom (items s) \<inter> item_id ` set (added ops) = {}"
  shows "store_inv (fold store_apply ops s)
    \<and> workflow_items (fold store_apply ops s) = fold spec_apply ops (workflow_items s)"
  using assms
proof (induction ops arbitrary: s)
  case (Cons op ops)
  have ok: "wf_item it \<and> items s (item_id it) = None" if "op = SAdd it" for it
    using Cons.prems that by auto
  have "added (op # ops) = added [op] @ added ops" by (cases op) auto
  then have "dom (items (store_apply op s)) \<inter> item_id ` set (added ops) = {}"
    and "list_all wf_item (added ops)" "distinct (map item_id (added ops))"
    using Cons.prems dom_items_apply [of op s] by (auto simp: image_iff) blast
  with Cons.IH [of "store_apply op s"] store_apply_refines [OF Cons.prems(1) ok]
  show ?case by simp
qed simp

text \<open>
  C10. The store implements its specification: after any sequence of additions (of items with fresh
  ids), reads, deletions and workflow clearings, every workflow lists exactly the items the
  specification lists, in insertion order, and its token total is their sum.
\<close>

theorem store_refines_spec:
  assumes "list_all wf_item (added ops)" and "distinct (map item_id (added ops))"
  shows "workflow_items (fold store_apply ops empty_store) w = fold spec_apply ops (\<lambda>_. []) w
    \<and> store_total_tokens (fold store_apply ops empty_store) w
        = sum_by token_count (fold spec_apply ops (\<lambda>_. []) w)"
proof -
  have "workflow_items empty_store = (\<lambda>_. [])"
    by (auto simp: fun_eq_iff list_for_workflow_def empty_store_def ids_of_def)
  then have "workflow_items (fold store_apply ops empty_store) = fold spec_apply ops (\<lambda>_. [])"
    using store_run_refines [OF store_inv_empty assms] by (simp add: empty_store_def)
  then have "workflow_items (fold store_apply ops empty_store) w = fold spec_apply ops (\<lambda>_. []) w"
    by (rule fun_cong)
  then show ?thesis by (simp add: store_total_tokens_def)
qed

definition demo_item :: "string \<Rightarrow> string \<Rightarrow> real \<Rightarrow> context_item" where
  "demo_item i c t =
     (new_item \<lparr>fresh_id = i, clock1 = t, clock2 = t\<rparr> CONVERSATION c)\<lparr>workflow_id := Some ''wf''\<rparr>"

theorem store_refines_spec_witness:
  "map item_id (workflow_items (fold store_apply
     [SAdd (demo_item ''i'' ''hello'' 1), SAdd (demo_item ''j'' ''world'' 2), SDelete ''i''] empty_store) ''wf'')
   = [''j'']"
proof -
  let ?ops = "[SAdd (demo_item ''i'' ''hello'' 1), SAdd (demo_item ''j'' ''world'' 2), SDelete ''i'']"
  have "list_all wf_item (added ?ops)" "distinct (map item_id (added ?ops))"
    by (simp_all add: demo_item_def new_item_def wf_item_def)
  from store_refines_spec [OF this, of "''wf''"] show ?thesis
    by (simp add: demo_item_def new_item_def)
qed

end
