(* ===== verification/Artifacts.thy ===== *)
theory Artifacts
  imports ContextStore
begin

text \<open>
  \<^verbatim>\<open>context/artifacts.py\<close>: large content kept outside the prompt, the rule-based summary that
  stands for it, line-range excerpts and the small item that refers to it.
\<close>

section \<open>Summaries\<close>

datatype artifact_type = ART_FILE | TOOL_OUTPUT | LOG | DOCUMENT

definition default_summary_keywords :: "string list" where
  "default_summary_keywords = [''error'', ''fail'', ''exception'', ''traceback'']"

definition text_lines :: "string \<Rightarrow> string list" where
  "text_lines txt = (if splitlines txt = [] then [txt] else splitlines txt)"

definition matched_lines :: "string list \<Rightarrow> string list \<Rightarrow> string list" where
  "matched_lines ks ls = filter (\<lambda>l. list_ex (\<lambda>k. contains k (str_lower l)) ks) ls"

definition summary_header :: "string list \<Rightarrow> nat \<Rightarrow> nat \<Rightarrow> nat \<Rightarrow> string" where
  "summary_header ks n matched shown =
     (if matched \<noteq> 0
      then show_nat n @ '' lines total, '' @ show_nat matched @ '' matched '' @ repr_list ks @ '':''
      else show_nat n @ '' lines total, first '' @ show_nat shown @ '' shown:'')"

text \<open>The lines a summary shows, and how many it hides.\<close>

definition shown_lines :: "string \<Rightarrow> string list \<Rightarrow> int \<Rightarrow> string list \<times> int" where
  "shown_lines txt ks max_lines =
     (let ls = text_lines txt; ms = matched_lines ks ls; pool = (if ms \<noteq> [] then ms else ls);
          shown = py_slice pool 0 max_lines
      in (shown, int (length pool) - int (length shown)))"

definition hidden_note :: "int \<Rightarrow> string list" where
  "hidden_note hidden =
     (if 0 < hidden then [''... ('' @ show_int hidden @ '' more not shown)''] else [])"

definition summarize_text :: "string \<Rightarrow> string list \<Rightarrow> int \<Rightarrow> string" where
  "summarize_text txt ks max_lines =
     (let ls = text_lines txt; (shown, hidden) = shown_lines txt ks max_lines;
          header = summary_header ks (length ls) (length (matched_lines ks ls)) (length shown)
      in str_join newline (header # shown @ hidden_note hidden))"

section \<open>Artifacts and their store\<close>

record artifact =
  art_type :: artifact_type
  art_content :: string
  art_source :: "string option"
  art_id :: string
  art_summary :: string
  art_tokens :: int
  art_created_at :: real

definition new_artifact :: "stamp \<Rightarrow> artifact_type \<Rightarrow> string \<Rightarrow> string option \<Rightarrow> artifact" where
  "new_artifact st ty c src =
     \<lparr>art_type = ty, art_content = c, art_source = src, art_id = fresh_id st,
      art_summary = summarize_text c default_summary_keywords 10,
      art_tokens = estimate_tokens c, art_created_at = clock1 st\<rparr>"

type_synonym artifact_store = "string \<rightharpoonup> artifact"

definition artifact_create ::
  "stamp \<Rightarrow> artifact_type \<Rightarrow> string \<Rightarrow> string option \<Rightarrow> artifact_store \<Rightarrow> artifact \<times> artifact_store" where
  "artifact_create st ty c src s =
     (let a = new_artifact st ty c src in (a, s(art_id a \<mapsto> a)))"

definition artifact_get :: "artifact_store \<Rightarrow> string \<Rightarrow> artifact option" where
  "artifact_get s i = s i"

definition get_excerpt :: "artifact_store \<Rightarrow> string \<Rightarrow> int \<Rightarrow> int \<Rightarrow> string option" where
  "get_excerpt s i a b =
     (case artifact_get s i of None \<Rightarrow> None
      | Some art \<Rightarrow> Some (str_join newline (py_slice (splitlines (art_content art)) a b)))"

definition to_reference_item ::
  "stamp \<Rightarrow> artifact \<Rightarrow> string option \<Rightarrow> string option \<Rightarrow> context_item" where
  "to_reference_item st a wid ag =
     (new_item st SUMMARY (art_summary a))
       \<lparr>source := art_source a, workflow_id := wid, agent_id := ag, artifact_id := Some (art_id a)\<rparr>"

section \<open>Lemmas\<close>

abbreviation no_breaks :: "string \<Rightarrow> bool" where
  "no_breaks s \<equiv> \<forall>c \<in> set s. \<not> is_line_break c"

lemma take_line_newline: "no_breaks l \<Longrightarrow> take_line (l @ newline @ r) = (l, r)"
  by (induction l) (auto simp: newline_def is_line_break_def)

lemma splitlines_newline: "no_breaks l \<Longrightarrow> splitlines (l @ newline @ r) = l # splitlines r"
  by (simp add: splitlines_Cons take_line_newline newline_def)
    (metis append_Cons append_Nil fst_conv newline_def snd_conv take_line_newline)

lemma splitlines_join:
  "list_all no_breaks ls \<Longrightarrow> ls \<noteq> [] \<Longrightarrow> last ls \<noteq> [] \<Longrightarrow> splitlines (str_join newline ls) = ls"
proof (induction newline ls rule: str_join.induct)
  case (2 x)
  then show ?case by (simp add: splitlines_plain)
next
  case (3 x y xs)
  then show ?case by (simp add: splitlines_newline)
qed simp

lemma splitlines_join_length:
  "list_all no_breaks ls \<Longrightarrow> length (splitlines (str_join newline ls)) \<le> length ls"
proof (induction newline ls rule: str_join.induct)
  case (2 x)
  then show ?case by (cases "x = []") (simp_all add: splitlines_plain)
next
  case (3 x y xs)
  then show ?case by (simp add: splitlines_newline)
qed simp

lemma str_join_append:
  "xs \<noteq> [] \<Longrightarrow> ys \<noteq> [] \<Longrightarrow> str_join sep (xs @ ys) = str_join sep xs @ sep @ str_join sep ys"
proof (induction sep xs rule: str_join.induct)
  case (2 sep x)
  then show ?case by (cases ys) auto
qed auto

lemma set_str_join: "set (str_join sep xs) \<subseteq> set sep \<union> \<Union> (set (map set xs))"
  by (induction sep xs rule: str_join.induct) auto

lemma plain_show_nat: "no_breaks (show_nat n)"
  using show_nat_digits by (fastforce simp: is_line_break_def)

lemma plain_show_int: "no_breaks (show_int i)"
  using plain_show_nat [of "nat i"] plain_show_nat [of "nat (- i)"]
  by (simp add: show_int_def) (simp add: is_line_break_def)

lemma plain_hex_digit: "n < 16 \<Longrightarrow> \<not> is_line_break (hex_digit n)"
  by (auto simp: hex_digit_def is_line_break_def)

lemma plain_repr_char: "\<not> is_line_break q \<Longrightarrow> no_breaks (repr_char q c)"
proof -
  assume q: "\<not> is_line_break q"
  have "code c div 16 < 16" using nat_of_char_less_256 [of c] by (simp add: less_mult_imp_div_less)
  then show ?thesis
    using q plain_hex_digit [of "code c div 16"] plain_hex_digit [of "code c mod 16"]
    by (auto simp: repr_char_def backslash_def is_line_break_def)
qed

lemma plain_py_repr: "no_breaks (py_repr s)"
proof -
  define q where "q = (if apostrophe \<in> set s \<and> quote_char \<notin> set s then quote_char else apostrophe)"
  have q: "\<not> is_line_break q"
    by (simp add: q_def quote_char_def apostrophe_def is_line_break_def)
  have "py_repr s = q # concat (map (repr_char q) s) @ [q]"
    by (simp add: py_repr_def q_def Let_def)
  with q plain_repr_char [OF q] show ?thesis by auto
qed

lemma plain_repr_list: "no_breaks (repr_list ks)"
  using set_str_join [of "'', ''" "map py_repr ks"] plain_py_repr
  by (fastforce simp: repr_list_def is_line_break_def)

lemma plain_summary_header: "no_breaks (summary_header ks t m s)"
  using plain_show_nat plain_repr_list
  by (auto simp: summary_header_def is_line_break_def)

lemma plain_text_lines: "l \<in> set (text_lines c) \<Longrightarrow> no_breaks l"
  by (auto simp: text_lines_def split: if_splits dest: splitlines_no_break)

lemma shown_lines_sub:
  "set (fst (shown_lines c ks m)) \<subseteq> set (text_lines c)"
  using set_py_slice by (fastforce simp: shown_lines_def Let_def matched_lines_def split: if_splits)

lemma shown_lines_length: "0 \<le> m \<Longrightarrow> int (length (fst (shown_lines c ks m))) \<le> m"
  by (simp add: shown_lines_def Let_def py_slice_prefix)

lemma shown_lines_hidden:
  "snd (shown_lines c ks m) = int (length (if matched_lines ks (text_lines c) \<noteq> []
     then matched_lines ks (text_lines c) else text_lines c)) - int (length (fst (shown_lines c ks m)))"
  by (simp add: shown_lines_def Let_def)

lemma py_slice_inside:
  "0 \<le> x \<Longrightarrow> 0 \<le> y \<Longrightarrow> x \<le> int (length ls) \<Longrightarrow> y \<le> int (length ls) \<Longrightarrow>
   py_slice ls x y = drop (nat x) (take (nat y) ls)"
  by (simp add: py_slice_def slice_bound_def Let_def)

lemma py_slice_split:
  assumes "0 \<le> i" "i \<le> j" "j \<le> k" "k \<le> int (length ls)"
  shows "py_slice ls i k = py_slice ls i j @ py_slice ls j k"
proof -
  have "nat k = nat j + (nat k - nat j)" using assms by simp
  then have "take (nat k) ls = take (nat j) ls @ take (nat k - nat j) (drop (nat j) ls)"
    by (metis take_add)
  with assms show ?thesis by (simp add: py_slice_inside drop_take)
qed

lemma get_create_later:
  "x \<notin> (\<lambda>(st, ty, c, src). fresh_id st) ` set cs \<Longrightarrow>
   fold (\<lambda>(st, ty, c, src) s. snd (artifact_create st ty c src s)) cs t x = t x"
proof (induction cs arbitrary: t)
  case (Cons p cs)
  obtain st ty c src where "p = (st, ty, c, src)" by (cases p)
  with Cons show ?case by (simp add: artifact_create_def new_artifact_def Let_def)
qed simp

section \<open>Properties\<close>

text \<open>
  A summary is small whatever the content: at most \<open>max_lines\<close> lines of it, plus a header and
  a note. Every line it shows is a line of the content; if some line matches a keyword only
  matching lines are shown, and the note states how many more there are.
\<close>

theorem summary_bounded:
  assumes "0 \<le> m"
  shows "int (length (splitlines (summarize_text c ks m))) \<le> m + 2
    \<and> (\<exists>header shown. summarize_text c ks m = str_join newline (header # shown
          @ hidden_note (int (length (if matched_lines ks (text_lines c) \<noteq> []
              then matched_lines ks (text_lines c) else text_lines c)) - int (length shown)))
        \<and> no_breaks header \<and> int (length shown) \<le> m \<and> set shown \<subseteq> set (text_lines c)
        \<and> (matched_lines ks (text_lines c) \<noteq> []
             \<longrightarrow> prefix shown (matched_lines ks (text_lines c))))"
proof -
  obtain shown hidden where sh: "shown_lines c ks m = (shown, hidden)" by force
  define header where "header = summary_header ks (length (text_lines c))
    (length (matched_lines ks (text_lines c))) (length shown)"
  let ?ls = "header # shown @ hidden_note hidden"
  have eq: "summarize_text c ks m = str_join newline ?ls"
    by (simp add: summarize_text_def sh header_def Let_def)
  have len: "int (length shown) \<le> m" using shown_lines_length [OF assms, of c ks] sh by simp
  have sub: "set shown \<subseteq> set (text_lines c)" using shown_lines_sub [of c ks m] sh by simp
  have plain_note: "list_all no_breaks (hidden_note hidden)"
    using plain_show_int by (auto simp: hidden_note_def is_line_break_def)
  have header: "no_breaks header" unfolding header_def by (rule plain_summary_header)
  have "list_all no_breaks ?ls"
    using plain_note header sub plain_text_lines by (auto simp: list_all_iff)
  then have "length (splitlines (summarize_text c ks m)) \<le> length ?ls"
    unfolding eq by (rule splitlines_join_length)
  also have "\<dots> \<le> length shown + 2" by (simp add: hidden_note_def)
  finally have "int (length (splitlines (summarize_text c ks m))) \<le> m + 2" using len by simp
  moreover have "prefix shown (matched_lines ks (text_lines c))" if "matched_lines ks (text_lines c) \<noteq> []"
    using sh that assms by (auto simp: shown_lines_def Let_def py_slice_prefix take_is_prefix)
  ultimately show ?thesis
    using eq header len sub shown_lines_hidden [of c ks m] sh
    by - (intro conjI exI [of _ header] exI [of _ shown], simp_all)
qed

theorem summary_bounded_witness:
  "length (splitlines (summarize_text (''one'' @ newline @ ''Error: two'' @ newline @ ''three'') [''error''] 1)) \<le> 3"
  using summary_bounded [of 1 "''one'' @ newline @ ''Error: two'' @ newline @ ''three''" "[''error'']"] by simp

text \<open>
  What was stored can be read back: an artifact stays retrievable by its id with its whole
  content however many artifacts with other ids are created later, the item that refers to it
  carries that id and its summary only, and two adjacent excerpts joined are the excerpt of the
  joined range.
\<close>

theorem artifact_retrievable:
  assumes "artifact_create st ty c src s = (a, s')"
    and "later = fold (\<lambda>(st, ty, c, src) s. snd (artifact_create st ty c src s)) creations s'"
    and "art_id a \<notin> (\<lambda>(st, ty, c, src). fresh_id st) ` set creations"
    and "0 \<le> i" "i < j" "j < k" "k \<le> int (length (splitlines c))"
  shows "artifact_get later (art_id a) = Some a \<and> art_content a = c
    \<and> artifact_id (to_reference_item st' a wid ag) = Some (art_id a)
    \<and> content (to_reference_item st' a wid ag) = summarize_text c default_summary_keywords 10
    \<and> the (get_excerpt later (art_id a) i k)
        = the (get_excerpt later (art_id a) i j) @ newline @ the (get_excerpt later (art_id a) j k)"
proof -
  have a: "a = new_artifact st ty c src" and s': "s' = s(art_id a \<mapsto> a)"
    using assms(1) by (simp_all add: artifact_create_def Let_def) blast+
  have got: "later (art_id a) = Some a" using get_create_later [OF assms(3)] by (simp add: assms(2) s')
  have ac: "art_content a = c" by (simp add: a new_artifact_def)
  let ?ls = "splitlines c"
  have "py_slice ?ls i k = py_slice ?ls i j @ py_slice ?ls j k"
    using assms(4-7) by (intro py_slice_split) simp_all
  moreover have ne: "py_slice ?ls i j \<noteq> []" "py_slice ?ls j k \<noteq> []"
    using assms(4-7) by (simp_all add: py_slice_inside)
  ultimately have join: "str_join newline (py_slice ?ls i k)
      = str_join newline (py_slice ?ls i j) @ newline @ str_join newline (py_slice ?ls j k)"
    using str_join_append [OF ne] by simp
  have ex: "get_excerpt later (art_id a) x y = Some (str_join newline (py_slice ?ls x y))" for x y
    by (simp add: get_excerpt_def artifact_get_def got ac)
  have "art_summary a = summarize_text c default_summary_keywords 10"
    by (simp add: a new_artifact_def)
  with got ac join show ?thesis
    by (simp only: ex option.sel) (simp add: artifact_get_def to_reference_item_def new_item_def)
qed

theorem artifact_retrievable_witness:
  "the (get_excerpt (snd (artifact_create \<lparr>fresh_id = ''a'', clock1 = 0, clock2 = 0\<rparr> LOG
      (''x'' @ newline @ ''y'') None Map.empty)) ''a'' 0 2) = ''x'' @ newline @ ''y''"
proof -
  let ?st = "\<lparr>fresh_id = ''a'', clock1 = 0, clock2 = 0\<rparr>"
  let ?c = "''x'' @ newline @ ''y''"
  have sp: "splitlines ?c = [''x'', ''y'']"
    using splitlines_join [of "[''x'', ''y'']"] by (simp add: is_line_break_def)
  let ?s = "snd (artifact_create ?st LOG ?c None Map.empty)"
  have g: "?s ''a'' = Some (new_artifact ?st LOG ?c None)"
    by (simp add: artifact_create_def new_artifact_def Let_def)
  have e: "get_excerpt ?s ''a'' i j = Some (str_join newline (py_slice [''x'', ''y''] i j))" for i j
    by (simp only: get_excerpt_def artifact_get_def g option.case)
      (simp only: new_artifact_def artifact.select_convs sp)
  have "art_id (fst (artifact_create ?st LOG ?c None Map.empty)) = ''a''"
    by (simp add: artifact_create_def new_artifact_def Let_def)
  with artifact_retrievable [of ?st LOG ?c None Map.empty, OF prod.collapse [symmetric], of ?s "[]" 0 1 2] sp
  have "the (get_excerpt ?s ''a'' 0 2)
      = the (get_excerpt ?s ''a'' 0 1) @ newline @ the (get_excerpt ?s ''a'' 1 2)"
    by simp
  then show ?thesis by (simp only: e option.sel) (simp add: py_slice_def slice_bound_def)
qed

text \<open>
  The reference is not always smaller than the content: for a content of one line the summary
  repeats the line under a header, so the reference item weighs more than the content.
\<close>

theorem single_line_not_reduced:
  assumes "no_breaks c" and "c \<noteq> []"
  shows "token_count (to_reference_item st' (new_artifact st ty c src) wid ag) > art_tokens (new_artifact st ty c src)
    \<and> suffix c (content (to_reference_item st' (new_artifact st ty c src) wid ag))"
proof -
  have ls: "text_lines c = [c]" using assms by (simp add: text_lines_def splitlines_plain)
  have "shown_lines c ks 10 = ([c], 0)" for ks
    by (simp add: shown_lines_def ls matched_lines_def py_slice_def slice_bound_def Let_def)
  then obtain h where h: "summarize_text c default_summary_keywords 10 = h @ newline @ c"
      and "7 \<le> length h"
    by (auto simp: summarize_text_def hidden_note_def summary_header_def Let_def ls matched_lines_def)
  then have "length c + 7 \<le> length (summarize_text c default_summary_keywords 10)" by simp
  then have "estimate_tokens c < estimate_tokens (summarize_text c default_summary_keywords 10)"
    using assms(2) by (cases c) (auto simp: estimate_tokens_def)
  then show ?thesis
    using h by (simp add: to_reference_item_def new_item_def new_artifact_def suffix_def)
qed

theorem single_line_not_reduced_witness:
  "3 < token_count (to_reference_item \<lparr>fresh_id = ''b'', clock1 = 0, clock2 = 0\<rparr>
     (new_artifact \<lparr>fresh_id = ''a'', clock1 = 0, clock2 = 0\<rparr> ART_FILE ''twelve chars'' None) None None)"
proof -
  let ?a = "new_artifact \<lparr>fresh_id = ''a'', clock1 = 0, clock2 = 0\<rparr> ART_FILE ''twelve chars'' None"
  have "art_tokens ?a = 3" by (simp add: new_artifact_def estimate_tokens_def)
  moreover have "no_breaks ''twelve chars''" by (simp add: is_line_break_def)
  ultimately show ?thesis
    using single_line_not_reduced [of "''twelve chars''" _ ART_FILE] by (metis list.distinct(1))
qed

end
