(* ===== verification/ContextSelection.thy ===== *)
theory ContextSelection
  imports ContextStore
begin

text \<open>
  \<^verbatim>\<open>context/selection.py\<close>: five policies that pack the items of a workflow into a token budget,
  all over one greedy packer. The packer is stated for keys in any linear order, so its lemmas do
  not depend on how floats round.
\<close>

section \<open>Results\<close>

record selection_result =
  selected :: "context_item list"
  discarded :: "context_item list"
  policy :: string
  budget_tokens :: int
  candidate_tokens :: int
  selected_tokens :: int

text \<open>The constructor with its \<open>__post_init__\<close>.\<close>

definition make_result ::
  "context_item list \<Rightarrow> context_item list \<Rightarrow> string \<Rightarrow> int \<Rightarrow> selection_result" where
  "make_result sel dis p budget =
     \<lparr>selected = sel, discarded = dis, policy = p, budget_tokens = budget,
      candidate_tokens = sum_by token_count sel + sum_by token_count dis,
      selected_tokens = sum_by token_count sel\<rparr>"

definition tokens_saved :: "selection_result \<Rightarrow> int" where
  "tokens_saved r = candidate_tokens r - selected_tokens r"

section \<open>Scores\<close>

definition default_weights :: "real pydict" where
  "default_weights = [(''relevance'', 4 / 10), (''recency'', 3 / 10), (''importance'', 3 / 10)]"

definition policies :: "string list" where
  "policies = [''full'', ''recent'', ''relevance'', ''budget_aware'', ''hybrid'']"

text \<open>\<open>{i.id: v(i) for i in xs}\<close>: a repeated id keeps the last value.\<close>

definition dict_by_id :: "(context_item \<Rightarrow> real) \<Rightarrow> context_item list \<Rightarrow> real pydict" where
  "dict_by_id v xs = fold (\<lambda>i d. AList.update (item_id i) (v i) d) xs []"

definition recency_scores :: "context_item list \<Rightarrow> real pydict" where
  "recency_scores xs =
     (if xs = [] then []
      else
        (let times = map created_at xs; lo = Min (set times); hi = Max (set times)
         in if hi = lo then dict_by_id (\<lambda>_. 1) xs
            else dict_by_id (\<lambda>i. (created_at i - lo) / (hi - lo)) xs))"

definition dict_item :: "'v pydict \<Rightarrow> string \<Rightarrow> 'v result" where
  "dict_item d k = (case map_of d k of None \<Rightarrow> Inl (KeyError k) | Some v \<Rightarrow> Inr v)"

definition hybrid_score :: "context_item \<Rightarrow> real \<Rightarrow> real pydict \<Rightarrow> real result" where
  "hybrid_score it recency w =
     (case dict_item w ''relevance'' of Inl e \<Rightarrow> Inl e
      | Inr a \<Rightarrow> (case dict_item w ''recency'' of Inl e \<Rightarrow> Inl e
          | Inr b \<Rightarrow> (case dict_item w ''importance'' of Inl e \<Rightarrow> Inl e
              | Inr c \<Rightarrow> Inr (a * relevance it + b * recency + c * importance it))))"

definition py_true_div :: "real \<Rightarrow> int \<Rightarrow> real result" where
  "py_true_div a b = (if b = 0 then Inl ZeroDivisionError else Inr (a / of_int b))"

section \<open>The greedy packer\<close>

text \<open>The loop over the sorted candidates: a candidate that does not fit is skipped.\<close>

fun pack :: "context_item list \<Rightarrow> int \<Rightarrow> context_item list \<times> context_item list" where
  "pack [] remaining = ([], [])"
| "pack (it # its) remaining =
     (if token_count it \<le> remaining
      then (let (sel, dis) = pack its (remaining - token_count it) in (it # sel, dis))
      else (let (sel, dis) = pack its remaining in (sel, it # dis)))"

definition greedy_pack ::
  "context_item list \<Rightarrow> int \<Rightarrow> (context_item \<Rightarrow> 'k::linorder) \<Rightarrow> bool
     \<Rightarrow> context_item list \<times> context_item list" where
  "greedy_pack its budget key rv = pack (py_sorted key rv its) budget"

text \<open>A key that may raise: \<open>sorted\<close> computes every key, in list order, before it compares any.\<close>

fun first_error :: "(context_item \<Rightarrow> real result) \<Rightarrow> context_item list \<Rightarrow> py_exc option" where
  "first_error key [] = None"
| "first_error key (it # its) =
     (case key it of Inl e \<Rightarrow> Some e | Inr _ \<Rightarrow> first_error key its)"

definition greedy_pack_or_raise ::
  "context_item list \<Rightarrow> int \<Rightarrow> (context_item \<Rightarrow> real result) \<Rightarrow> (context_item list \<times> context_item list) result"
where
  "greedy_pack_or_raise its budget key =
     (case first_error key its of Some e \<Rightarrow> Inl e
      | None \<Rightarrow> Inr (greedy_pack its budget (\<lambda>i. projr (key i)) True))"

section \<open>select\_context\<close>

definition hybrid_key :: "real pydict \<Rightarrow> real pydict \<Rightarrow> context_item \<Rightarrow> real result" where
  "hybrid_key w recency it =
     (case dict_item recency (item_id it) of Inl e \<Rightarrow> Inl e
      | Inr r \<Rightarrow> (case hybrid_score it r w of Inl e \<Rightarrow> Inl e
          | Inr s \<Rightarrow> py_true_div s (token_count it)))"

definition select_context ::
  "context_item list \<Rightarrow> int \<Rightarrow> string \<Rightarrow> real pydict option \<Rightarrow> selection_result result" where
  "select_context its budget p weights =
     (if p \<notin> set policies then Inl (ValueError (''Unknown selection policy: '' @ py_repr p
            @ '' (expected one of '' @ repr_tuple policies @ '')''))
      else if p = ''full'' then
        (let (sel, dis) = greedy_pack its budget created_at False in Inr (make_result sel dis p budget))
      else if p = ''recent'' then
        (let (sel, dis) = greedy_pack its budget created_at True in Inr (make_result sel dis p budget))
      else if p = ''relevance'' then
        (let (sel, dis) = greedy_pack its budget relevance True in Inr (make_result sel dis p budget))
      else if p = ''budget_aware'' then
        (case greedy_pack_or_raise its budget (\<lambda>i. py_true_div (importance i) (token_count i)) of
           Inl e \<Rightarrow> Inl e | Inr (sel, dis) \<Rightarrow> Inr (make_result sel dis p budget))
      else
        (let w = (case weights of None \<Rightarrow> default_weights
                  | Some d \<Rightarrow> if d = [] then default_weights else d);
             recency = recency_scores its
         in case greedy_pack_or_raise its budget (hybrid_key w recency) of
              Inl e \<Rightarrow> Inl e | Inr (sel, dis) \<Rightarrow> Inr (make_result sel dis p budget)))"

section \<open>Lemmas on the packer\<close>

lemma pack_mset: "mset (fst (pack its r)) + mset (snd (pack its r)) = mset its"
  by (induction its r rule: pack.induct) (auto simp: case_prod_beta Let_def)

lemma pack_budget: "0 \<le> r \<Longrightarrow> sum_by token_count (fst (pack its r)) \<le> r"
proof (induction its r rule: pack.induct)
  case (2 it its r)
  then show ?case by (cases "token_count it \<le> r") (auto simp: case_prod_beta Let_def)
qed simp

lemma pack_nonneg:
  "(\<And>i. i \<in> set its \<Longrightarrow> 0 \<le> token_count i) \<Longrightarrow> 0 \<le> sum_by token_count (fst (pack its r))"
  by (induction its r rule: pack.induct) (auto simp: case_prod_beta Let_def)

lemma pack_maximal:
  "(\<And>i. i \<in> set its \<Longrightarrow> 0 \<le> token_count i) \<Longrightarrow> d \<in> set (snd (pack its r)) \<Longrightarrow>
   r < sum_by token_count (fst (pack its r)) + token_count d"
proof (induction its r rule: pack.induct)
  case (2 it its r)
  show ?case
  proof (cases "token_count it \<le> r")
    case True
    with 2 show ?thesis by (force simp: case_prod_beta Let_def)
  next
    case False
    show ?thesis
    proof (cases "d = it")
      case True
      have "0 \<le> sum_by token_count (fst (pack its r))"
        using "2.prems"(1) by (intro pack_nonneg) simp
      with True False show ?thesis by (simp add: case_prod_beta Let_def)
    next
      case False
      with 2 \<open>\<not> token_count it \<le> r\<close> show ?thesis by (force simp: case_prod_beta Let_def)
    qed
  qed
qed simp

lemma pack_all:
  "(\<And>i. i \<in> set its \<Longrightarrow> 0 \<le> token_count i) \<Longrightarrow> sum_by token_count its \<le> r \<Longrightarrow> pack its r = (its, [])"
proof (induction its r rule: pack.induct)
  case (2 it its r)
  have "0 \<le> sum_by token_count its" using "2.prems"(1) by (intro sum_by_nonneg) simp
  with 2 show ?case by simp
qed simp

lemma pack_subseq: "subseq (fst (pack its r)) its \<and> subseq (snd (pack its r)) its"
  by (induction its r rule: pack.induct) (auto simp: case_prod_beta Let_def)

text \<open>What every policy returns, for a packing of some ordering of the candidates.\<close>

definition packing_of :: "context_item list \<Rightarrow> int \<Rightarrow> selection_result \<Rightarrow> bool" where
  "packing_of its budget r \<longleftrightarrow>
     (\<exists>ord. mset ord = mset its \<and> selected r = fst (pack ord budget) \<and> discarded r = snd (pack ord budget)
        \<and> candidate_tokens r = sum_by token_count its
        \<and> selected_tokens r = sum_by token_count (selected r))"

lemma packing_of_greedy:
  assumes "greedy_pack its budget key rv = (sel, dis)"
  shows "packing_of its budget (make_result sel dis p budget)"
proof -
  let ?o = "py_sorted key rv its"
  have p: "pack ?o budget = (sel, dis)" using assms by (simp add: greedy_pack_def)
  have "mset (sel @ dis) = mset its" using pack_mset [of ?o budget] p by simp
  then have "sum_by token_count sel + sum_by token_count dis = sum_by token_count its"
    using sum_by_mset [of "sel @ dis" its token_count] by simp
  then show ?thesis
    unfolding packing_of_def by (intro exI [of _ ?o]) (simp add: p make_result_def)
qed

lemma select_context_packing:
  "select_context its budget p weights = Inr r \<Longrightarrow> packing_of its budget r \<and> policy r = p"
  by (auto simp: select_context_def greedy_pack_or_raise_def Let_def make_result_def
      dest!: packing_of_greedy [where p = p] split: if_splits prod.splits sum.splits option.splits)

lemma first_error_None: "first_error key its = None \<longleftrightarrow> (\<forall>i \<in> set its. \<exists>v. key i = Inr v)"
  by (induction its) (auto split: sum.split)

lemma map_of_dict_by_id:
  "map_of (fold (\<lambda>i d. AList.update (item_id i) (v i) d) xs d) k =
     (case map_of d k of x \<Rightarrow> if \<exists>i \<in> set xs. item_id i = k then Some (v (last (filter (\<lambda>i. item_id i = k) xs))) else x)"
  by (induction xs arbitrary: d) (auto simp: update_conv filter_empty_conv)

lemma dict_by_id_Some:
  "it \<in> set xs \<Longrightarrow> \<exists>jt \<in> set xs. item_id jt = item_id it \<and> map_of (dict_by_id v xs) (item_id it) = Some (v jt)"
proof -
  assume it: "it \<in> set xs"
  let ?f = "filter (\<lambda>i. item_id i = item_id it) xs"
  from it have "?f \<noteq> []" by (auto simp: filter_empty_conv)
  then have "last ?f \<in> set ?f" by (rule last_in_set)
  with it show ?thesis
    by (intro bexI [of _ "last ?f"]) (auto simp: dict_by_id_def map_of_dict_by_id)
qed

lemma recency_scores_range:
  assumes "it \<in> set xs"
  shows "\<exists>r. map_of (recency_scores xs) (item_id it) = Some r \<and> 0 \<le> r \<and> r \<le> 1"
proof -
  let ?lo = "Min (set (map created_at xs))" and ?hi = "Max (set (map created_at xs))"
  have ne: "xs \<noteq> []" using assms by auto
  have b: "?lo \<le> created_at j \<and> created_at j \<le> ?hi" if "j \<in> set xs" for j
    using that by (auto intro: Min_le Max_ge)
  show ?thesis
  proof (cases "?hi = ?lo")
    case True
    with dict_by_id_Some [OF assms, of "\<lambda>_. 1"] ne show ?thesis
      by (auto simp: recency_scores_def Let_def)
  next
    case False
    then have lt: "?lo < ?hi" using b [OF assms] by linarith
    obtain j where j: "j \<in> set xs"
      "map_of (recency_scores xs) (item_id it) = Some ((created_at j - ?lo) / (?hi - ?lo))"
      using dict_by_id_Some [OF assms, of "\<lambda>i. (created_at i - ?lo) / (?hi - ?lo)"] ne False
      by (auto simp: recency_scores_def Let_def)
    then show ?thesis using b [OF j(1)] lt by (auto simp: divide_le_eq)
  qed
qed

lemma select_context_total:
  assumes "p \<in> set policies" "\<And>i. i \<in> set its \<Longrightarrow> token_count i \<noteq> 0"
    and "weights = None \<or> weights = Some []"
  shows "\<exists>r. select_context its budget p weights = Inr r"
proof -
  have "\<exists>v. hybrid_key default_weights (recency_scores its) i = Inr v" if i: "i \<in> set its" for i
    using recency_scores_range [OF i] assms(2) [OF i]
    by (auto simp: hybrid_key_def dict_item_def hybrid_score_def default_weights_def py_true_div_def)
  then have "first_error (hybrid_key default_weights (recency_scores its)) its = None"
    by (simp add: first_error_None)
  moreover have "first_error (\<lambda>i. py_true_div (importance i) (token_count i)) its = None"
    using assms(2) by (auto simp: first_error_None py_true_div_def)
  ultimately show ?thesis
    using assms(1,3) by (auto simp: select_context_def greedy_pack_or_raise_def case_prod_beta Let_def)
qed

section \<open>Priorities\<close>

text \<open>
  The priority a policy gives an item: the sort key, negated where the order is ascending.
\<close>

definition weights_used :: "real pydict option \<Rightarrow> real pydict" where
  "weights_used weights =
     (case weights of None \<Rightarrow> default_weights | Some d \<Rightarrow> if d = [] then default_weights else d)"

definition priority :: "string \<Rightarrow> real pydict option \<Rightarrow> context_item list \<Rightarrow> context_item \<Rightarrow> real" where
  "priority p weights its i =
     (if p = ''full'' then - created_at i
      else if p = ''recent'' then created_at i
      else if p = ''relevance'' then relevance i
      else if p = ''budget_aware'' then importance i / of_int (token_count i)
      else projr (hybrid_key (weights_used weights) (recency_scores its) i))"

lemma pack_priority:
  assumes "sorted_wrt R its" "\<And>i. i \<in> set its \<Longrightarrow> 0 \<le> token_count i" "d \<in> set (snd (pack its r))"
  shows "r < token_count d + sum_by token_count (filter (\<lambda>i. R i d) (fst (pack its r)))"
  using assms
proof (induction its r rule: pack.induct)
  case (2 it its r)
  have nn: "0 \<le> sum_by token_count (filter (\<lambda>i. R i e) (fst (pack its q)))" for e q
  proof (rule sum_by_nonneg)
    fix i assume "i \<in> set (filter (\<lambda>i. R i e) (fst (pack its q)))"
    then have "i \<in> set its"
      using pack_subseq [of its q] by (auto dest: list_emb_set)
    then show "0 \<le> token_count i" using "2.prems"(2) by simp
  qed
  show ?case
  proof (cases "token_count it \<le> r")
    case True
    then have d: "d \<in> set (snd (pack its (r - token_count it)))"
      using "2.prems"(3) by (simp add: case_prod_beta Let_def)
    then have "d \<in> set its" using pack_subseq [of its "r - token_count it"] by (auto dest: list_emb_set)
    then have "R it d" using "2.prems"(1) by simp
    with "2.IH"(1) [OF True] "2.prems" d True show ?thesis by (simp add: case_prod_beta Let_def)
  next
    case False
    then have "d = it \<or> d \<in> set (snd (pack its r))"
      using "2.prems"(3) by (simp add: case_prod_beta Let_def)
    with "2.IH"(2) [OF False] "2.prems"(1,2) False nn [of it r] show ?thesis
      by (auto simp: case_prod_beta Let_def)
  qed
qed simp

lemma greedy_priority:
  assumes "greedy_pack its budget key rv = (sel, dis)" "\<And>i. i \<in> set its \<Longrightarrow> 0 \<le> token_count i"
    and "d \<in> set dis"
  shows "budget < token_count d
     + sum_by token_count (filter (\<lambda>i. if rv then key d \<le> key i else key i \<le> key d) sel)"
  using pack_priority [OF sorted_py_sorted [of rv key its], of d budget] assms
  by (simp add: greedy_pack_def)

text \<open>The key function each policy sorts by is its priority, up to the direction.\<close>

lemma select_context_priority:
  assumes "select_context its budget p weights = Inr r" "\<And>i. i \<in> set its \<Longrightarrow> 0 \<le> token_count i"
    and "d \<in> set (discarded r)"
  shows "budget < token_count d
     + sum_by token_count (filter (\<lambda>i. priority p weights its d \<le> priority p weights its i) (selected r))"
proof -
  have key: "\<exists>(key :: context_item \<Rightarrow> real) rv. greedy_pack its budget key rv = (selected r, discarded r)
      \<and> (\<forall>i \<in> set its. \<forall>j \<in> set its.
           (if rv then key i \<le> key j else key j \<le> key i)
             = (priority p weights its i \<le> priority p weights its j))"
  proof -
    consider "p = ''full''" | "p = ''recent''" | "p = ''relevance''" | "p = ''budget_aware''" | "p = ''hybrid''"
      using assms(1) by (auto simp: select_context_def policies_def split: if_splits)
    then show ?thesis
    proof cases
      case 1
      with assms(1) have "greedy_pack its budget created_at False = (selected r, discarded r)"
        by (auto simp: select_context_def make_result_def policies_def split: prod.splits)
      with 1 show ?thesis
        by - (rule exI [of _ created_at], rule exI [of _ False], simp add: priority_def)
    next
      case 2
      with assms(1) have "greedy_pack its budget created_at True = (selected r, discarded r)"
        by (auto simp: select_context_def make_result_def policies_def split: prod.splits)
      with 2 show ?thesis
        by - (rule exI [of _ created_at], rule exI [of _ True], simp add: priority_def)
    next
      case 3
      with assms(1) have "greedy_pack its budget relevance True = (selected r, discarded r)"
        by (auto simp: select_context_def make_result_def policies_def split: prod.splits)
      with 3 show ?thesis
        by - (rule exI [of _ relevance], rule exI [of _ True], simp add: priority_def)
    next
      case 4
      let ?k = "\<lambda>i. py_true_div (importance i) (token_count i)"
      have ok: "first_error ?k its = None"
        using assms(1) 4 by (auto simp: select_context_def policies_def greedy_pack_or_raise_def split: option.splits)
      then have eq: "projr (?k i) = priority p weights its i" if "i \<in> set its" for i
        using that 4 by (fastforce simp: first_error_None py_true_div_def priority_def split: if_splits)
      have "greedy_pack its budget (\<lambda>i. projr (?k i)) True = (selected r, discarded r)"
        using assms(1) 4 ok
        by (auto simp: select_context_def make_result_def policies_def greedy_pack_or_raise_def split: prod.splits)
      with eq show ?thesis
        by - (rule exI [of _ "\<lambda>i. projr (?k i)"], rule exI [of _ True], simp)
    next
      case 5
      let ?k = "\<lambda>i. projr (hybrid_key (weights_used weights) (recency_scores its) i)"
      have "greedy_pack its budget ?k True = (selected r, discarded r)"
        using assms(1) 5
        by (auto simp: select_context_def make_result_def policies_def greedy_pack_or_raise_def
            weights_used_def [symmetric] Let_def split: prod.splits option.splits)
      with 5 show ?thesis
        by - (rule exI [of _ ?k], rule exI [of _ True], simp add: priority_def)
    qed
  qed
  then obtain key :: "context_item \<Rightarrow> real" and rv where g: "greedy_pack its budget key rv = (selected r, discarded r)"
    and eq: "\<And>i j. i \<in> set its \<Longrightarrow> j \<in> set its \<Longrightarrow> (if rv then key i \<le> key j else key j \<le> key i)
             = (priority p weights its i \<le> priority p weights its j)"
    by blast
  have m: "mset (selected r) + mset (discarded r) = mset its"
    using pack_mset [of "py_sorted key rv its" budget] g by (simp add: greedy_pack_def)
  then have un: "set (selected r) \<union> set (discarded r) = set its"
    by (metis set_mset_mset set_mset_union)
  have "filter (\<lambda>i. if rv then key d \<le> key i else key i \<le> key d) (selected r)
    = filter (\<lambda>i. priority p weights its d \<le> priority p weights its i) (selected r)"
  proof (rule filter_cong [OF refl])
    fix x assume "x \<in> set (selected r)"
    then have "d \<in> set its" "x \<in> set its" using assms(3) un by auto
    then show "(if rv then key d \<le> key x else key x \<le> key d)
        = (priority p weights its d \<le> priority p weights its x)"
      by (rule eq)
  qed
  with greedy_priority [OF g assms(2,3)] show ?thesis by simp
qed

section \<open>Properties\<close>

text \<open>
  Every policy answers on the items of a store, and what it selects fits the budget: at most
  the budget when that is not negative, and nothing at all otherwise.
\<close>

theorem selection_within_budget:
  assumes "p \<in> set policies" and "\<And>i. i \<in> set its \<Longrightarrow> wf_item i" and "weights = None \<or> weights = Some []"
  shows "\<exists>r. select_context its budget p weights = Inr r \<and> policy r = p
    \<and> selected_tokens r \<le> max 0 budget \<and> (budget < 0 \<longrightarrow> selected r = [])"
proof -
  have pos: "1 \<le> token_count i" if "i \<in> set its" for i using assms(2) that wf_item_pos by blast
  then have nz: "token_count i \<noteq> 0" if "i \<in> set its" for i using that by fastforce
  obtain r where r: "select_context its budget p weights = Inr r"
    using select_context_total [OF assms(1) nz assms(3)] by blast
  then obtain ord where o: "mset ord = mset its" "selected r = fst (pack ord budget)"
      "selected_tokens r = sum_by token_count (selected r)" "policy r = p"
    using select_context_packing unfolding packing_of_def by blast
  have none: "fst (pack xs b) = []" if "\<And>i. i \<in> set xs \<Longrightarrow> 1 \<le> token_count i" "b < 0" for xs b
    using that by (induction xs b rule: pack.induct) (force simp: case_prod_beta Let_def)+
  have so: "set ord = set its" using o(1) by (rule mset_eq_setD)
  show ?thesis
  proof (cases "0 \<le> budget")
    case True
    with r o pack_budget [OF True, of ord] show ?thesis by auto
  next
    case False
    with none [of ord budget] pos so have "selected r = []" by (simp add: o(2))
    with r o False show ?thesis by auto
  qed
qed

theorem selection_within_budget_witness:
  "\<exists>r. select_context [demo_item ''i'' ''hello'' 1, demo_item ''j'' ''world'' 2] 1 ''hybrid'' None = Inr r
     \<and> selected_tokens r \<le> 1"
proof -
  have "wf_item i" if "i \<in> set [demo_item ''i'' ''hello'' 1, demo_item ''j'' ''world'' 2]" for i
    using that by (auto simp: demo_item_def new_item_def wf_item_def)
  then show ?thesis
    using selection_within_budget [of "''hybrid''"
        "[demo_item ''i'' ''hello'' 1, demo_item ''j'' ''world'' 2]" None 1]
    by (fastforce simp: policies_def)
qed

text \<open>
  A selection loses nothing: the selected and the discarded items together are the candidates,
  each as often as it was given, the reported totals are theirs, and when all candidates fit the
  budget none is discarded.
\<close>

theorem selection_partitions:
  assumes "select_context its budget p weights = Inr r"
    and "\<And>i. i \<in> set its \<Longrightarrow> wf_item i"
  shows "mset (selected r) + mset (discarded r) = mset its
    \<and> candidate_tokens r = sum_by token_count its
    \<and> tokens_saved r = sum_by token_count (discarded r)
    \<and> (sum_by token_count its \<le> budget \<longrightarrow> discarded r = [])"
proof -
  obtain ord where o: "mset ord = mset its" "selected r = fst (pack ord budget)"
      "discarded r = snd (pack ord budget)" "candidate_tokens r = sum_by token_count its"
      "selected_tokens r = sum_by token_count (selected r)"
    using select_context_packing [OF assms(1)] unfolding packing_of_def by blast
  have m: "mset (selected r) + mset (discarded r) = mset its" using pack_mset o by metis
  then have t: "sum_by token_count (selected r) + sum_by token_count (discarded r) = sum_by token_count its"
    using sum_by_mset [of "selected r @ discarded r" its token_count] by simp
  have pos: "0 \<le> token_count i" if "i \<in> set ord" for i
    using that assms(2) wf_item_pos mset_eq_setD [OF o(1)] by force
  have "discarded r = []" if "sum_by token_count its \<le> budget"
    using pack_all [of ord budget] pos that sum_by_mset [OF o(1), of token_count] o(3) by simp
  with m t o(4,5) show ?thesis by (simp add: tokens_saved_def)
qed

theorem selection_partitions_witness:
  "\<exists>r. select_context [demo_item ''i'' ''hello'' 1] 9 ''full'' None = Inr r \<and> discarded r = []"
proof -
  have w: "wf_item i" if "i \<in> set [demo_item ''i'' ''hello'' 1]" for i
    using that by (auto simp: demo_item_def new_item_def wf_item_def)
  obtain r where r: "select_context [demo_item ''i'' ''hello'' 1] 9 ''full'' None = Inr r"
    by (simp add: select_context_def policies_def case_prod_beta Let_def)
  with selection_partitions [OF r w] show ?thesis
    by (simp add: demo_item_def new_item_def estimate_tokens_def)
qed

text \<open>
  C11. The packing respects the policy's priority: an item is discarded only when it does not fit
  beside the selected items of at least its own priority. In particular no discarded item would
  fit beside the whole selection, and a lower-priority item never displaces a higher one.
\<close>

theorem selection_no_priority_inversion:
  assumes "select_context its budget p weights = Inr r"
    and "\<And>i. i \<in> set its \<Longrightarrow> wf_item i" and "d \<in> set (discarded r)"
  shows "budget < token_count d
      + sum_by token_count (filter (\<lambda>i. priority p weights its d \<le> priority p weights its i) (selected r))
    \<and> budget < token_count d + selected_tokens r"
proof -
  have pos: "0 \<le> token_count i" if "i \<in> set its" for i using that assms(2) wf_item_pos by force
  have p: "budget < token_count d
      + sum_by token_count (filter (\<lambda>i. priority p weights its d \<le> priority p weights its i) (selected r))"
    by (rule select_context_priority [OF assms(1) pos assms(3)])
  obtain ord where o: "mset ord = mset its" "selected r = fst (pack ord budget)"
      "selected_tokens r = sum_by token_count (selected r)" "discarded r = snd (pack ord budget)"
    using select_context_packing [OF assms(1)] unfolding packing_of_def by blast
  have "budget < sum_by token_count (fst (pack ord budget)) + token_count d"
    using pack_maximal [of ord d budget] pos assms(3) o mset_eq_setD [OF o(1)] by auto
  with p o(2,3) show ?thesis by simp
qed

theorem selection_no_priority_inversion_witness:
  "\<exists>r. select_context [demo_item ''i'' ''hello'' 1, demo_item ''j'' ''world'' 2] 1 ''recent'' None = Inr r
     \<and> discarded r = [demo_item ''i'' ''hello'' 1] \<and> 1 < 1 + selected_tokens r"
proof -
  let ?its = "[demo_item ''i'' ''hello'' 1, demo_item ''j'' ''world'' 2]"
  have w: "wf_item i" if "i \<in> set ?its" for i
    using that by (auto simp: demo_item_def new_item_def wf_item_def)
  obtain r where r: "select_context ?its 1 ''recent'' None = Inr r"
      and d: "discarded r = [demo_item ''i'' ''hello'' 1]"
    by (simp add: select_context_def policies_def greedy_pack_def py_sorted_def demo_item_def new_item_def
        estimate_tokens_def make_result_def)
  then have "demo_item ''i'' ''hello'' 1 \<in> set (discarded r)" by simp
  from selection_no_priority_inversion [OF r w this] r d show ?thesis
    by (simp add: demo_item_def new_item_def estimate_tokens_def)
qed

text \<open>
  The hybrid score of an item, before it is divided by the token count, lies between 0 and the
  sum of the three weights whenever the weights are not negative and the item's importance and
  relevance are between 0 and 1; the recency score it uses exists for every candidate and is
  between 0 and 1.
\<close>

theorem hybrid_score_bounds:
  assumes "it \<in> set its" and "0 \<le> relevance it" "relevance it \<le> 1" "0 \<le> importance it" "importance it \<le> 1"
    and "map_of w ''relevance'' = Some a" "map_of w ''recency'' = Some b" "map_of w ''importance'' = Some c"
    and "0 \<le> a" "0 \<le> b" "0 \<le> c"
  shows "\<exists>rec s. map_of (recency_scores its) (item_id it) = Some rec \<and> 0 \<le> rec \<and> rec \<le> 1
    \<and> hybrid_score it rec w = Inr s \<and> 0 \<le> s \<and> s \<le> a + b + c"
proof -
  obtain rec where rec: "map_of (recency_scores its) (item_id it) = Some rec" "0 \<le> rec" "rec \<le> 1"
    using recency_scores_range [OF assms(1)] by blast
  have "hybrid_score it rec w = Inr (a * relevance it + b * rec + c * importance it)"
    using assms by (simp add: hybrid_score_def dict_item_def)
  moreover have "a * relevance it \<le> a" "b * rec \<le> b" "c * importance it \<le> c"
    using assms rec by (simp_all add: mult_left_le)
  ultimately show ?thesis using rec assms by simp
qed

theorem hybrid_score_bounds_witness:
  "\<exists>rec s. hybrid_score (demo_item ''i'' ''hello'' 1) rec default_weights = Inr s \<and> 0 \<le> s \<and> s \<le> 1"
  using hybrid_score_bounds [of "demo_item ''i'' ''hello'' 1" "[demo_item ''i'' ''hello'' 1]"
      default_weights "4 / 10" "3 / 10" "3 / 10"]
  by (auto simp: demo_item_def new_item_def default_weights_def)

end
