(* ===== verification/ContextManager.thy ===== *)
theory ContextManager
  imports Artifacts ContextSelection
begin

text \<open>
  \<^verbatim>\<open>context/manager.py\<close> and the item part of \<^verbatim>\<open>context/compression.py\<close>: recording, budgeted
  retrieval and compression of old context. Compression awaits the summarizer between choosing the
  old items and replacing them, so it is two steps with an outcome argument; the store may have
  changed in between. The store laws come from the interpretation \<open>ctx\<close>.
\<close>

section \<open>State\<close>

record context_manager =
  cm_store :: context_store
  cm_artifacts :: artifact_store
  compressions_total :: nat
  tokens_saved_total :: int

definition new_manager :: context_manager where
  "new_manager = \<lparr>cm_store = empty_store, cm_artifacts = Map.empty, compressions_total = 0, tokens_saved_total = 0\<rparr>"

section \<open>Recording and retrieval\<close>

definition cm_record ::
  "stamp \<Rightarrow> string \<Rightarrow> context_type \<Rightarrow> string option \<Rightarrow> string option \<Rightarrow> string option \<Rightarrow> real
     \<Rightarrow> context_manager \<Rightarrow> context_item \<times> context_manager" where
  "cm_record st txt ty wid ag src imp m =
     (let it = (new_item st ty txt)\<lparr>workflow_id := wid, agent_id := ag, source := src, importance := imp\<rparr>
      in (it, m\<lparr>cm_store := store_add it (cm_store m)\<rparr>))"

definition cm_record_artifact ::
  "stamp \<Rightarrow> stamp \<Rightarrow> string \<Rightarrow> artifact_type \<Rightarrow> string option \<Rightarrow> string option \<Rightarrow> string option
     \<Rightarrow> context_manager \<Rightarrow> context_item \<times> context_manager" where
  "cm_record_artifact st1 st2 txt ty wid ag src m =
     (let (a, as) = artifact_create st1 ty txt src (cm_artifacts m);
          it = to_reference_item st2 a wid ag
      in (it, m\<lparr>cm_artifacts := as, cm_store := store_add it (cm_store m)\<rparr>))"

definition cm_get_artifact :: "context_manager \<Rightarrow> string \<Rightarrow> artifact option" where
  "cm_get_artifact m i = artifact_get (cm_artifacts m) i"

definition cm_get_artifact_excerpt :: "context_manager \<Rightarrow> string \<Rightarrow> int \<Rightarrow> int \<Rightarrow> string option" where
  "cm_get_artifact_excerpt m i a b = get_excerpt (cm_artifacts m) i a b"

definition get_candidate_context :: "context_manager \<Rightarrow> string \<Rightarrow> context_item list" where
  "get_candidate_context m w = list_for_workflow (cm_store m) w None"

definition get_budgeted_context ::
  "context_manager \<Rightarrow> string \<Rightarrow> int \<Rightarrow> string \<Rightarrow> selection_result result" where
  "get_budgeted_context m w budget p = select_context (get_candidate_context m w) budget p None"

definition cm_total_tokens :: "context_manager \<Rightarrow> string \<Rightarrow> int" where
  "cm_total_tokens m w = store_total_tokens (cm_store m) w"

section \<open>Compression\<close>

record compression_result =
  original_items :: "context_item list"
  summary_item :: context_item
  tokens_before :: int
  tokens_after :: int

definition make_compression :: "context_item list \<Rightarrow> context_item \<Rightarrow> compression_result" where
  "make_compression olds it =
     \<lparr>original_items = olds, summary_item = it, tokens_before = sum_by token_count olds,
      tokens_after = token_count it\<rparr>"

definition compression_saved :: "compression_result \<Rightarrow> int" where
  "compression_saved r = tokens_before r - tokens_after r"

text \<open>What \<open>compress_items\<close> sends to the summarizer.\<close>

definition combined_content :: "context_item list \<Rightarrow> string" where
  "combined_content its = str_join (newline @ newline) (map content its)"

definition summary_of ::
  "stamp \<Rightarrow> string \<Rightarrow> context_item list \<Rightarrow> string option \<Rightarrow> string option \<Rightarrow> context_item" where
  "summary_of st txt its wid ag =
     (new_item st SUMMARY txt)
       \<lparr>source := Some ''compression'',
        workflow_id := (case wid of Some w \<Rightarrow> Some w | None \<Rightarrow> workflow_id (hd its)),
        agent_id := (case ag of Some a \<Rightarrow> Some a | None \<Rightarrow> agent_id (hd its)),
        importance := Max (set (map importance its))\<rparr>"

definition compress_items ::
  "stamp \<Rightarrow> context_item list \<Rightarrow> string result \<Rightarrow> string option \<Rightarrow> string option \<Rightarrow> compression_result result" where
  "compress_items st its outcome wid ag =
     (if its = [] then Inl (ValueError ''compress_items requires at least one item'')
      else (case outcome of Inl e \<Rightarrow> Inl e
            | Inr txt \<Rightarrow> Inr (make_compression its (summary_of st txt its wid ag))))"

text \<open>\<open>compress_old_context\<close> up to the await: the items to fold, oldest first.\<close>

definition old_candidates ::
  "context_store \<Rightarrow> string \<Rightarrow> int option \<Rightarrow> context_type option \<Rightarrow> context_item list" where
  "old_candidates s w max_items ty =
     (let cs = list_for_workflow s w None;
          cs = (case ty of None \<Rightarrow> cs | Some t \<Rightarrow> filter (\<lambda>c. ctype c = t) cs);
          cs = py_sorted created_at False cs
      in case max_items of None \<Rightarrow> cs | Some n \<Rightarrow> py_slice cs 0 n)"

text \<open>The rest, from the summarizer's answer on.\<close>

definition replace_items :: "compression_result \<Rightarrow> context_store \<Rightarrow> context_store" where
  "replace_items r s =
     store_add (summary_item r)
       (fold (\<lambda>i s. snd (store_delete i s)) (map item_id (original_items r)) s)"

definition finish_compression ::
  "stamp \<Rightarrow> string \<Rightarrow> context_item list \<Rightarrow> string result \<Rightarrow> context_manager
     \<Rightarrow> compression_result result \<times> context_manager" where
  "finish_compression st w olds outcome m =
     (case compress_items st olds outcome (Some w) None of
        Inl e \<Rightarrow> (Inl e, m)
      | Inr r \<Rightarrow> (Inr r, m\<lparr>cm_store := replace_items r (cm_store m)\<rparr>))"

text \<open>The whole method when nothing else runs during the await.\<close>

definition compress_old_context ::
  "stamp \<Rightarrow> string \<Rightarrow> (string \<Rightarrow> string result) \<Rightarrow> int option \<Rightarrow> context_type option \<Rightarrow> context_manager
     \<Rightarrow> compression_result option result \<times> context_manager" where
  "compress_old_context st w summarizer max_items ty m =
     (let olds = old_candidates (cm_store m) w max_items ty
      in if olds = [] then (Inr None, m)
         else (case finish_compression st w olds (summarizer (combined_content olds)) m of
                 (Inl e, m') \<Rightarrow> (Inl e, m') | (Inr r, m') \<Rightarrow> (Inr (Some r), m')))"

text \<open>\<open>compress_if_over_budget\<close> up to the await: the items to fold, or nothing to do.\<close>

definition due_items :: "context_store \<Rightarrow> string \<Rightarrow> int \<Rightarrow> int \<Rightarrow> context_item list option" where
  "due_items s w threshold_tokens keep_recent =
     (if store_total_tokens s w \<le> threshold_tokens then None
      else
        (let conversation_count = int (length (list_for_workflow s w (Some CONVERSATION)));
             old_count = conversation_count - keep_recent
         in if old_count < 2 then None
            else
              (let olds = old_candidates s w (Some old_count) (Some CONVERSATION)
               in if olds = [] then None else Some olds)))"

text \<open>
  The end of it: the two counters. \<open>inc\<close> is the Prometheus counter's answer to an amount, the
  exception it raises if any; the store has been changed by then.
\<close>

definition count_compression ::
  "(int \<Rightarrow> py_exc option) \<Rightarrow> compression_result \<Rightarrow> context_manager \<Rightarrow> unit result \<times> context_manager" where
  "count_compression inc r m =
     (let m' = m\<lparr>compressions_total := compressions_total m + 1\<rparr>
      in case inc (compression_saved r) of
           Some e \<Rightarrow> (Inl e, m')
         | None \<Rightarrow> (Inr (), m'\<lparr>tokens_saved_total := tokens_saved_total m' + compression_saved r\<rparr>))"

definition finish_due ::
  "(int \<Rightarrow> py_exc option) \<Rightarrow> stamp \<Rightarrow> string \<Rightarrow> context_item list \<Rightarrow> string result \<Rightarrow> context_manager
     \<Rightarrow> compression_result option result \<times> context_manager" where
  "finish_due inc st w olds outcome m =
     (case finish_compression st w olds outcome m of
        (Inl e, m') \<Rightarrow> (Inl e, m')
      | (Inr r, m') \<Rightarrow> (case count_compression inc r m' of
           (Inl e, m'') \<Rightarrow> (Inl e, m'') | (Inr _, m'') \<Rightarrow> (Inr (Some r), m'')))"

definition compress_if_over_budget ::
  "(int \<Rightarrow> py_exc option) \<Rightarrow> stamp \<Rightarrow> string \<Rightarrow> (string \<Rightarrow> string result) \<Rightarrow> int \<Rightarrow> int \<Rightarrow> context_manager
     \<Rightarrow> compression_result option result \<times> context_manager" where
  "compress_if_over_budget inc st w summarizer threshold_tokens keep_recent m =
     (case due_items (cm_store m) w threshold_tokens keep_recent of
        None \<Rightarrow> (Inr None, m)
      | Some olds \<Rightarrow> finish_due inc st w olds (summarizer (combined_content olds)) m)"


section \<open>Lemmas\<close>

lemma summary_of_sel [simp]:
  "item_id (summary_of st txt its wid ag) = fresh_id st" "wf_item (summary_of st txt its wid ag)"
  "token_count (summary_of st txt its wid ag) = estimate_tokens txt"
  "workflow_id (summary_of st txt its (Some w) ag) = Some w" "ctype (summary_of st txt its wid ag) = SUMMARY"
  by (simp_all add: summary_of_def new_item_def wf_item_def)

lemma old_candidates_eq:
  "old_candidates s w (Some n) (Some t) =
     py_slice (py_sorted created_at False (list_for_workflow s w (Some t))) 0 n"
  by (simp add: old_candidates_def list_for_workflow_typed)

lemma old_candidates_sub: "set (old_candidates s w n ty) \<subseteq> set (workflow_items s w)"
  by (auto simp: old_candidates_def Let_def split: option.splits dest!: set_py_slice [THEN subsetD])

lemma due_items_eq:
  "due_items s w thr keep = Some olds \<longleftrightarrow>
     thr < store_total_tokens s w
     \<and> 2 \<le> int (length (list_for_workflow s w (Some CONVERSATION))) - keep
     \<and> olds \<noteq> []
     \<and> olds = old_candidates s w (Some (int (length (list_for_workflow s w (Some CONVERSATION))) - keep))
         (Some CONVERSATION)"
  by (auto simp: due_items_def Let_def not_le not_less)

lemma due_items_sub: "due_items s w thr keep = Some olds \<Longrightarrow> set olds \<subseteq> set (workflow_items s w)"
  using old_candidates_sub by (auto simp: due_items_eq)

lemma distinct_sorted_prefix:
  assumes "distinct (map item_id xs)"
  shows "distinct (map item_id (py_slice (py_sorted created_at False (filter P xs)) 0 n))"
proof -
  let ?s = "py_sorted created_at False (filter P xs)"
  have "distinct (map item_id (filter P xs))" using assms by (rule distinct_map_filter)
  then have "distinct (map item_id ?s)"
    by (metis mset_map mset_py_sorted mset_eq_imp_distinct_iff)
  then show ?thesis
    by (simp add: py_slice_def Let_def slice_bound_def drop_map [symmetric] take_map [symmetric])
qed

lemma due_items_distinct:
  "store_inv s \<Longrightarrow> due_items s w thr keep = Some olds \<Longrightarrow> distinct (map item_id olds)"
  using distinct_sorted_prefix [OF ctx.distinct_listing]
  by (simp add: due_items_eq old_candidates_eq list_for_workflow_typed)

lemma due_items_workflow:
  "store_inv s \<Longrightarrow> due_items s w thr keep = Some olds \<Longrightarrow> w \<noteq> []"
proof -
  assume inv: "store_inv s" and d: "due_items s w thr keep = Some olds"
  have "olds \<noteq> []" using d unfolding due_items_eq by blast
  then obtain it where "it \<in> set olds" by (cases olds) auto
  then have "it \<in> set (workflow_items s w)" using due_items_sub [OF d] by blast
  then show ?thesis by (simp add: list_item [OF inv])
qed

lemma total_eq: "store_total_tokens s w = sum_by token_count (workflow_items s w)"
  by (simp add: store_total_tokens_def)

lemma finish_compression_Inr:
  "olds \<noteq> [] \<Longrightarrow> finish_compression st w olds (Inr txt) m =
     (Inr (make_compression olds (summary_of st txt olds (Some w) None)),
      m\<lparr>cm_store := store_add (summary_of st txt olds (Some w) None)
          (fold (\<lambda>i s. snd (store_delete i s)) (map item_id olds) (cm_store m))\<rparr>)"
  by (simp add: finish_compression_def compress_items_def replace_items_def make_compression_def)

lemma finish_due_store:
  "cm_store (snd (finish_due inc st w olds outcome m)) = cm_store (snd (finish_compression st w olds outcome m))"
  by (auto simp: finish_due_def count_compression_def Let_def split: prod.split sum.split option.split)

text \<open>What finishing does to the store, at any later store that still satisfies the invariant.\<close>

lemma finish_due_listing:
  assumes "store_inv (cm_store m)" "items (cm_store m) (fresh_id st) = None" "olds \<noteq> []" "w \<noteq> []"
  shows "store_inv (cm_store (snd (finish_due inc st w olds (Inr txt) m)))"
    and "workflow_items (cm_store (snd (finish_due inc st w olds (Inr txt) m))) v =
      filter (\<lambda>it. item_id it \<notin> item_id ` set olds) (workflow_items (cm_store m) v)
      @ (if v = w then [summary_of st txt olds (Some w) None] else [])"
  using assms ctx.invar_replace [of "cm_store m" "summary_of st txt olds (Some w) None" "map item_id olds"]
    ctx.listing_replace [of "cm_store m" "summary_of st txt olds (Some w) None" "map item_id olds" v]
  by (simp_all add: finish_due_store finish_compression_Inr)

lemma items_fold_delete:
  "items (fold (\<lambda>i s. snd (store_delete i s)) ids s) j = (if j \<in> set ids then None else items s j)"
  by (induction ids arbitrary: s) (auto simp: items_delete)

lemma items_finish_due:
  "olds \<noteq> [] \<Longrightarrow> j \<noteq> fresh_id st \<Longrightarrow>
   items (cm_store (snd (finish_due inc st w olds (Inr txt) m))) j
     = (if j \<in> item_id ` set olds then None else items (cm_store m) j)"
  by (simp add: finish_due_store finish_compression_Inr items_add items_fold_delete)

lemma other_workflow_disjoint:
  assumes "store_inv s" "set olds \<subseteq> set (workflow_items s w)" "v \<noteq> w" "it \<in> set (workflow_items s v)"
  shows "item_id it \<notin> item_id ` set olds"
proof
  assume "item_id it \<in> item_id ` set olds"
  then obtain jt where jt: "jt \<in> set (workflow_items s w)" "item_id jt = item_id it" using assms(2) by auto
  then have "jt = it" using assms(1,4) by (simp add: list_item)
  with jt(1) have "workflow_id it = Some w" by (simp add: ctx.owner_listing [OF assms(1)])
  moreover have "workflow_id it = Some v" by (rule ctx.owner_listing [OF assms(1,4)])
  ultimately show False using assms(3) by simp
qed


lemma finish_due_saved:
  assumes "olds \<noteq> []" "finish_due inc st w olds (Inr txt) m = (Inr (Some r), m')"
  shows "tokens_saved_total m' = tokens_saved_total m + (sum_by token_count olds - estimate_tokens txt)"
proof -
  let ?r = "make_compression olds (summary_of st txt olds (Some w) None)"
  have "inc (compression_saved ?r) = None"
    using assms by (cases "inc (compression_saved ?r)")
      (simp_all add: finish_due_def finish_compression_Inr count_compression_def)
  moreover have "compression_saved ?r = sum_by token_count olds - estimate_tokens txt"
    by (simp add: compression_saved_def make_compression_def)
  ultimately show ?thesis
    using assms by (auto simp: finish_due_def finish_compression_Inr count_compression_def Let_def)
qed

section \<open>Properties\<close>

text \<open>
  C7. A successful compression replaces exactly the chosen items by one summary: the workflow lists
  its other items in their order and then the summary, its total changes by the reported saving,
  every other workflow is untouched, and the store stays well formed.
\<close>

theorem compression_replaces:
  assumes "store_inv (cm_store m)" and "due_items (cm_store m) w thr keep = Some olds"
    and "items (cm_store m) (fresh_id st) = None"
    and "finish_due inc st w olds (Inr txt) m = (Inr (Some r), m')"
  shows "store_inv (cm_store m')
    \<and> original_items r = olds \<and> summary_item r = summary_of st txt olds (Some w) None
    \<and> workflow_items (cm_store m') w
        = filter (\<lambda>it. item_id it \<notin> item_id ` set olds) (workflow_items (cm_store m) w) @ [summary_item r]
    \<and> cm_total_tokens m' w = cm_total_tokens m w - compression_saved r
    \<and> (\<forall>v. v \<noteq> w \<longrightarrow> workflow_items (cm_store m') v = workflow_items (cm_store m) v)"
proof -
  note inv = assms(1) and due = assms(2)
  have ne: "olds \<noteq> []" using due unfolding due_items_eq by blast
  have w: "w \<noteq> []" by (rule due_items_workflow [OF inv due])
  note sub = due_items_sub [OF due]
  have m': "m' = snd (finish_due inc st w olds (Inr txt) m)" using assms(4) by simp
  note listing = finish_due_listing [OF inv assms(3) ne w, of inc "txt", folded m']
  have r: "r = make_compression olds (summary_of st txt olds (Some w) None)"
    using assms(4) ne
    by (auto simp: finish_due_def finish_compression_Inr split: prod.splits sum.splits)
  have "sum_by token_count (workflow_items (cm_store m') w)
      = sum_by token_count (workflow_items (cm_store m) w) - sum_by token_count olds + estimate_tokens txt"
    using ctx.weight_removed [OF inv sub due_items_distinct [OF inv due], of token_count]
    by (simp add: listing(2))
  then have "cm_total_tokens m' w = cm_total_tokens m w - compression_saved r"
    by (simp add: cm_total_tokens_def total_eq compression_saved_def r make_compression_def)
  moreover have "workflow_items (cm_store m') v = workflow_items (cm_store m) v" if "v \<noteq> w" for v
    using other_workflow_disjoint [OF inv sub that] that by (simp add: listing(2) filter_id_conv)
  ultimately show ?thesis using listing r by (simp add: make_compression_def)
qed

definition demo_items :: "context_item list" where
  "demo_items = [demo_item ''a'' ''first question'' 1, demo_item ''b'' ''first answer'' 2,
     demo_item ''c'' ''second question'' 3, demo_item ''d'' ''second answer'' 4]"

definition demo_manager :: context_manager where
  "demo_manager = new_manager\<lparr>cm_store := fold store_apply (map SAdd demo_items) empty_store\<rparr>"

lemma demo_item_sel [simp]:
  "item_id (demo_item i c t) = i" "content (demo_item i c t) = c" "ctype (demo_item i c t) = CONVERSATION"
  "created_at (demo_item i c t) = t" "workflow_id (demo_item i c t) = Some ''wf''"
  "token_count (demo_item i c t) = estimate_tokens c" "wf_item (demo_item i c t)"
  by (simp_all add: demo_item_def new_item_def wf_item_def)

lemma added_SAdd [simp]: "added (map SAdd its) = its"
  by (induction its) auto

lemma demo_manager_store:
  "store_inv (cm_store demo_manager)"
  "workflow_items (cm_store demo_manager) = fold spec_apply (map SAdd demo_items) (workflow_items empty_store)"
  using store_run_refines [OF store_inv_empty, of "map SAdd demo_items"]
  by (simp_all add: demo_manager_def demo_items_def empty_store_def)

lemma demo_manager_inv: "store_inv (cm_store demo_manager)"
  by (rule demo_manager_store(1))

lemma demo_manager_items: "workflow_items (cm_store demo_manager) ''wf'' = demo_items"
  by (rule trans [OF fun_cong [OF demo_manager_store(2)]]) (simp add: demo_items_def list_for_workflow_def ids_of_def empty_store_def)

lemma demo_manager_conversation:
  "list_for_workflow (cm_store demo_manager) ''wf'' (Some CONVERSATION) = demo_items"
  by (simp add: list_for_workflow_typed demo_manager_items) (simp add: demo_items_def)

lemma demo_sorted: "py_sorted created_at False demo_items = demo_items"
  by (simp add: py_sorted_def demo_items_def)

lemma demo_manager_due: "due_items (cm_store demo_manager) ''wf'' 5 2 =
    Some [demo_item ''a'' ''first question'' 1, demo_item ''b'' ''first answer'' 2]"
  by (simp add: due_items_eq total_eq old_candidates_eq demo_manager_conversation demo_manager_items demo_sorted)
    (simp add: demo_items_def estimate_tokens_def py_slice_def slice_bound_def)

lemma items_fold_SAdd:
  "j \<notin> item_id ` set its \<Longrightarrow> items (fold store_apply (map SAdd its) s) j = items s j"
  by (induction its arbitrary: s) (auto simp: items_add)

lemma demo_manager_fresh: "j \<notin> {''a'', ''b'', ''c'', ''d''} \<Longrightarrow> items (cm_store demo_manager) j = None"
  using items_fold_SAdd [of j demo_items empty_store]
  by (simp add: demo_manager_def demo_items_def) (simp add: empty_store_def)

lemma demo_finish: "\<exists>r m'. finish_due (\<lambda>_. None) \<lparr>fresh_id = ''s'', clock1 = 9, clock2 = 9\<rparr> ''wf''
    [demo_item ''a'' ''first question'' 1, demo_item ''b'' ''first answer'' 2] (Inr ''short'') demo_manager
    = (Inr (Some r), m')"
  by (simp add: finish_due_def finish_compression_Inr count_compression_def Let_def)

theorem compression_replaces_witness:
  "\<exists>r m'. finish_due (\<lambda>_. None) \<lparr>fresh_id = ''s'', clock1 = 9, clock2 = 9\<rparr> ''wf''
      [demo_item ''a'' ''first question'' 1, demo_item ''b'' ''first answer'' 2] (Inr ''short'') demo_manager
      = (Inr (Some r), m')
    \<and> map item_id (workflow_items (cm_store m') ''wf'') = [''c'', ''d'', ''s'']"
proof -
  let ?st = "\<lparr>fresh_id = ''s'', clock1 = 9, clock2 = 9\<rparr>"
  let ?olds = "[demo_item ''a'' ''first question'' 1, demo_item ''b'' ''first answer'' 2]"
  obtain r m' where f: "finish_due (\<lambda>_. None) ?st ''wf'' ?olds (Inr ''short'') demo_manager = (Inr (Some r), m')"
    using demo_finish by blast
  have "items (cm_store demo_manager) (fresh_id ?st) = None" using demo_manager_fresh by simp
  from compression_replaces [OF demo_manager_inv demo_manager_due this f] f show ?thesis
    by (simp add: demo_manager_items) (simp add: demo_items_def)
qed

text \<open>
  Compression is due only above the threshold, only conversation turns are folded, at least two
  of them, exactly \<open>keep_recent\<close> turns are kept, and none of the kept turns is older than a folded
  one.
\<close>

theorem compression_keeps_recent:
  assumes "store_inv s" and "due_items s w thr keep = Some olds" and "0 \<le> keep"
  shows "thr < store_total_tokens s w \<and> 2 \<le> length olds
    \<and> (\<exists>kept. mset olds + mset kept = mset (list_for_workflow s w (Some CONVERSATION))
        \<and> int (length kept) = keep
        \<and> (\<forall>i \<in> set olds. \<forall>j \<in> set kept. created_at i \<le> created_at j))"
proof -
  let ?conv = "list_for_workflow s w (Some CONVERSATION)"
  let ?sorted = "py_sorted created_at False ?conv"
  let ?n = "nat (int (length ?conv) - keep)"
  have olds: "olds = take ?n ?sorted" and n: "2 \<le> int (length ?conv) - keep"
      and thr: "thr < store_total_tokens s w"
    using assms(2) by (auto simp: due_items_eq old_candidates_eq py_slice_prefix)
  have "mset olds + mset (drop ?n ?sorted) = mset ?conv"
    by (simp only: olds mset_append [symmetric] append_take_drop_id mset_py_sorted)
  moreover have "int (length (drop ?n ?sorted)) = keep" using n assms(3) by simp
  moreover have "sorted_wrt (\<lambda>i j. created_at i \<le> created_at j) (olds @ drop ?n ?sorted)"
    using sorted_py_sorted [of False created_at ?conv] by (simp add: olds)
  then have "\<forall>i \<in> set olds. \<forall>j \<in> set (drop ?n ?sorted). created_at i \<le> created_at j"
    by (simp add: sorted_wrt_append)
  moreover have "2 \<le> length olds" using n assms(3) by (simp add: olds)
  ultimately show ?thesis using thr by blast
qed

theorem compression_keeps_recent_witness:
  "\<exists>kept. mset [demo_item ''a'' ''first question'' 1, demo_item ''b'' ''first answer'' 2] + mset kept
     = mset (list_for_workflow (cm_store demo_manager) ''wf'' (Some CONVERSATION)) \<and> length kept = 2"
proof -
  have "(0 :: int) \<le> 2" by simp
  from compression_keeps_recent [OF demo_manager_inv demo_manager_due this] obtain kept where
    "mset [demo_item ''a'' ''first question'' 1, demo_item ''b'' ''first answer'' 2] + mset kept
       = mset (list_for_workflow (cm_store demo_manager) ''wf'' (Some CONVERSATION))" "int (length kept) = 2"
    by blast
  then show ?thesis by - (rule exI [of _ kept], simp)
qed

text \<open>
  When the workflow is within the threshold, or has fewer than two turns to fold, nothing
  happens and the summarizer's answer is irrelevant; when the summarizer fails, its exception is
  passed on and neither the store nor the counters have changed.
\<close>

theorem compression_no_effect:
  "((cm_total_tokens m w \<le> thr
      \<or> int (length (list_for_workflow (cm_store m) w (Some CONVERSATION))) - keep < 2)
     \<longrightarrow> compress_if_over_budget inc st w summarizer thr keep m = (Inr None, m))
   \<and> (due_items (cm_store m) w thr keep = Some olds \<and> summarizer (combined_content olds) = Inl e
     \<longrightarrow> compress_if_over_budget inc st w summarizer thr keep m = (Inl e, m))"
proof -
  have "finish_due inc st w olds (Inl e) m = (Inl e, m)" if "olds \<noteq> []"
    using that by (simp add: finish_due_def finish_compression_def compress_items_def)
  then show ?thesis
    by (auto simp: compress_if_over_budget_def due_items_def cm_total_tokens_def Let_def split: if_splits)
qed

theorem compression_no_effect_witness:
  "compress_if_over_budget (\<lambda>_. None) \<lparr>fresh_id = ''s'', clock1 = 9, clock2 = 9\<rparr> ''wf''
     (\<lambda>_. Inl (RuntimeError ''down'')) 5 2 demo_manager = (Inl (RuntimeError ''down''), demo_manager)"
  using compression_no_effect [of demo_manager "''wf''"] demo_manager_due by simp

text \<open>
  C30. Turns recorded while the summarizer runs survive: after the compression the workflow lists
  the items that were not folded, then the turns added in the meantime, then the summary.
\<close>

theorem compression_keeps_later_turns:
  assumes "store_inv (cm_store m)" and "due_items (cm_store m) w thr keep = Some olds"
    and "list_all wf_item its" and "distinct (fresh_id st # map item_id its)"
    and "\<And>i. i \<in> set (fresh_id st # map item_id its) \<Longrightarrow> items (cm_store m) i = None"
    and "cm_store later = fold store_apply (map SAdd its) (cm_store m)"
  shows "workflow_items (cm_store (snd (finish_due inc st w olds (Inr txt) later))) w =
      filter (\<lambda>it. item_id it \<notin> item_id ` set olds) (workflow_items (cm_store m) w)
      @ filter (\<lambda>it. workflow_id it = Some w) its @ [summary_of st txt olds (Some w) None]"
proof -
  have ne: "olds \<noteq> []" using assms(2) unfolding due_items_eq by blast
  have w: "w \<noteq> []" by (rule due_items_workflow [OF assms(1,2)])
  have "dom (items (cm_store m)) \<inter> item_id ` set (added (map SAdd its)) = {}"
    using assms(5) by force
  from store_run_refines [OF assms(1) _ _ this] assms(3,4)
  have inv: "store_inv (cm_store later)"
    and items: "workflow_items (cm_store later) = fold spec_apply (map SAdd its) (workflow_items (cm_store m))"
    by (simp_all add: assms(6))
  have add: "fold spec_apply (map SAdd its) a w = a w @ filter (\<lambda>it. workflow_id it = Some w) its" for a
    using w by (induction its arbitrary: a) auto
  have fresh: "items (cm_store later) (fresh_id st) = None"
    using assms(4,5) items_fold_SAdd [of "fresh_id st" its "cm_store m"] by (simp add: assms(6))
  have kept: "filter (\<lambda>it. workflow_id it = Some w \<and> item_id it \<notin> item_id ` set olds) its
      = filter (\<lambda>it. workflow_id it = Some w) its"
  proof (rule filter_cong [OF refl])
    fix it assume it: "it \<in> set its"
    have "item_id it \<notin> item_id ` set olds"
    proof
      assume "item_id it \<in> item_id ` set olds"
      then obtain jt where "jt \<in> set (workflow_items (cm_store m) w)" "item_id jt = item_id it"
        using due_items_sub [OF assms(2)] by auto
      then have "items (cm_store m) (item_id it) \<noteq> None" by (simp add: list_item [OF assms(1)])
      with assms(5) [of "item_id it"] it show False by simp
    qed
    then show "(workflow_id it = Some w \<and> item_id it \<notin> item_id ` set olds) = (workflow_id it = Some w)"
      by simp
  qed
  have "workflow_items (cm_store later) w
      = workflow_items (cm_store m) w @ filter (\<lambda>it. workflow_id it = Some w) its"
    by (rule trans [OF fun_cong [OF items] add])
  with finish_due_listing(2) [OF inv fresh ne w, of inc "txt" w] kept show ?thesis
    by (simp add: filter_filter conj_commute)
qed

theorem compression_keeps_later_turns_witness:
  "map item_id (workflow_items (cm_store (snd (finish_due (\<lambda>_. None) \<lparr>fresh_id = ''s'', clock1 = 9, clock2 = 9\<rparr>
      ''wf'' [demo_item ''a'' ''first question'' 1, demo_item ''b'' ''first answer'' 2] (Inr ''short'')
      (demo_manager\<lparr>cm_store := store_add (demo_item ''e'' ''third question'' 5) (cm_store demo_manager)\<rparr>)))) ''wf'')
   = [''c'', ''d'', ''e'', ''s'']"
proof -
  let ?st = "\<lparr>fresh_id = ''s'', clock1 = 9, clock2 = 9\<rparr>"
  let ?its = "[demo_item ''e'' ''third question'' 5]"
  let ?later = "demo_manager\<lparr>cm_store := store_add (demo_item ''e'' ''third question'' 5) (cm_store demo_manager)\<rparr>"
  have "list_all wf_item ?its" "distinct (fresh_id ?st # map item_id ?its)" by simp_all
  moreover have "items (cm_store demo_manager) i = None" if "i \<in> set (fresh_id ?st # map item_id ?its)" for i
    using that by (auto intro: demo_manager_fresh)
  moreover have "cm_store ?later = fold store_apply (map SAdd ?its) (cm_store demo_manager)" by simp
  ultimately show ?thesis
    using compression_keeps_later_turns [OF demo_manager_inv demo_manager_due, of ?its ?st ?later]
    by (simp add: demo_manager_items demo_items_def)
qed

text \<open>
  Two compressions of the same workflow that both choose their items before either finishes
  fold the same items twice: the workflow ends with two summaries of them, and the second one is
  reported with the full saving although it removed nothing.
\<close>

theorem concurrent_compressions_duplicate:
  assumes "store_inv (cm_store m)" and "due_items (cm_store m) w thr keep = Some olds"
    and "items (cm_store m) (fresh_id st1) = None" and "items (cm_store m) (fresh_id st2) = None"
    and "fresh_id st1 \<noteq> fresh_id st2"
    and "finish_due inc st1 w olds (Inr txt1) m = (Inr (Some r1), m1)"
    and "finish_due inc st2 w olds (Inr txt2) m1 = (Inr (Some r2), m2)"
  shows "workflow_items (cm_store m2) w =
      filter (\<lambda>it. item_id it \<notin> item_id ` set olds) (workflow_items (cm_store m) w)
      @ [summary_of st1 txt1 olds (Some w) None, summary_of st2 txt2 olds (Some w) None]
    \<and> tokens_saved_total m2 = tokens_saved_total m
        + (sum_by token_count olds - estimate_tokens txt1) + (sum_by token_count olds - estimate_tokens txt2)
    \<and> cm_total_tokens m2 w = cm_total_tokens m w - sum_by token_count olds
        + estimate_tokens txt1 + estimate_tokens txt2"
proof -
  note inv = assms(1) and due = assms(2)
  have ne: "olds \<noteq> []" using due unfolding due_items_eq by blast
  have w: "w \<noteq> []" by (rule due_items_workflow [OF inv due])
  have m1: "m1 = snd (finish_due inc st1 w olds (Inr txt1) m)" using assms(6) by simp
  have m2: "m2 = snd (finish_due inc st2 w olds (Inr txt2) m1)" using assms(7) by simp
  note l1 = finish_due_listing [OF inv assms(3) ne w, of inc "txt1", folded m1]
  have "items (cm_store m1) (fresh_id st2) = None"
    using items_finish_due [OF ne, of "fresh_id st2" st1] assms(4,5) by (simp add: m1)
  note l2 = finish_due_listing [OF l1(1) this ne w, of inc "txt2", folded m2]
  have notin: "fresh_id st1 \<notin> item_id ` set olds"
  proof
    assume "fresh_id st1 \<in> item_id ` set olds"
    then obtain it where "it \<in> set (workflow_items (cm_store m) w)" "fresh_id st1 = item_id it"
      using due_items_sub [OF due] by auto
    with assms(3) show False by (simp add: list_item [OF inv])
  qed
  have items: "workflow_items (cm_store m2) w =
      filter (\<lambda>it. item_id it \<notin> item_id ` set olds) (workflow_items (cm_store m) w)
      @ [summary_of st1 txt1 olds (Some w) None, summary_of st2 txt2 olds (Some w) None]"
    using notin by (simp add: l1(2) l2(2) filter_filter)
  have "tokens_saved_total m2 = tokens_saved_total m
        + (sum_by token_count olds - estimate_tokens txt1) + (sum_by token_count olds - estimate_tokens txt2)"
    using finish_due_saved [OF ne assms(6)] finish_due_saved [OF ne assms(7)] by simp
  moreover have "cm_total_tokens m2 w = cm_total_tokens m w - sum_by token_count olds
      + estimate_tokens txt1 + estimate_tokens txt2"
    using ctx.weight_removed [OF inv due_items_sub [OF due] due_items_distinct [OF inv due], of token_count]
    by (simp add: cm_total_tokens_def total_eq items)
  ultimately show ?thesis using items by (intro conjI)
qed

theorem concurrent_compressions_duplicate_witness:
  "\<exists>r1 m1 r2 m2. finish_due (\<lambda>_. None) \<lparr>fresh_id = ''s'', clock1 = 9, clock2 = 9\<rparr> ''wf''
      [demo_item ''a'' ''first question'' 1, demo_item ''b'' ''first answer'' 2] (Inr ''short'') demo_manager
      = (Inr (Some r1), m1)
    \<and> finish_due (\<lambda>_. None) \<lparr>fresh_id = ''t'', clock1 = 9, clock2 = 9\<rparr> ''wf''
      [demo_item ''a'' ''first question'' 1, demo_item ''b'' ''first answer'' 2] (Inr ''short'') m1
      = (Inr (Some r2), m2)
    \<and> map item_id (workflow_items (cm_store m2) ''wf'') = [''c'', ''d'', ''s'', ''t'']"
proof -
  let ?st = "\<lambda>i. \<lparr>fresh_id = i, clock1 = 9, clock2 = 9\<rparr>"
  let ?olds = "[demo_item ''a'' ''first question'' 1, demo_item ''b'' ''first answer'' 2]"
  have ex: "\<exists>r m'. finish_due (\<lambda>_. None) (?st i) ''wf'' ?olds (Inr ''short'') n = (Inr (Some r), m')" for i n
    by (simp add: finish_due_def finish_compression_Inr count_compression_def Let_def)
  obtain r1 m1 where f1: "finish_due (\<lambda>_. None) (?st ''s'') ''wf'' ?olds (Inr ''short'') demo_manager = (Inr (Some r1), m1)"
    using ex by blast
  obtain r2 m2 where f2: "finish_due (\<lambda>_. None) (?st ''t'') ''wf'' ?olds (Inr ''short'') m1 = (Inr (Some r2), m2)"
    using ex by blast
  have "items (cm_store demo_manager) (fresh_id (?st ''s'')) = None"
    "items (cm_store demo_manager) (fresh_id (?st ''t'')) = None" "fresh_id (?st ''s'') \<noteq> fresh_id (?st ''t'')"
    using demo_manager_fresh by simp_all
  from concurrent_compressions_duplicate [OF demo_manager_inv demo_manager_due this f1 f2] f1 f2
  show ?thesis by (simp add: demo_manager_items demo_items_def)
qed

text \<open>
  A summary longer than what it replaces is an error too late: a counter that rejects negative
  amounts raises, so the caller sees an exception, but the items have already been replaced and the
  compression has been counted.
\<close>

theorem longer_summary_raises:
  assumes "store_inv (cm_store m)" and "due_items (cm_store m) w thr keep = Some olds"
    and "items (cm_store m) (fresh_id st) = None"
    and "sum_by token_count olds < estimate_tokens txt" and "\<And>n. n < 0 \<Longrightarrow> inc n = Some e"
  shows "\<exists>m'. finish_due inc st w olds (Inr txt) m = (Inl e, m')
    \<and> compressions_total m' = compressions_total m + 1 \<and> tokens_saved_total m' = tokens_saved_total m
    \<and> workflow_items (cm_store m') w
        = filter (\<lambda>it. item_id it \<notin> item_id ` set olds) (workflow_items (cm_store m) w)
          @ [summary_of st txt olds (Some w) None]
    \<and> cm_total_tokens m w < cm_total_tokens m' w"
proof -
  note inv = assms(1) and due = assms(2)
  have ne: "olds \<noteq> []" using due unfolding due_items_eq by blast
  have w: "w \<noteq> []" by (rule due_items_workflow [OF inv due])
  define m' where "m' = snd (finish_due inc st w olds (Inr txt) m)"
  note l = finish_due_listing [OF inv assms(3) ne w, of inc "txt", folded m'_def]
  have "compression_saved (make_compression olds (summary_of st txt olds (Some w) None)) < 0"
    using assms(4) by (simp add: compression_saved_def make_compression_def)
  then have "inc (compression_saved (make_compression olds (summary_of st txt olds (Some w) None))) = Some e"
    by (rule assms(5))
  then have f: "finish_due inc st w olds (Inr txt) m = (Inl e, m')
      \<and> compressions_total m' = compressions_total m + 1 \<and> tokens_saved_total m' = tokens_saved_total m"
    using ne by (simp add: m'_def finish_due_def finish_compression_Inr count_compression_def Let_def)
  have "cm_total_tokens m w < cm_total_tokens m' w"
    using ctx.weight_removed [OF inv due_items_sub [OF due] due_items_distinct [OF inv due], of token_count] assms(4)
    by (simp add: cm_total_tokens_def total_eq l(2))
  with f l(2) [of w] show ?thesis by simp
qed

theorem longer_summary_raises_witness:
  "\<exists>m'. finish_due (\<lambda>n. if n < 0 then Some (ValueError ''negative'') else None)
      \<lparr>fresh_id = ''s'', clock1 = 9, clock2 = 9\<rparr> ''wf''
      [demo_item ''a'' ''first question'' 1, demo_item ''b'' ''first answer'' 2]
      (Inr ''the summary is longer than both of the turns'') demo_manager = (Inl (ValueError ''negative''), m')
    \<and> compressions_total m' = 1"
proof -
  let ?st = "\<lparr>fresh_id = ''s'', clock1 = 9, clock2 = 9\<rparr>"
  let ?inc = "\<lambda>n::int. if n < 0 then Some (ValueError ''negative'') else None"
  have "items (cm_store demo_manager) (fresh_id ?st) = None" using demo_manager_fresh by simp
  moreover have "sum_by token_count [demo_item ''a'' ''first question'' 1, demo_item ''b'' ''first answer'' 2]
      < estimate_tokens ''the summary is longer than both of the turns''"
    by (simp add: estimate_tokens_def)
  moreover have "?inc n = Some (ValueError ''negative'')" if "n < 0" for n using that by simp
  ultimately obtain m' where "finish_due ?inc ?st ''wf''
      [demo_item ''a'' ''first question'' 1, demo_item ''b'' ''first answer'' 2]
      (Inr ''the summary is longer than both of the turns'') demo_manager = (Inl (ValueError ''negative''), m')"
      "compressions_total m' = compressions_total demo_manager + 1"
    using longer_summary_raises [OF demo_manager_inv demo_manager_due, of ?st _ ?inc] by blast
  then show ?thesis by - (rule exI [of _ m'], simp add: demo_manager_def new_manager_def)
qed

text \<open>
  C22. Budgeted retrieval answers for every policy, returns only items of the workflow, each at most
  once, and their tokens fit the budget.
\<close>

theorem budgeted_context_fits:
  assumes "store_inv (cm_store m)" and "p \<in> set policies" and "0 \<le> budget"
  shows "\<exists>r. get_budgeted_context m w budget p = Inr r
    \<and> set (selected r) \<subseteq> set (workflow_items (cm_store m) w)
    \<and> distinct (map item_id (selected r @ discarded r))
    \<and> sum_by token_count (selected r) \<le> budget
    \<and> (cm_total_tokens m w \<le> budget \<longrightarrow> mset (selected r) = mset (workflow_items (cm_store m) w))"
proof -
  let ?its = "workflow_items (cm_store m) w"
  have wf: "wf_item i" if "i \<in> set ?its" for i
    using that assms(1) by (auto simp: list_item [OF assms(1)] store_inv_def)
  then have pos: "1 \<le> token_count i" if "i \<in> set ?its" for i using that wf_item_pos by blast
  have "token_count i \<noteq> 0" if "i \<in> set ?its" for i using pos [OF that] by simp
  then obtain r where r: "select_context ?its budget p None = Inr r"
    using select_context_total [OF assms(2)] by blast
  then obtain ord where o: "mset ord = mset ?its" "selected r = fst (pack ord budget)"
      "discarded r = snd (pack ord budget)"
    using select_context_packing unfolding packing_of_def by blast
  have m: "mset (selected r) + mset (discarded r) = mset ?its" using pack_mset o by metis
  then have mm: "mset (selected r @ discarded r) = mset ?its" by simp
  then have "distinct (map item_id (selected r @ discarded r))"
    by (metis ctx.distinct_listing [OF assms(1)] mset_eq_imp_distinct_iff mset_map)
  moreover have "set (selected r) \<subseteq> set ?its" using mset_eq_setD [OF mm] by auto
  moreover have "sum_by token_count (selected r) \<le> budget" using pack_budget [OF assms(3)] by (simp add: o(2))
  moreover have "mset (selected r) = mset ?its" if "cm_total_tokens m w \<le> budget"
  proof -
    have "sum_by token_count ord \<le> budget"
      using that sum_by_mset [OF o(1), of token_count] by (simp add: cm_total_tokens_def total_eq)
    moreover have "0 \<le> token_count i" if "i \<in> set ord" for i
      using that pos mset_eq_setD [OF o(1)] by force
    ultimately have "pack ord budget = (ord, [])" by (intro pack_all) auto
    then show ?thesis using o by simp
  qed
  ultimately show ?thesis using r by (auto simp: get_budgeted_context_def get_candidate_context_def)
qed

theorem budgeted_context_fits_witness:
  "\<exists>r. get_budgeted_context demo_manager ''wf'' 8 ''hybrid'' = Inr r
    \<and> sum_by token_count (selected r) \<le> 8"
  using budgeted_context_fits [OF demo_manager_inv, of "''hybrid''" 8 "''wf''"]
  by (auto simp: policies_def)

end
