(* ===== verification/WorkerPool.thy ===== *)
theory WorkerPool
  imports JobQueue Dispatch ContextManager
begin

text \<open>
  \<^verbatim>\<open>workers/worker_pool.py\<close>: the consumer of the job queue. A job is run in two steps around the
  call to the worker; its result is stored under the request id before the entry is acknowledged.
  The two background loops are modelled by their bodies, each of which ends in a state whether or
  not an exception was raised (the loops catch every exception, print it and go on).
\<close>

section \<open>State\<close>

record pool_config =
  po_queue :: stream_queue
  po_policy :: retry_policy
  po_dead_letter :: string
  result_prefix :: string

definition new_pool :: "string \<Rightarrow> int \<Rightarrow> int \<Rightarrow> string \<Rightarrow> pool_config" where
  "new_pool consumer_group retries idle hex =
     (let q = new_queue ''llm:stream:request_queue'' consumer_group None hex
      in \<lparr>po_queue = q, po_policy = \<lparr>rp_queue = q, max_retries = retries, min_idle_ms = idle\<rparr>,
          po_dead_letter = ''llm:stream:dead_letter'', result_prefix = ''llm:result:''\<rparr>)"

text \<open>What a job run changes: Redis, the balancer, the context.\<close>

record 's world =
  w_redis :: 's
  w_lb :: balancer
  w_cm :: context_manager

section \<open>One job\<close>

definition popped_keys :: "string list" where
  "popped_keys = [''request_id'', ''agent_id'', ''workflow_id'', ''parent_request_id'', ''context_tokens'']"

definition job_args :: "payload \<Rightarrow> payload" where
  "job_args p = filter (\<lambda>(k, v). k \<notin> set popped_keys) p"

text \<open>The metadata values the gateway enqueues are strings, integers or null.\<close>

definition opt_str :: "json \<Rightarrow> string option" where
  "opt_str j = (case j of JStr s \<Rightarrow> Some s | _ \<Rightarrow> None)"

definition opt_int :: "json \<Rightarrow> int option" where
  "opt_int j = (case j of JInt i \<Rightarrow> Some i | _ \<Rightarrow> None)"

definition message_text :: "json \<Rightarrow> string result" where
  "message_text m =
     (case m of
        JDict d \<Rightarrow> (case map_of d ''content'' of
            None \<Rightarrow> Inl (KeyError ''content'')
          | Some (JStr t) \<Rightarrow> Inr t
          | Some _ \<Rightarrow> Inl (TypeError ''sequence item: expected str instance''))
      | _ \<Rightarrow> Inl (TypeError ''message is not a mapping''))"

text \<open>\<open>job.get("prompt") or "\n".join(m["content"] for m in job.get("messages", []))\<close>\<close>

definition job_content :: "payload \<Rightarrow> string result" where
  "job_content job =
     (case dict_get job ''prompt'' JNull of
        JStr (c # cs) \<Rightarrow> Inr (c # cs)
      | _ \<Rightarrow> (case dict_get job ''messages'' (JList []) of
            JList ms \<Rightarrow> (case traverse message_text ms of Inl e \<Rightarrow> Inl e | Inr ts \<Rightarrow> Inr (str_join newline ts))
          | _ \<Rightarrow> Inl (TypeError ''messages is not iterable'')))"

definition is_chat :: "payload \<Rightarrow> bool" where
  "is_chat job \<longleftrightarrow> map_of job ''messages'' \<noteq> None"

text \<open>\<open>worker.chat(**job)\<close> and \<open>worker.generate(**job)\<close> bind the remaining keys as arguments.\<close>

definition bind_args :: "payload \<Rightarrow> unit result" where
  "bind_args job =
     (let ks = set (map fst job)
      in if is_chat job then
           (if ks = {''model'', ''messages''} then Inr () else Inl (TypeError ''chat() arguments''))
         else if {''model'', ''prompt''} \<subseteq> ks \<and> ks \<subseteq> {''model'', ''prompt'', ''stream''} then Inr ()
         else Inl (TypeError ''generate() arguments''))"

datatype job_phase =
    Settled json "json pydict"
  | Running json client bool json

definition error_result :: "py_exc \<Rightarrow> json pydict" where
  "error_result e = [(''error'', JStr (exc_text e))]"

text \<open>What is posted to the worker for the bound arguments; \<open>generate\<close> ignores its \<open>stream\<close> argument.\<close>

definition job_body :: "payload \<Rightarrow> json" where
  "job_body job =
     (if is_chat job then chat_body (dict_get job ''model'' JNull) (dict_get job ''messages'' JNull)
      else generate_body (dict_get job ''model'' JNull) (dict_get job ''prompt'' JNull))"

text \<open>\<open>_process_job\<close> up to the await. The context is recorded only once a worker was picked.\<close>

definition process_begin ::
  "string \<Rightarrow> real \<Rightarrow> real \<Rightarrow> stamp \<Rightarrow> payload \<Rightarrow> balancer \<times> context_manager
     \<Rightarrow> job_phase result \<times> (balancer \<times> context_manager)" where
  "process_begin strat now1 now2 st p s =
     (case map_of p ''request_id'' of
        None \<Rightarrow> (Inl (KeyError ''request_id''), s)
      | Some rid \<Rightarrow>
          (let job = job_args p; wid = opt_str (dict_get p ''workflow_id'' JNull);
               ag = opt_str (dict_get p ''agent_id'' JNull)
           in case pick_worker strat now1 now2 (opt_int (dict_get p ''context_tokens'' JNull)) (fst s) of
                (Inl e, lb1) \<Rightarrow>
                  (if is_runtime_error e then Inr (Settled rid (error_result e)) else Inl e, (lb1, snd s))
              | (Inr w, lb1) \<Rightarrow>
                  (case (case wid of None \<Rightarrow> Inr (snd s)
                         | Some i \<Rightarrow> (case job_content job of Inl e \<Rightarrow> Inl e
                             | Inr txt \<Rightarrow> Inr (snd (cm_record st txt CONVERSATION (Some i) ag None (1 / 2) (snd s))))) of
                     Inl e \<Rightarrow> (Inl e, (lb1, snd s))
                   | Inr cm1 \<Rightarrow>
                       (case bind_args job of
                          Inl e \<Rightarrow> (Inl e, (lb1, cm1))
                        | Inr _ \<Rightarrow> (Inr (Running rid w (is_chat job) (job_body job)), (update_client (cid w) begin_call lb1, cm1))))))"

text \<open>The rest, from the worker's answer on.\<close>

definition process_end ::
  "call_end \<Rightarrow> json \<Rightarrow> client \<Rightarrow> balancer \<Rightarrow> (json \<times> json pydict) result \<times> balancer" where
  "process_end c rid w lb =
     (case stop_call c w lb of
        (Inr reply, lb') \<Rightarrow> (Inr (rid, reply), lb')
      | (Inl e, lb') \<Rightarrow> (if is_runtime_error e then Inr (rid, error_result e) else Inl e, lb'))"

text \<open>What the environment supplies to one run: strategy, clock, ids and the worker's answer.\<close>

record job_env =
  je_start :: call_start
  je_stamp :: stamp
  je_end :: call_end

definition process_job ::
  "job_env \<Rightarrow> payload \<Rightarrow> balancer \<times> context_manager \<Rightarrow> (json \<times> json pydict) result \<times> (balancer \<times> context_manager)" where
  "process_job env p s =
     (case process_begin (ca_strategy (je_start env)) (ca_now1 (je_start env)) (ca_now2 (je_start env))
             (je_stamp env) p s of
        (Inl e, s1) \<Rightarrow> (Inl e, s1)
      | (Inr (Settled rid r), s1) \<Rightarrow> (Inr (rid, r), s1)
      | (Inr (Running rid w chat body), s1) \<Rightarrow>
          (case process_end ((je_end env)\<lparr>ce_chat := chat\<rparr>) rid w (fst s1) of (r, lb2) \<Rightarrow> (r, (lb2, snd s1))))"

section \<open>Results\<close>

text \<open>\<open>f"{prefix}{request_id}"\<close>\<close>

definition result_key :: "pool_config \<Rightarrow> json \<Rightarrow> string" where
  "result_key pc rid = result_prefix pc @ (case rid of JStr s \<Rightarrow> s | j \<Rightarrow> dumps j)"

definition store_result :: "'s redis \<Rightarrow> pool_config \<Rightarrow> json \<Rightarrow> json pydict \<Rightarrow> ('s, unit) io" where
  "store_result rd pc rid r = r_setex rd (result_key pc rid) 300 (dumps (JDict r))"

text \<open>
  \<open>get_result\<close> polls \<open>timeout * 2\<close> times; \<open>others k\<close> is what the rest of the system does to Redis
  during the sleep that leaves \<open>k\<close> polls.
\<close>

fun poll_result :: "'s redis \<Rightarrow> string \<Rightarrow> (nat \<Rightarrow> 's \<Rightarrow> 's) \<Rightarrow> nat \<Rightarrow> ('s, json option) io" where
  "poll_result rd key others 0 s = (Inr None, s)"
| "poll_result rd key others (Suc k) s =
     (case r_get rd key s of
        (Inl e, s1) \<Rightarrow> (Inl e, s1)
      | (Inr r, s1) \<Rightarrow>
          (case r of
             Some (c # cs) \<Rightarrow>
               bind (r_delete rd key)
                 (\<lambda>_. lift_result (case loads (c # cs) of Inl e \<Rightarrow> Inl e | Inr j \<Rightarrow> Inr (Some j))) s1
           | _ \<Rightarrow> poll_result rd key others k (others k s1)))"

definition get_result ::
  "'s redis \<Rightarrow> pool_config \<Rightarrow> string \<Rightarrow> nat \<Rightarrow> (nat \<Rightarrow> 's \<Rightarrow> 's) \<Rightarrow> ('s, json option) io" where
  "get_result rd pc rid timeout others = poll_result rd (result_prefix pc @ rid) others (timeout * 2)"

definition pool_enqueue :: "'s redis \<Rightarrow> pool_config \<Rightarrow> string \<Rightarrow> payload \<Rightarrow> ('s, unit) io" where
  "pool_enqueue rd pc rid p =
     bind (enqueue rd (po_queue pc) (dict_merge [(''request_id'', JStr rid)] p))
       (\<lambda>_. bind (depth rd (po_queue pc)) (\<lambda>_. ret ()))"

definition pool_queue_depth :: "'s redis \<Rightarrow> pool_config \<Rightarrow> ('s, nat) io" where
  "pool_queue_depth rd pc = depth rd (po_queue pc)"

section \<open>The loops\<close>

definition settle :: "'s redis \<Rightarrow> pool_config \<Rightarrow> string \<Rightarrow> json \<Rightarrow> json pydict \<Rightarrow> ('s, unit) io" where
  "settle rd pc i rid r = bind (store_result rd pc rid r) (\<lambda>_. ack rd (po_queue pc) i)"

text \<open>Run one entry: process, store the result, acknowledge.\<close>

definition handle_job :: "'s redis \<Rightarrow> pool_config \<Rightarrow> job_env \<Rightarrow> string \<times> payload \<Rightarrow> ('s world, unit) io" where
  "handle_job rd pc env e w =
     (case process_job env (snd e) (w_lb w, w_cm w) of
        (Inl x, lb, cm) \<Rightarrow> (Inl x, w\<lparr>w_lb := lb, w_cm := cm\<rparr>)
      | (Inr (rid, r), lb, cm) \<Rightarrow>
          (case settle rd pc (fst e) rid r (w_redis w) of
             (x, s') \<Rightarrow> (x, w\<lparr>w_redis := s', w_lb := lb, w_cm := cm\<rparr>)))"

text \<open>The body of \<open>_process_loop\<close>.\<close>

definition process_iteration :: "'s redis \<Rightarrow> pool_config \<Rightarrow> job_env \<Rightarrow> 's world \<Rightarrow> 's world" where
  "process_iteration rd pc env w =
     (case queue_read rd (po_queue pc) 1 (w_redis w) of
        (Inl e, s') \<Rightarrow> w\<lparr>w_redis := s'\<rparr>
      | (Inr [], s') \<Rightarrow> w\<lparr>w_redis := s'\<rparr>
      | (Inr (x # _), s') \<Rightarrow> snd (handle_job rd pc env x (w\<lparr>w_redis := s'\<rparr>)))"

fun handle_jobs ::
  "'s redis \<Rightarrow> pool_config \<Rightarrow> (string \<Rightarrow> job_env) \<Rightarrow> (string \<times> payload) list \<Rightarrow> ('s world, unit) io" where
  "handle_jobs rd pc env [] w = (Inr (), w)"
| "handle_jobs rd pc env (x # xs) w = bind (handle_job rd pc (env (fst x)) x) (\<lambda>_. handle_jobs rd pc env xs) w"

text \<open>The body of \<open>_recovery_loop\<close>; \<open>None\<close> if the reclaim run does not end.\<close>

definition recovery_iteration ::
  "'s redis \<Rightarrow> pool_config \<Rightarrow> (string \<Rightarrow> json) \<Rightarrow> (string \<Rightarrow> job_env) \<Rightarrow> 's world \<Rightarrow> 's world option" where
  "recovery_iteration rd pc clock env w =
     (case recover rd (po_policy pc) (po_dead_letter pc) clock (w_redis w) of
        None \<Rightarrow> None
      | Some (Inl e, s') \<Rightarrow> Some (w\<lparr>w_redis := s'\<rparr>)
      | Some (Inr r, s') \<Rightarrow> Some (snd (handle_jobs rd pc env (retryable r) (w\<lparr>w_redis := s'\<rparr>))))"

section \<open>Lemmas\<close>

lemma wf_dict_get: "wf_json (JDict d) \<Longrightarrow> wf_json v \<Longrightarrow> wf_json (dict_get d k v)"
  by (auto simp: dict_get_def list_all_iff split: option.split dest!: map_of_SomeD)

lemma wf_json_get: "json_get j k v = Inr x \<Longrightarrow> wf_json j \<Longrightarrow> wf_json v \<Longrightarrow> wf_json x"
  by (cases j) (auto simp: json_get_def simp del: wf_json.simps intro: wf_dict_get)

lemma wf_token_counts: "token_counts inc j = Inr (p, c) \<Longrightarrow> wf_json j \<Longrightarrow> wf_json p \<and> wf_json c"
  by (auto simp: token_counts_def split: sum.splits option.splits dest: wf_json_get)

lemma wf_latency_ms: "wf_json (latency_ms l)"
  by (simp add: latency_ms_def decimal2_def)

lemma wf_generate_reply:
  assumes "generate_reply inc base l j = Inr r" "wf_json j" shows "wf_json (JDict r)"
proof -
  obtain p c m t mo where "token_counts inc j = Inr (p, c)" "json_get j ''message'' (JDict []) = Inr m"
      "json_get m ''content'' (JStr []) = Inr t" "json_get j ''model'' JNull = Inr mo"
      "r = [(''response'', t), (''model'', mo), (''worker_url'', JStr base), (''latency_ms'', latency_ms l),
            (''prompt_tokens'', p), (''completion_tokens'', c)]"
    using assms(1) by (auto simp: generate_reply_def split: sum.splits prod.splits)
  then show ?thesis
    using wf_token_counts [of inc j p c] wf_json_get [of j "''message''" "JDict []" m] wf_latency_ms [of l]
      wf_json_get [of m "''content''" "JStr []" t] wf_json_get [of j "''model''" JNull mo] assms(2)
    by simp
qed

lemma wf_chat_reply:
  assumes "chat_reply inc base l j = Inr r" "wf_json j" shows "wf_json (JDict r)"
proof -
  obtain p c m mo where "token_counts inc j = Inr (p, c)" "json_get j ''message'' (JDict []) = Inr m"
      "json_get j ''model'' JNull = Inr mo"
      "r = [(''message'', m), (''model'', mo), (''worker_url'', JStr base), (''latency_ms'', latency_ms l),
            (''prompt_tokens'', p), (''completion_tokens'', c)]"
    using assms(1) by (auto simp: chat_reply_def split: sum.splits prod.splits)
  then show ?thesis
    using wf_token_counts [of inc j p c] wf_json_get [of j "''message''" "JDict []" m] wf_latency_ms [of l]
      wf_json_get [of j "''model''" JNull mo] assms(2)
    by simp
qed

definition wf_outcome :: "http_outcome \<Rightarrow> bool" where
  "wf_outcome o' \<longleftrightarrow> (case o' of Body j \<Rightarrow> wf_json j | Raised _ \<Rightarrow> True)"

lemma wf_finish_of: "fst (finish_of c w) = Inr r \<Longrightarrow> wf_outcome (ce_outcome c) \<Longrightarrow> wf_json (JDict r)"
  by (cases "ce_outcome c")
    (auto simp: finish_of_def finish_generate_def finish_chat_def finish_call_def wf_outcome_def Let_def
      simp del: wf_json.simps dest: wf_generate_reply wf_chat_reply split: if_splits sum.splits)

lemma stop_call_reply: "fst (stop_call c w lb) = Inr r \<Longrightarrow> fst (finish_of c w) = Inr r"
  by (auto simp: stop_call_def dispatch_end_def Let_def split: sum.splits prod.splits if_splits)

lemma wf_error_result: "wf_json (JDict (error_result e))"
  by (simp add: error_result_def)

lemma wf_process_job:
  assumes "fst (process_job env p s) = Inr (rid, r)" "wf_outcome (ce_outcome (je_end env))"
  shows "wf_json (JDict r)"
proof -
  obtain ph s1 where b: "process_begin (ca_strategy (je_start env)) (ca_now1 (je_start env)) (ca_now2 (je_start env))
      (je_stamp env) p s = (Inr ph, s1)"
    using assms(1) by (auto simp: process_job_def split: prod.splits sum.splits)
  show ?thesis
  proof (cases ph)
    case (Settled rid' r')
    then have r': "r = r'" using b assms(1) by (simp add: process_job_def)
    have "\<exists>e. r' = error_result e"
      using b Settled by (auto simp: process_begin_def Let_def split: option.splits prod.splits sum.splits if_splits)
    with r' wf_error_result show ?thesis by auto
  next
    case (Running rid' w chat body)
    let ?c = "(je_end env)\<lparr>ce_chat := chat\<rparr>"
    obtain x lb' where x: "stop_call ?c w (fst s1) = (x, lb')" by force
    show ?thesis
    proof (cases x)
      case (Inl e)
      then have "r = error_result e"
        using b Running x assms(1) by (simp add: process_job_def process_end_def split: if_splits)
      with wf_error_result show ?thesis by simp
    next
      case (Inr reply)
      then have "r = reply" using b Running x assms(1) by (simp add: process_job_def process_end_def)
      moreover have "fst (finish_of ?c w) = Inr reply" using stop_call_reply [of ?c w "fst s1"] x Inr by simp
      ultimately show ?thesis using wf_finish_of [of ?c w reply] assms(2) by simp
    qed
  qed
qed

lemma keyspace_lawsD:
  assumes "keyspace_laws rd kv members"
  shows "r_get rd k s = (Inr (kv s k), s)"
    and "\<exists>s'. r_setex rd k t v s = (Inr (), s') \<and> kv s' = (kv s)(k \<mapsto> v) \<and> members s' = members s"
    and "\<exists>s'. r_delete rd k s = (Inr (if kv s k = None then 0 else 1), s')
        \<and> kv s' = (kv s)(k := None) \<and> members s' = members s"
proof -
  note h = assms [unfolded keyspace_laws_def]
  show "r_get rd k s = (Inr (kv s k), s)" by (rule h [THEN conjunct1, rule_format])
  show "\<exists>s'. r_setex rd k t v s = (Inr (), s') \<and> kv s' = (kv s)(k \<mapsto> v) \<and> members s' = members s"
    by (rule h [THEN conjunct2, THEN conjunct2, THEN conjunct1, rule_format])
  show "\<exists>s'. r_delete rd k s = (Inr (if kv s k = None then 0 else 1), s')
        \<and> kv s' = (kv s)(k := None) \<and> members s' = members s"
    by (rule h [THEN conjunct2, THEN conjunct2, THEN conjunct2, THEN conjunct1, rule_format])
qed

lemma separate_lawsD:
  assumes "separate_laws rd entries pending kv"
  shows "pending (snd (r_setex rd k t v s)) = pending s" and "kv (snd (xack rd k g i s)) = kv s"
  using assms unfolding separate_laws_def by simp_all

text \<open>Storing and acknowledging, on a server that answers.\<close>

lemma settle_ok:
  assumes "keyspace_laws rd kv members" "stream_laws rd entries pending rank" "separate_laws rd entries pending kv"
  shows "\<exists>s'. settle rd pc i rid r s = (Inr (), s')
    \<and> kv s' = (kv s)(result_key pc rid \<mapsto> dumps (JDict r))
    \<and> pending s' = (pending s)((stream_key (po_queue pc), group_name (po_queue pc)) :=
        (pending s (stream_key (po_queue pc), group_name (po_queue pc)))(i := None))"
proof -
  obtain s1 where s1: "r_setex rd (result_key pc rid) 300 (dumps (JDict r)) s = (Inr (), s1)"
      "kv s1 = (kv s)(result_key pc rid \<mapsto> dumps (JDict r))"
    using keyspace_lawsD(2) [OF assms(1)] by blast
  have p1: "pending s1 = pending s"
    using separate_lawsD(1) [OF assms(3), of "result_key pc rid" 300 "dumps (JDict r)" s] by (simp only: s1(1) snd_conv)
  obtain n s2 where s2: "xack rd (stream_key (po_queue pc)) (group_name (po_queue pc)) i s1 = (Inr n, s2)"
      "pending s2 = (pending s1)((stream_key (po_queue pc), group_name (po_queue pc)) :=
        (pending s1 (stream_key (po_queue pc), group_name (po_queue pc)))(i := None))"
    using stream_lawsD(2) [OF assms(2)] by blast
  have k2: "kv s2 = kv s1"
    using separate_lawsD(2) [OF assms(3), of "stream_key (po_queue pc)" "group_name (po_queue pc)" i s1]
    by (simp only: s2(1) snd_conv)
  have "settle rd pc i rid r s = (Inr (), s2)"
    by (simp add: settle_def store_result_def bind_def s1(1) ack_def s2(1) ret_def del: dumps.simps)
  with s1(2) s2(2) p1 k2 show ?thesis by simp
qed

text \<open>The poller sees the states \<open>S 0\<close>, \<open>S 1\<close>, ... and finds the key at the \<open>j\<close>th of them, or never.\<close>

definition polled :: "('s \<Rightarrow> string \<Rightarrow> string option) \<Rightarrow> string \<Rightarrow> (nat \<Rightarrow> 's \<Rightarrow> 's) \<Rightarrow> nat \<Rightarrow> (nat \<Rightarrow> 's) \<Rightarrow> nat \<Rightarrow> bool" where
  "polled kv key others k S j \<longleftrightarrow> (\<forall>i<j. kv (S i) key = None \<and> S (Suc i) = others (k - Suc i) (S i))"

lemma polled_Suc:
  "polled kv key others (Suc k) S (Suc j) \<longleftrightarrow>
     kv (S 0) key = None \<and> S 1 = others k (S 0) \<and> polled kv key others k (\<lambda>i. S (Suc i)) j"
  by (auto simp: polled_def All_less_Suc2)

lemma poll_result_skips:
  assumes "keyspace_laws rd kv members" "polled kv key others (j + k) S j"
  shows "poll_result rd key others (j + k) (S 0) = poll_result rd key others k (S j)"
  using assms(2)
proof (induction j arbitrary: S)
  case (Suc j)
  then show ?case
    using Suc.IH [of "\<lambda>i. S (Suc i)"] by (simp add: polled_Suc keyspace_lawsD(1) [OF assms(1)])
qed simp

lemma poll_result_finds:
  assumes "keyspace_laws rd kv members" "polled kv key others n S j" "j < n"
    and "kv (S j) key = Some (dumps (JDict r))" "wf_json (JDict r)"
  shows "\<exists>s'. poll_result rd key others n (S 0) = (Inr (Some (JDict r)), s') \<and> kv s' key = None"
proof -
  obtain k where n: "n = j + Suc k" using assms(3) less_imp_Suc_add by (metis add_Suc_right)
  obtain c cs where t: "dumps (JDict r) = c # cs" by simp
  obtain s' where s': "r_delete rd key (S j) = (Inr 1, s')" "kv s' = (kv (S j))(key := None)"
    using keyspace_lawsD(3) [OF assms(1), of key "S j"] assms(4) by auto
  have "loads (c # cs) = Inr (JDict r)" using loads_dumps [OF assms(5)] t by simp
  then have "poll_result rd key others (Suc k) (S j) = (Inr (Some (JDict r)), s')"
    using assms(4) t by (simp add: keyspace_lawsD(1) [OF assms(1)] bind_def s'(1) lift_result_def del: dumps.simps)
  then show ?thesis
    using poll_result_skips [OF assms(1), of key others j "Suc k" S] assms(2) s'(2) by (simp add: n)
qed

section \<open>Properties\<close>

text \<open>
  C4. A job is acknowledged exactly when its result is stored: if running an entry succeeds, its
  result is under the request's key and the entry is off the pending list; if anything raises, Redis
  is as before, so the entry is still pending and will be recovered.
\<close>

theorem acked_iff_result_stored:
  assumes "keyspace_laws rd kv members" and "stream_laws rd entries pending rank"
    and "separate_laws rd entries pending kv"
  shows "case handle_job rd pc env (i, p) w of
      (Inr _, w') \<Rightarrow> (\<exists>rid r. fst (process_job env p (w_lb w, w_cm w)) = Inr (rid, r)
          \<and> kv (w_redis w') (result_key pc rid) = Some (dumps (JDict r)))
        \<and> pending (w_redis w') (stream_key (po_queue pc), group_name (po_queue pc)) i = None
    | (Inl e, w') \<Rightarrow> w_redis w' = w_redis w \<and> fst (process_job env p (w_lb w, w_cm w)) = Inl e"
proof -
  obtain x lb cm where x: "process_job env p (w_lb w, w_cm w) = (x, lb, cm)" by (metis prod_cases3)
  show ?thesis
  proof (cases x)
    case (Inl e)
    then show ?thesis by (simp add: handle_job_def x)
  next
    case (Inr y)
    obtain rid r where y: "y = (rid, r)" by force
    obtain s' where s: "settle rd pc i rid r (w_redis w) = (Inr (), s')"
      "kv s' = (kv (w_redis w))(result_key pc rid \<mapsto> dumps (JDict r))"
      "pending s' = (pending (w_redis w))((stream_key (po_queue pc), group_name (po_queue pc)) :=
        (pending (w_redis w) (stream_key (po_queue pc), group_name (po_queue pc)))(i := None))"
      using settle_ok [OF assms] by blast
    show ?thesis using x Inr s by (simp add: handle_job_def y del: dumps.simps)
  qed
qed

definition demo_pool :: pool_config where
  "demo_pool = new_pool ''fleet-workers'' 3 30000 ''abcdef0123''"

definition demo_env :: "http_outcome \<Rightarrow> job_env" where
  "demo_env out = \<lparr>je_start = demo_start, je_stamp = \<lparr>fresh_id = ''n'', clock1 = 7, clock2 = 7\<rparr>, je_end = demo_end out\<rparr>"

definition demo_world :: "string list \<Rightarrow> ref_state world" where
  "demo_world urls = \<lparr>w_redis = demo_stream 1, w_lb = new_balancer demo_config urls, w_cm = demo_manager\<rparr>"

theorem acked_iff_result_stored_witness:
  "case handle_job ref_redis demo_pool (demo_env (Raised ''timeout'')) (''1'', demo_job) (demo_world [''a'']) of
      (Inr _, w') \<Rightarrow> ref_pend (w_redis w') (stream_key (po_queue demo_pool), group_name (po_queue demo_pool)) ''1'' = None
    | (Inl e, w') \<Rightarrow> w_redis w' = demo_stream 1"
  using acked_iff_result_stored [OF ref_keyspace_laws ref_stream_laws ref_separate_laws, where pc = demo_pool
      and env = "demo_env (Raised ''timeout'')" and i = "''1''" and p = demo_job and w = "demo_world [''a'']"]
  by (auto simp: demo_world_def split: prod.splits sum.splits)

text \<open>
  The caller gets what the worker answered: when running an entry has succeeded, the next poll
  for its request id returns exactly the stored reply, whatever JSON the worker's body held, and
  removes it.
\<close>

theorem result_roundtrip:
  assumes "keyspace_laws rd kv members" and "stream_laws rd entries pending rank"
    and "separate_laws rd entries pending kv" and "wf_outcome (ce_outcome (je_end env))"
    and "handle_job rd pc env (i, p) w = (Inr u, w')"
    and "map_of p ''request_id'' = Some (JStr rid)" and "0 < timeout"
  shows "\<exists>r s'. fst (process_job env p (w_lb w, w_cm w)) = Inr (JStr rid, r)
    \<and> get_result rd pc rid timeout others (w_redis w') = (Inr (Some (JDict r)), s')
    \<and> kv s' (result_prefix pc @ rid) = None"
proof -
  obtain x lb cm where x: "process_job env p (w_lb w, w_cm w) = (x, lb, cm)" by (metis prod_cases3)
  then obtain rid' r where xr: "x = Inr (rid', r)"
    using assms(5) by (cases x) (auto simp: handle_job_def)
  have rid': "rid' = JStr rid"
    using x xr assms(6)
    by (auto simp: process_job_def process_begin_def process_end_def Let_def
        split: prod.splits sum.splits if_splits job_phase.splits option.splits)
  have wf: "wf_json (JDict r)" using wf_process_job [of env p "(w_lb w, w_cm w)" rid' r] assms(4) x xr by simp
  obtain s1 where s1: "settle rd pc i (JStr rid) r (w_redis w) = (Inr (), s1)"
      "kv s1 = (kv (w_redis w))(result_prefix pc @ rid \<mapsto> dumps (JDict r))"
    using settle_ok [OF assms(1-3), of pc i "JStr rid" r "w_redis w"] by (auto simp: result_key_def)
  have w': "w_redis w' = s1" using assms(5) x xr rid' s1(1) by (auto simp: handle_job_def)
  have "polled kv (result_prefix pc @ rid) others (timeout * 2) (\<lambda>_. s1) 0" by (simp add: polled_def)
  from poll_result_finds [OF assms(1) this _ _ wf] show ?thesis
    using s1(2) assms(7) x xr rid' by (simp add: get_result_def w')
qed

theorem result_roundtrip_witness:
  "\<exists>r s'. get_result ref_redis demo_pool ''r1'' 120 (\<lambda>_ s. s)
      (w_redis (snd (handle_job ref_redis demo_pool (demo_env (Raised ''timeout'')) (''1'', demo_job) (demo_world []))))
    = (Inr (Some (JDict r)), s') \<and> ref_kv s' ''llm:result:r1'' = None"
proof -
  let ?env = "demo_env (Raised ''timeout'')"
  have "process_job ?env demo_job (w_lb (demo_world []), w_cm (demo_world []))
      = (Inr (JStr ''r1'', error_result no_workers), new_balancer demo_config [], demo_manager)"
    by (simp add: process_job_def process_begin_def demo_env_def demo_start_def demo_job_def demo_world_def
        dict_get_def opt_int_def pick_worker_def available_workers_def demo_simps no_workers_def Let_def)
  then have "\<exists>w'. handle_job ref_redis demo_pool ?env (''1'', demo_job) (demo_world []) = (Inr (), w')"
    using settle_ok [OF ref_keyspace_laws ref_stream_laws ref_separate_laws, of demo_pool "''1''" "JStr ''r1''"]
    by (simp add: handle_job_def split: prod.split) (metis Pair_inject)
  then obtain w' where h: "handle_job ref_redis demo_pool ?env (''1'', demo_job) (demo_world []) = (Inr (), w')" ..
  have "wf_outcome (ce_outcome (je_end ?env))" by (simp add: wf_outcome_def demo_env_def demo_end_def)
  moreover have "map_of demo_job ''request_id'' = Some (JStr ''r1'')" by (simp add: demo_job_def)
  moreover have "result_prefix demo_pool = ''llm:result:''" by (simp add: demo_pool_def new_pool_def Let_def)
  ultimately show ?thesis
    using result_roundtrip [OF ref_keyspace_laws ref_stream_laws ref_separate_laws _ h, of "''r1''" 120 "\<lambda>_ s. s"] h
    by auto
qed

text \<open>
  A job no worker can take leaves no trace in the context: its result is the error of the pick,
  and the context manager is unchanged.
\<close>

theorem rejected_job_not_recorded:
  assumes "lb_reachable lb" and "map_of p ''request_id'' = Some rid"
    and "\<And>w. w \<in> set (workers lb) \<Longrightarrow>
           \<not> eligible (ca_now1 (je_start env)) (opt_int (dict_get p ''context_tokens'' JNull)) lb w"
  shows "\<exists>e lb'. process_job env p (lb, cm) = (Inr (rid, error_result e), (lb', cm))
    \<and> is_runtime_error e \<and> workers lb' = workers lb"
proof -
  note inv = lb_reachable_inv [OF assms(1)]
  let ?p = "pick_worker (ca_strategy (je_start env)) (ca_now1 (je_start env)) (ca_now2 (je_start env))
    (opt_int (dict_get p ''context_tokens'' JNull)) lb"
  obtain x lb' where x: "?p = (x, lb')" by force
  have ws: "workers lb' = workers lb" using pick_worker_workers [OF inv] x by (metis snd_conv)
  show ?thesis
  proof (cases x)
    case (Inr w)
    then have "w \<in> set (eligible_workers (ca_now1 (je_start env)) (opt_int (dict_get p ''context_tokens'' JNull)) lb)"
      using pick_worker_Inr(1) [OF inv] x by blast
    then show ?thesis using assms(3) by (simp add: eligible_workers_def)
  next
    case (Inl e)
    then have "is_runtime_error e" using pick_worker_Inl [OF inv] x by blast
    with Inl x have "process_job env p (lb, cm) = (Inr (rid, error_result e), (lb', cm))"
      by (simp add: process_job_def process_begin_def assms(2) Let_def)
    with ws \<open>is_runtime_error e\<close> show ?thesis by blast
  qed
qed

theorem rejected_job_not_recorded_witness:
  "\<exists>e lb'. process_job (demo_env (Raised ''x'')) demo_job (new_balancer demo_config [], demo_manager)
     = (Inr (JStr ''r1'', error_result e), (lb', demo_manager)) \<and> is_runtime_error e"
proof -
  have "map_of demo_job ''request_id'' = Some (JStr ''r1'')" by (simp add: demo_job_def)
  moreover have "workers (new_balancer demo_config []) = []" by (simp add: new_balancer_def)
  ultimately show ?thesis
    using rejected_job_not_recorded [OF demo_reachable [of "[]"], of demo_job "JStr ''r1''" "demo_env (Raised ''x'')" demo_manager]
    by auto
qed

text \<open>
  Running a job again is not idempotent for the context: each run that gets a worker records the
  prompt, so a job that is recovered and run a second time leaves its turn twice in its workflow and
  counts its tokens twice.
\<close>

theorem rerun_records_context_twice:
  assumes "store_inv (cm_store cm)" and "dict_get p ''workflow_id'' JNull = JStr wid" and "wid \<noteq> []"
    and "process_begin strat now1 now2 st1 p (lb, cm) = (Inr (Running rid w ch bd), (lb1, cm1))"
    and "process_begin strat now3 now4 st2 p (lb2, cm1) = (Inr (Running rid' w' ch' bd'), (lb3, cm2))"
    and "items (cm_store cm) (fresh_id st1) = None" and "items (cm_store cm) (fresh_id st2) = None"
    and "fresh_id st1 \<noteq> fresh_id st2"
  shows "\<exists>it1 it2. workflow_items (cm_store cm2) wid = workflow_items (cm_store cm) wid @ [it1, it2]
    \<and> content it1 = content it2 \<and> item_id it1 \<noteq> item_id it2
    \<and> cm_total_tokens cm2 wid = cm_total_tokens cm wid + 2 * estimate_tokens (content it1)"
proof -
  obtain body where body: "job_content (job_args p) = Inr body"
    using assms(2,4)
    by (auto simp: process_begin_def Let_def opt_str_def split: option.splits prod.splits sum.splits if_splits)
  let ?ag = "opt_str (dict_get p ''agent_id'' JNull)"
  have cm1: "cm1 = snd (cm_record st1 body CONVERSATION (Some wid) ?ag None (1 / 2) cm)"
    using assms(2,4) body
    by (auto simp: process_begin_def Let_def opt_str_def split: option.splits prod.splits sum.splits if_splits)
  have cm2: "cm2 = snd (cm_record st2 body CONVERSATION (Some wid) ?ag None (1 / 2) cm1)"
    using assms(2,5) body
    by (auto simp: process_begin_def Let_def opt_str_def split: option.splits prod.splits sum.splits if_splits)
  define it1 where "it1 = (new_item st1 CONVERSATION body)\<lparr>workflow_id := Some wid, agent_id := ?ag, source := None, importance := 1 / 2\<rparr>"
  define it2 where "it2 = (new_item st2 CONVERSATION body)\<lparr>workflow_id := Some wid, agent_id := ?ag, source := None, importance := 1 / 2\<rparr>"
  have s1: "cm_store cm1 = store_add it1 (cm_store cm)" by (simp add: cm1 cm_record_def it1_def Let_def)
  have s2: "cm_store cm2 = store_add it2 (cm_store cm1)" by (simp add: cm2 cm_record_def it2_def Let_def)
  have sel: "wf_item it1" "wf_item it2" "item_id it1 = fresh_id st1" "item_id it2 = fresh_id st2"
    "workflow_id it1 = Some wid" "workflow_id it2 = Some wid" "content it1 = body" "content it2 = body"
    "token_count it1 = estimate_tokens body" "token_count it2 = estimate_tokens body"
    by (simp_all add: it1_def it2_def new_item_def wf_item_def)
  have inv1: "store_inv (cm_store cm1)"
    unfolding s1 by (rule store_inv_add [OF assms(1) sel(1)]) (simp add: sel assms)
  have l1: "workflow_items (cm_store cm1) wid = workflow_items (cm_store cm) wid @ [it1]"
    using list_add [OF assms(1) sel(1), of wid] assms(3,6) by (simp add: s1 sel)
  have "items (cm_store cm1) (fresh_id st2) = None" using assms(7,8) by (simp add: s1 items_add sel)
  then have l2: "workflow_items (cm_store cm2) wid = workflow_items (cm_store cm) wid @ [it1, it2]"
    using list_add [OF inv1 sel(2), of wid] assms(3) by (simp add: s2 sel l1)
  then have "cm_total_tokens cm2 wid = cm_total_tokens cm wid + 2 * estimate_tokens body"
    by (simp add: cm_total_tokens_def total_eq sel)
  with l2 sel assms(8) show ?thesis by (intro exI [of _ it1] exI [of _ it2]) simp
qed

definition demo_workflow_job :: payload where
  "demo_workflow_job = [(''request_id'', JStr ''r2''), (''model'', JStr ''m''), (''prompt'', JStr ''hello''),
     (''workflow_id'', JStr ''wf'')]"

lemma demo_begin: "\<exists>rid w ch bd lb' cm'. process_begin ''round_robin'' 1 1 st demo_workflow_job (new_balancer demo_config [''a''], cm)
    = (Inr (Running rid w ch bd), (lb', cm'))"
  by (simp add: process_begin_def demo_workflow_job_def job_args_def popped_keys_def dict_get_def opt_int_def opt_str_def
      pick_worker_def available_workers_def is_open_def choose_worker_def demo_simps bind_args_def is_chat_def job_content_def
      Let_def insert_commute) (rule exI [of _ False], simp)

theorem rerun_records_context_twice_witness:
  "\<exists>(cm2 :: context_manager) it1 it2. workflow_items (cm_store cm2) ''wf'' = demo_items @ [it1, it2] \<and> content it1 = content it2"
proof -
  let ?st = "\<lambda>i. \<lparr>fresh_id = i, clock1 = 9, clock2 = 9\<rparr>"
  obtain rid w ch bd lb1 cm1 where b1: "process_begin ''round_robin'' 1 1 (?st ''s'') demo_workflow_job
      (new_balancer demo_config [''a''], demo_manager) = (Inr (Running rid w ch bd), (lb1, cm1))"
    using demo_begin by blast
  obtain rid' w' ch' bd' lb3 cm2 where b2: "process_begin ''round_robin'' 1 1 (?st ''t'') demo_workflow_job
      (new_balancer demo_config [''a''], cm1) = (Inr (Running rid' w' ch' bd'), (lb3, cm2))"
    using demo_begin by blast
  have w: "dict_get demo_workflow_job ''workflow_id'' JNull = JStr ''wf''" "''wf'' \<noteq> []"
    by (simp_all add: demo_workflow_job_def dict_get_def)
  have f: "items (cm_store demo_manager) (fresh_id (?st ''s'')) = None"
    "items (cm_store demo_manager) (fresh_id (?st ''t'')) = None" "fresh_id (?st ''s'') \<noteq> fresh_id (?st ''t'')"
    using demo_manager_fresh by simp_all
  obtain it1 it2 where "workflow_items (cm_store cm2) ''wf'' = workflow_items (cm_store demo_manager) ''wf'' @ [it1, it2]"
      "content it1 = content it2"
    using rerun_records_context_twice [OF demo_manager_inv w b1 b2 f] by blast
  then show ?thesis
    by - (rule exI [of _ cm2], rule exI [of _ it1], rule exI [of _ it2], simp add: demo_manager_items)
qed

end
