(* ===== verification/Registry.thy ===== *)
theory Registry
  imports RedisApi
begin

text \<open>
  \<^verbatim>\<open>registry/models.py\<close> and \<^verbatim>\<open>registry/store.py\<close>: the profile a worker machine reports about
  itself, stored in Redis as a JSON text under a key of its own, with a set of the known ids beside.
\<close>

section \<open>Records\<close>

text \<open>A dataclass does not check the types of its fields: they hold any JSON value.\<close>

record worker_record =
  wr_worker_id :: json
  wr_url :: json
  wr_name :: json
  wr_ram_gb :: json
  wr_has_gpu :: json
  wr_vram_gb :: json
  wr_models :: json
  wr_registered_at :: json
  wr_last_heartbeat :: json

definition record_dict :: "worker_record \<Rightarrow> json pydict" where
  "record_dict r =
     [(''worker_id'', wr_worker_id r), (''url'', wr_url r), (''name'', wr_name r), (''ram_gb'', wr_ram_gb r),
      (''has_gpu'', wr_has_gpu r), (''vram_gb'', wr_vram_gb r), (''models'', wr_models r),
      (''registered_at'', wr_registered_at r), (''last_heartbeat'', wr_last_heartbeat r)]"

definition required_fields :: "string list" where
  "required_fields = [''worker_id'', ''url'', ''name'', ''ram_gb'', ''has_gpu'']"

definition record_fields :: "string list" where
  "record_fields = required_fields @ [''vram_gb'', ''models'', ''registered_at'', ''last_heartbeat'']"

text \<open>\<open>cls(**data)\<close>; \<open>now\<close> is what the time factories of missing fields return.\<close>

definition record_from_dict :: "json \<Rightarrow> json \<Rightarrow> worker_record result" where
  "record_from_dict now j =
     (case j of
        JDict d \<Rightarrow>
          if \<not> list_all (\<lambda>k. k \<in> set record_fields) (map fst d)
          then Inl (TypeError ''WorkerRecord.__init__() got an unexpected keyword argument'')
          else if \<not> list_all (\<lambda>k. map_of d k \<noteq> None) required_fields
          then Inl (TypeError ''WorkerRecord.__init__() missing required positional arguments'')
          else Inr \<lparr>wr_worker_id = dict_get d ''worker_id'' JNull, wr_url = dict_get d ''url'' JNull,
             wr_name = dict_get d ''name'' JNull, wr_ram_gb = dict_get d ''ram_gb'' JNull,
             wr_has_gpu = dict_get d ''has_gpu'' JNull, wr_vram_gb = dict_get d ''vram_gb'' JNull,
             wr_models = dict_get d ''models'' (JList []), wr_registered_at = dict_get d ''registered_at'' now,
             wr_last_heartbeat = dict_get d ''last_heartbeat'' now\<rparr>
      | _ \<Rightarrow> Inl (TypeError ''argument after ** must be a mapping''))"

section \<open>The store\<close>

definition workers_set_key :: string where
  "workers_set_key = ''fleet:registry:workers''"

definition worker_key :: "string \<Rightarrow> string" where
  "worker_key i = ''fleet:registry:worker:'' @ i"

definition load_record :: "json \<Rightarrow> string \<Rightarrow> worker_record result" where
  "load_record now raw = (case loads raw of Inl e \<Rightarrow> Inl e | Inr j \<Rightarrow> record_from_dict now j)"

definition get_worker :: "'s redis \<Rightarrow> json \<Rightarrow> string \<Rightarrow> ('s, worker_record option) io" where
  "get_worker rd now i =
     bind (r_get rd (worker_key i))
       (\<lambda>raw. case raw of None \<Rightarrow> ret None
          | Some t \<Rightarrow> lift_result (case load_record now t of Inl e \<Rightarrow> Inl e | Inr r \<Rightarrow> Inr (Some r)))"

text \<open>\<open>i\<close> is the record's worker id, a string.\<close>

definition register :: "'s redis \<Rightarrow> json \<Rightarrow> string \<Rightarrow> worker_record \<Rightarrow> ('s, worker_record) io" where
  "register rd now i rec0 =
     bind (get_worker rd now i)
       (\<lambda>existing.
          let rec1 = (case existing of None \<Rightarrow> rec0 | Some old \<Rightarrow> rec0\<lparr>wr_registered_at := wr_registered_at old\<rparr>)
          in bind (r_set rd (worker_key i) (dumps (JDict (record_dict rec1))))
               (\<lambda>_. bind (r_sadd rd workers_set_key i) (\<lambda>_. ret rec1)))"

text \<open>The loop over the ids and the values MGET returned for them.\<close>

fun collect_workers ::
  "'s redis \<Rightarrow> json \<Rightarrow> (string \<times> string option) list \<Rightarrow> ('s, worker_record list) io" where
  "collect_workers rd now [] = ret []"
| "collect_workers rd now ((i, None) # rest) =
     bind (r_srem rd workers_set_key i) (\<lambda>_. collect_workers rd now rest)"
| "collect_workers rd now ((i, Some raw) # rest) =
     bind (lift_result (load_record now raw))
       (\<lambda>r. bind (collect_workers rd now rest) (\<lambda>rs. ret (r # rs)))"

definition list_workers :: "'s redis \<Rightarrow> json \<Rightarrow> ('s, worker_record list) io" where
  "list_workers rd now =
     bind (r_smembers rd workers_set_key)
       (\<lambda>ids. if ids = [] then ret []
          else bind (r_mget rd (map worker_key ids)) (\<lambda>raws. collect_workers rd now (zip ids raws)))"

definition deregister :: "'s redis \<Rightarrow> string \<Rightarrow> ('s, bool) io" where
  "deregister rd i =
     bind (r_delete rd (worker_key i))
       (\<lambda>removed. bind (r_srem rd workers_set_key i) (\<lambda>_. ret (0 < removed)))"

section \<open>Lemmas\<close>

lemma key_lawsD:
  assumes "keyspace_laws rd kv members"
  shows "r_get rd k s = (Inr (kv s k), s)"
    and "\<exists>s'. r_set rd k v s = (Inr (), s') \<and> kv s' = (kv s)(k \<mapsto> v) \<and> members s' = members s"
    and "\<exists>s'. r_delete rd k s = (Inr (if kv s k = None then 0 else 1), s')
        \<and> kv s' = (kv s)(k := None) \<and> members s' = members s"
    and "r_mget rd ks s = (Inr (map (kv s) ks), s)"
    and "\<exists>n s'. r_sadd rd k v s = (Inr n, s') \<and> kv s' = kv s
        \<and> members s' = (members s)(k := insert v (members s k))"
    and "\<exists>n s'. r_srem rd k v s = (Inr n, s') \<and> kv s' = kv s
        \<and> members s' = (members s)(k := members s k - {v})"
    and "\<exists>xs. r_smembers rd k s = (Inr xs, s) \<and> set xs = members s k \<and> distinct xs"
proof -
  note h = assms [unfolded keyspace_laws_def]
  show "r_get rd k s = (Inr (kv s k), s)" by (rule h [THEN conjunct1, rule_format])
  show "\<exists>s'. r_set rd k v s = (Inr (), s') \<and> kv s' = (kv s)(k \<mapsto> v) \<and> members s' = members s"
    by (rule h [THEN conjunct2, THEN conjunct1, rule_format])
  show "\<exists>s'. r_delete rd k s = (Inr (if kv s k = None then 0 else 1), s')
        \<and> kv s' = (kv s)(k := None) \<and> members s' = members s"
    by (rule h [THEN conjunct2, THEN conjunct2, THEN conjunct2, THEN conjunct1, rule_format])
  show "r_mget rd ks s = (Inr (map (kv s) ks), s)"
    by (rule h [THEN conjunct2, THEN conjunct2, THEN conjunct2, THEN conjunct2, THEN conjunct1, rule_format])
  show "\<exists>n s'. r_sadd rd k v s = (Inr n, s') \<and> kv s' = kv s
        \<and> members s' = (members s)(k := insert v (members s k))"
    by (rule h [THEN conjunct2, THEN conjunct2, THEN conjunct2, THEN conjunct2, THEN conjunct2, THEN conjunct1, rule_format])
  show "\<exists>n s'. r_srem rd k v s = (Inr n, s') \<and> kv s' = kv s
        \<and> members s' = (members s)(k := members s k - {v})"
    by (rule h [THEN conjunct2, THEN conjunct2, THEN conjunct2, THEN conjunct2, THEN conjunct2, THEN conjunct2,
          THEN conjunct1, rule_format])
  show "\<exists>xs. r_smembers rd k s = (Inr xs, s) \<and> set xs = members s k \<and> distinct xs"
    by (rule h [THEN conjunct2, THEN conjunct2, THEN conjunct2, THEN conjunct2, THEN conjunct2, THEN conjunct2,
          THEN conjunct2, rule_format])
qed

definition wf_record :: "worker_record \<Rightarrow> bool" where
  "wf_record r \<longleftrightarrow> wf_json (JDict (record_dict r))"

lemma record_roundtrip: "record_from_dict now (JDict (record_dict r)) = Inr r"
  by (simp add: record_from_dict_def record_dict_def record_fields_def required_fields_def dict_get_def)

lemma load_dumped: "wf_record r \<Longrightarrow> load_record now (dumps (JDict (record_dict r))) = Inr r"
  by (simp add: load_record_def wf_record_def record_roundtrip del: dumps.simps wf_json.simps)

text \<open>The worker stored under an id, if any.\<close>

definition stored_worker :: "('s \<Rightarrow> string \<Rightarrow> string option) \<Rightarrow> json \<Rightarrow> 's \<Rightarrow> string \<Rightarrow> worker_record option" where
  "stored_worker kv now s i =
     (case kv s (worker_key i) of None \<Rightarrow> None
      | Some t \<Rightarrow> (case load_record now t of Inl _ \<Rightarrow> None | Inr r \<Rightarrow> Some r))"

text \<open>A registry in which every stored text is a well-formed record.\<close>

definition registry_ok :: "('s \<Rightarrow> string \<Rightarrow> string option) \<Rightarrow> json \<Rightarrow> 's \<Rightarrow> bool" where
  "registry_ok kv now s \<longleftrightarrow> (\<forall>i t. kv s (worker_key i) = Some t \<longrightarrow>
     (\<exists>r. load_record now t = Inr r \<and> wf_record r))"

lemma wf_record_joined: "wf_record r \<Longrightarrow> wf_record old \<Longrightarrow> wf_record (r\<lparr>wr_registered_at := wr_registered_at old\<rparr>)"
  by (simp add: wf_record_def record_dict_def)

lemma stored_worker_wf: "registry_ok kv now s \<Longrightarrow> stored_worker kv now s i = Some r \<Longrightarrow> wf_record r"
  by (fastforce simp: registry_ok_def stored_worker_def split: option.splits sum.splits)

lemma get_worker_eq:
  assumes "keyspace_laws rd kv members" "registry_ok kv now s"
  shows "get_worker rd now i s = (Inr (stored_worker kv now s i), s)"
proof (cases "kv s (worker_key i)")
  case None
  then show ?thesis
    by (simp add: get_worker_def bind_def key_lawsD(1) [OF assms(1)] ret_def stored_worker_def)
next
  case (Some t)
  then obtain r where "load_record now t = Inr r" using assms(2) by (auto simp: registry_ok_def)
  with Some show ?thesis
    by (simp add: get_worker_def bind_def key_lawsD(1) [OF assms(1)] lift_result_def stored_worker_def)
qed

lemma worker_key_inj [simp]: "worker_key i = worker_key j \<longleftrightarrow> i = j"
  by (simp add: worker_key_def)

text \<open>Collecting drops exactly the ids without a key from the set.\<close>

lemma collect_workers_eq:
  assumes laws: "keyspace_laws rd kv members"
  shows "registry_ok kv now s \<Longrightarrow> \<exists>s'. collect_workers rd now (zip ids (map (\<lambda>i. kv s (worker_key i)) ids)) t =
      (Inr (map (\<lambda>i. the (stored_worker kv now s i)) (filter (\<lambda>i. kv s (worker_key i) \<noteq> None) ids)), s')
    \<and> kv s' = kv t
    \<and> members s' = (members t)(workers_set_key :=
        members t workers_set_key - {i \<in> set ids. kv s (worker_key i) = None})"
proof (induction ids arbitrary: t)
  case Nil
  then show ?case by (simp add: ret_def)
next
  case (Cons i ids)
  show ?case
  proof (cases "kv s (worker_key i)")
    case None
    obtain n t1 where t1: "r_srem rd workers_set_key i t = (Inr n, t1)" "kv t1 = kv t"
      "members t1 = (members t)(workers_set_key := members t workers_set_key - {i})"
      using key_lawsD(6) [OF laws] by blast
    obtain s' where s': "collect_workers rd now (zip ids (map (\<lambda>i. kv s (worker_key i)) ids)) t1 =
        (Inr (map (\<lambda>i. the (stored_worker kv now s i)) (filter (\<lambda>i. kv s (worker_key i) \<noteq> None) ids)), s')"
      "kv s' = kv t1"
      "members s' = (members t1)(workers_set_key :=
          members t1 workers_set_key - {i \<in> set ids. kv s (worker_key i) = None})"
      using Cons.IH [OF Cons.prems, of t1] by blast
    have "members t workers_set_key - {i} - {i \<in> set ids. kv s (worker_key i) = None}
        = members t workers_set_key - {j \<in> set (i # ids). kv s (worker_key j) = None}"
      using None by auto
    then have m: "members s' = (members t)(workers_set_key :=
        members t workers_set_key - {j \<in> set (i # ids). kv s (worker_key j) = None})"
      by (simp only: s'(3) t1(3) fun_upd_upd fun_upd_same)
    have "collect_workers rd now (zip (i # ids) (map (\<lambda>i. kv s (worker_key i)) (i # ids))) t =
        (Inr (map (\<lambda>i. the (stored_worker kv now s i)) (filter (\<lambda>i. kv s (worker_key i) \<noteq> None) (i # ids))), s')"
      using None t1(1) s'(1) by (simp add: bind_def)
    with m s'(2) t1(2) show ?thesis by metis
  next
    case (Some raw)
    obtain r where r: "load_record now raw = Inr r" using Cons.prems Some by (auto simp: registry_ok_def)
    obtain s' where s': "collect_workers rd now (zip ids (map (\<lambda>i. kv s (worker_key i)) ids)) t =
        (Inr (map (\<lambda>i. the (stored_worker kv now s i)) (filter (\<lambda>i. kv s (worker_key i) \<noteq> None) ids)), s')"
      "kv s' = kv t"
      "members s' = (members t)(workers_set_key :=
          members t workers_set_key - {i \<in> set ids. kv s (worker_key i) = None})"
      using Cons.IH [OF Cons.prems, of t] by blast
    have "{j \<in> set (i # ids). kv s (worker_key j) = None} = {i \<in> set ids. kv s (worker_key i) = None}"
      using Some by auto
    then have m: "members s' = (members t)(workers_set_key :=
        members t workers_set_key - {j \<in> set (i # ids). kv s (worker_key j) = None})"
      by (simp only: s'(3))
    have "collect_workers rd now (zip (i # ids) (map (\<lambda>i. kv s (worker_key i)) (i # ids))) t =
        (Inr (map (\<lambda>i. the (stored_worker kv now s i)) (filter (\<lambda>i. kv s (worker_key i) \<noteq> None) (i # ids))), s')"
      using Some r s'(1) by (simp add: bind_def lift_result_def ret_def) (simp add: stored_worker_def)
    with m s'(2) show ?thesis by metis
  qed
qed

text \<open>What registering stores: the new profile with the old registration time, if there was one.\<close>

definition joined :: "worker_record option \<Rightarrow> worker_record \<Rightarrow> worker_record" where
  "joined old r = (case old of None \<Rightarrow> r | Some o' \<Rightarrow> r\<lparr>wr_registered_at := wr_registered_at o'\<rparr>)"

lemma wf_joined: "registry_ok kv now s \<Longrightarrow> wf_record r \<Longrightarrow> wf_record (joined (stored_worker kv now s i) r)"
  by (cases "stored_worker kv now s i") (simp_all add: joined_def wf_record_joined stored_worker_wf)

lemma register_effect:
  assumes "keyspace_laws rd kv members" "registry_ok kv now s"
  shows "\<exists>s'. register rd now i r s = (Inr (joined (stored_worker kv now s i) r), s')
    \<and> kv s' = (kv s)(worker_key i \<mapsto> dumps (JDict (record_dict (joined (stored_worker kv now s i) r))))
    \<and> members s' = (members s)(workers_set_key := insert i (members s workers_set_key))"
proof -
  let ?saved = "joined (stored_worker kv now s i) r"
  obtain s1 where s1: "r_set rd (worker_key i) (dumps (JDict (record_dict ?saved))) s = (Inr (), s1)"
      "kv s1 = (kv s)(worker_key i \<mapsto> dumps (JDict (record_dict ?saved)))" "members s1 = members s"
    using key_lawsD(2) [OF assms(1)] by blast
  obtain n s2 where s2: "r_sadd rd workers_set_key i s1 = (Inr n, s2)" "kv s2 = kv s1"
      "members s2 = (members s1)(workers_set_key := insert i (members s1 workers_set_key))"
    using key_lawsD(5) [OF assms(1)] by blast
  have "register rd now i r s = (Inr ?saved, s2)"
    by (simp add: register_def bind_def get_worker_eq [OF assms] Let_def s1(1) [unfolded joined_def] s2(1) ret_def
        joined_def del: dumps.simps)
  with s1(2,3) s2(2,3) show ?thesis by (intro exI [of _ s2]) simp
qed

lemma deregister_effect:
  assumes "keyspace_laws rd kv members"
  shows "\<exists>s'. deregister rd i s = (Inr (kv s (worker_key i) \<noteq> None), s')
    \<and> kv s' = (kv s)(worker_key i := None)
    \<and> members s' = (members s)(workers_set_key := members s workers_set_key - {i})"
proof -
  obtain s1 where s1: "r_delete rd (worker_key i) s = (Inr (if kv s (worker_key i) = None then 0 else 1), s1)"
      "kv s1 = (kv s)(worker_key i := None)" "members s1 = members s"
    using key_lawsD(3) [OF assms] by blast
  obtain n s2 where s2: "r_srem rd workers_set_key i s1 = (Inr n, s2)" "kv s2 = kv s1"
      "members s2 = (members s1)(workers_set_key := members s1 workers_set_key - {i})"
    using key_lawsD(6) [OF assms] by blast
  have "deregister rd i s = (Inr (kv s (worker_key i) \<noteq> None), s2)"
    by (simp add: deregister_def bind_def s1(1) s2(1) ret_def)
  with s1(2,3) s2(2,3) show ?thesis by (intro exI [of _ s2]) simp
qed

section \<open>Properties\<close>

text \<open>
  C23. Registering is an upsert that keeps the join time: afterwards the worker is read back with the
  profile just reported and, if it was registered before, its original registration time; no other
  worker changes, and its id is listed.
\<close>

theorem register_then_read:
  assumes "keyspace_laws rd kv members" and "registry_ok kv now s"
    and "wf_record r"
  shows "\<exists>saved s'. register rd now i r s = (Inr saved, s')
    \<and> saved = (case stored_worker kv now s i of None \<Rightarrow> r | Some old \<Rightarrow> r\<lparr>wr_registered_at := wr_registered_at old\<rparr>)
    \<and> get_worker rd now i s' = (Inr (Some saved), s')
    \<and> (\<forall>j. j \<noteq> i \<longrightarrow> stored_worker kv now s' j = stored_worker kv now s j)
    \<and> members s' workers_set_key = insert i (members s workers_set_key) \<and> registry_ok kv now s'"
proof -
  let ?saved = "joined (stored_worker kv now s i) r"
  have wf: "wf_record ?saved" by (rule wf_joined [OF assms(2,3)])
  obtain s2 where reg: "register rd now i r s = (Inr ?saved, s2)"
      and kv: "kv s2 = (kv s)(worker_key i \<mapsto> dumps (JDict (record_dict ?saved)))"
      and mem: "members s2 = (members s)(workers_set_key := insert i (members s workers_set_key))"
    using register_effect [OF assms(1,2)] by blast
  have ok: "registry_ok kv now s2"
    using assms(2) load_dumped [OF wf] wf by (auto simp: registry_ok_def kv simp del: dumps.simps split: if_splits)
  have "stored_worker kv now s2 i = Some ?saved"
  proof -
    have k: "kv s2 (worker_key i) = Some (dumps (JDict (record_dict ?saved)))"
      by (simp only: kv fun_upd_same)
    show ?thesis
      unfolding stored_worker_def [of kv now s2 i] k by (simp only: option.case load_dumped [OF wf] sum.case)
  qed
  then have "get_worker rd now i s2 = (Inr (Some ?saved), s2)" by (simp add: get_worker_eq [OF assms(1) ok])
  moreover have "stored_worker kv now s2 j = stored_worker kv now s j" if "j \<noteq> i" for j
    using that by (simp add: stored_worker_def kv)
  ultimately show ?thesis using reg ok mem by (intro exI [of _ ?saved] exI [of _ s2]) (simp add: joined_def)
qed

definition demo_record :: "json \<Rightarrow> worker_record" where
  "demo_record t = \<lparr>wr_worker_id = JStr ''mac'', wr_url = JStr ''http://mac:11434'', wr_name = JStr ''Mac'',
     wr_ram_gb = JFloat 160 1, wr_has_gpu = JBool False, wr_vram_gb = JNull, wr_models = JList [],
     wr_registered_at = t, wr_last_heartbeat = t\<rparr>"

lemma ref_registry_empty: "registry_ok ref_kv now ref_empty"
  by (simp add: registry_ok_def ref_empty_def)

lemma demo_record_wf: "wf_record (demo_record (JFloat 15 1))"
  by (simp add: wf_record_def demo_record_def record_dict_def)

theorem register_then_read_witness:
  "\<exists>s'. get_worker ref_redis JNull ''mac'' s' = (Inr (Some (demo_record (JFloat 15 1))), s')"
proof -
  have none: "stored_worker ref_kv JNull ref_empty ''mac'' = None"
    by (simp add: stored_worker_def ref_empty_def)
  from register_then_read [OF ref_keyspace_laws ref_registry_empty demo_record_wf, of JNull "''mac''"]
  obtain s' where "get_worker ref_redis JNull ''mac'' s' = (Inr (Some (demo_record (JFloat 15 1))), s')"
    unfolding none option.case by blast
  then show ?thesis by blast
qed

text \<open>
  Listing returns exactly the workers that are both in the set and stored, each once, drops the
  other ids from the set, and changes nothing else; after a worker is deregistered it is not listed.
\<close>

theorem list_workers_drops_ghosts:
  assumes "keyspace_laws rd kv members" and "registry_ok kv now s"
  shows "\<exists>ids s'. list_workers rd now s = (Inr (map (\<lambda>i. the (stored_worker kv now s i)) ids), s')
    \<and> distinct ids \<and> set ids = {i \<in> members s workers_set_key. stored_worker kv now s i \<noteq> None}
    \<and> members s' workers_set_key = set ids \<and> kv s' = kv s
    \<and> (\<forall>i. \<exists>t. deregister rd i s = (Inr (kv s (worker_key i) \<noteq> None), t)
          \<and> stored_worker kv now t i = None \<and> i \<notin> members t workers_set_key)"
proof -
  obtain xs where xs: "r_smembers rd workers_set_key s = (Inr xs, s)" "set xs = members s workers_set_key" "distinct xs"
    using key_lawsD(7) [OF assms(1)] by blast
  let ?ids = "filter (\<lambda>i. kv s (worker_key i) \<noteq> None) xs"
  have stored: "stored_worker kv now s i \<noteq> None \<longleftrightarrow> kv s (worker_key i) \<noteq> None" for i
    using assms(2) by (fastforce simp: stored_worker_def registry_ok_def split: option.splits sum.splits)
  have "\<exists>s'. list_workers rd now s = (Inr (map (\<lambda>i. the (stored_worker kv now s i)) ?ids), s')
      \<and> members s' workers_set_key = set ?ids \<and> kv s' = kv s"
  proof (cases "xs = []")
    case True
    with xs show ?thesis by (simp add: list_workers_def bind_def ret_def)
  next
    case False
    obtain s' where s': "collect_workers rd now (zip xs (map (\<lambda>i. kv s (worker_key i)) xs)) s =
        (Inr (map (\<lambda>i. the (stored_worker kv now s i)) ?ids), s')" "kv s' = kv s"
      "members s' = (members s)(workers_set_key := members s workers_set_key - {i \<in> set xs. kv s (worker_key i) = None})"
      using collect_workers_eq [OF assms(1,2), of xs s] by blast
    have "map (kv s) (map worker_key xs) = map (\<lambda>i. kv s (worker_key i)) xs" by simp
    then have "list_workers rd now s = (Inr (map (\<lambda>i. the (stored_worker kv now s i)) ?ids), s')"
      using False s'(1) xs(1) by (simp add: list_workers_def bind_def key_lawsD(4) [OF assms(1)] comp_def)
    moreover have "members s' workers_set_key = set ?ids" using s'(3) xs(2) by auto
    ultimately show ?thesis using s'(2) by blast
  qed
  moreover have "\<exists>t. deregister rd i s = (Inr (kv s (worker_key i) \<noteq> None), t)
      \<and> stored_worker kv now t i = None \<and> i \<notin> members t workers_set_key" for i
  proof -
    obtain t where "deregister rd i s = (Inr (kv s (worker_key i) \<noteq> None), t)" "kv t = (kv s)(worker_key i := None)"
        "members t = (members s)(workers_set_key := members s workers_set_key - {i})"
      using deregister_effect [OF assms(1)] by blast
    then show ?thesis by (intro exI [of _ t]) (simp add: stored_worker_def)
  qed
  moreover have "distinct ?ids" "set ?ids = {i \<in> members s workers_set_key. stored_worker kv now s i \<noteq> None}"
    using xs stored by auto
  ultimately show ?thesis by blast
qed

theorem list_workers_drops_ghosts_witness:
  "\<exists>s'. list_workers ref_redis JNull (ref_empty\<lparr>ref_sets := (\<lambda>_. [''ghost''])\<rparr>) = (Inr [], s')
    \<and> ref_members s' workers_set_key = {}"
proof -
  let ?s = "ref_empty\<lparr>ref_sets := (\<lambda>_. [''ghost''])\<rparr>"
  have ok: "registry_ok ref_kv JNull ?s" by (simp add: registry_ok_def ref_empty_def)
  have "stored_worker ref_kv JNull ?s i = None" for i by (simp add: stored_worker_def ref_empty_def)
  with list_workers_drops_ghosts [OF ref_keyspace_laws ok] show ?thesis by fastforce
qed

end
