(* ===== verification/Gateway.thy ===== *)
theory Gateway
  imports WorkerPool Registry
begin

text \<open>
  \<^verbatim>\<open>gateway/routes.py\<close>: the HTTP routes. A route that calls a worker is two steps around the await,
  like the dispatch it uses; the state is the world of the queue workers, which the gateway shares,
  with the gateway's counters and the background tasks it has scheduled. FastAPI's part (parsing
  the request, turning an \<open>HTTPException\<close> into a response) is not modelled.
\<close>

section \<open>State and requests\<close>

record gw_settings =
  api_key :: string
  default_model :: string
  routing_strategy :: string
  compression_threshold :: int
  compression_keep_recent :: int

record 's gateway =
  gw :: "'s world"
  agent_requests :: "string \<times> bool \<Rightarrow> nat"
  workflow_failures :: "string \<Rightarrow> nat"
  observed_tokens :: "int list"
  background :: "string option list"

record agent_metadata =
  rq_agent_id :: "string option"
  rq_workflow_id :: "string option"
  rq_request_id :: "string option"
  rq_parent_id :: "string option"

record generate_request = agent_metadata +
  rq_prompt :: string
  rq_model :: "string option"

record chat_request = agent_metadata +
  rq_messages :: "(string \<times> string) list"
  rq_chat_model :: "string option"

definition on_lb :: "balancer \<Rightarrow> 's gateway \<Rightarrow> 's gateway" where
  "on_lb lb g = g\<lparr>gw := (gw g)\<lparr>w_lb := lb\<rparr>\<rparr>"

definition on_cm :: "context_manager \<Rightarrow> 's gateway \<Rightarrow> 's gateway" where
  "on_cm cm g = g\<lparr>gw := (gw g)\<lparr>w_cm := cm\<rparr>\<rparr>"

definition on_redis :: "'s \<Rightarrow> 's gateway \<Rightarrow> 's gateway" where
  "on_redis s g = g\<lparr>gw := (gw g)\<lparr>w_redis := s\<rparr>\<rparr>"

abbreviation gw_lb :: "'s gateway \<Rightarrow> balancer" where "gw_lb g \<equiv> w_lb (gw g)"
abbreviation gw_cm :: "'s gateway \<Rightarrow> context_manager" where "gw_cm g \<equiv> w_cm (gw g)"

section \<open>Helpers of the routes\<close>

definition unauthorized :: py_exc where
  "unauthorized = HTTPException 401 ''Invalid or missing API key''"

definition verify_api_key :: "gw_settings \<Rightarrow> string option \<Rightarrow> unit result" where
  "verify_api_key cfg key = (if key \<noteq> Some (api_key cfg) then Inl unauthorized else Inr ())"

definition opt_field :: "string \<Rightarrow> string option \<Rightarrow> json pydict" where
  "opt_field k v = (case v of None \<Rightarrow> [] | Some s \<Rightarrow> [(k, JStr s)])"

definition resolve_agent_metadata ::
  "string \<Rightarrow> 'a agent_metadata_scheme \<Rightarrow> string \<Rightarrow> 's gateway \<Rightarrow> json pydict \<times> 's gateway" where
  "resolve_agent_metadata uuid rq endpoint g =
     ([(''request_id'', JStr (if truthy (rq_request_id rq) then the (rq_request_id rq) else uuid))]
        @ opt_field ''agent_id'' (rq_agent_id rq) @ opt_field ''workflow_id'' (rq_workflow_id rq)
        @ opt_field ''parent_request_id'' (rq_parent_id rq),
      g\<lparr>agent_requests := (\<lambda>k. if k = (endpoint, rq_agent_id rq \<noteq> None) then agent_requests g k + 1
                              else agent_requests g k)\<rparr>)"

text \<open>\<open>meta.get(k)\<close>\<close>

definition meta_get :: "json pydict \<Rightarrow> string \<Rightarrow> string option" where
  "meta_get m k = opt_str (dict_get m k JNull)"

definition record_workflow_failure :: "json pydict \<Rightarrow> string \<Rightarrow> 's gateway \<Rightarrow> 's gateway" where
  "record_workflow_failure m endpoint g =
     (if meta_get m ''workflow_id'' \<noteq> None
      then g\<lparr>workflow_failures := (workflow_failures g)(endpoint := workflow_failures g endpoint + 1)\<rparr> else g)"

definition get_prospective_context_tokens ::
  "json pydict \<Rightarrow> string \<Rightarrow> 's gateway \<Rightarrow> int option \<times> 's gateway" where
  "get_prospective_context_tokens m txt g =
     (case meta_get m ''workflow_id'' of
        None \<Rightarrow> (None, g)
      | Some wid \<Rightarrow>
          (let n = cm_total_tokens (gw_cm g) wid + estimate_tokens txt
           in (Some n, g\<lparr>observed_tokens := observed_tokens g @ [n]\<rparr>)))"

definition record_context :: "stamp \<Rightarrow> json pydict \<Rightarrow> string \<Rightarrow> 's gateway \<Rightarrow> 's gateway" where
  "record_context st m txt g =
     (case meta_get m ''workflow_id'' of
        None \<Rightarrow> g
      | Some wid \<Rightarrow>
          on_cm (snd (cm_record st txt CONVERSATION (Some wid) (meta_get m ''agent_id'') None (1 / 2) (gw_cm g))) g)"

section \<open>The synchronous routes\<close>

text \<open>
  \<open>/generate\<close> and \<open>/chat\<close> up to the await: what the caller sent is recorded only after a worker was
  picked. The result is the metadata and the client that serves the request.
\<close>

definition route_begin ::
  "gw_settings \<Rightarrow> string \<Rightarrow> string \<Rightarrow> stamp \<Rightarrow> real \<Rightarrow> real \<Rightarrow> string option \<Rightarrow> 'a agent_metadata_scheme \<Rightarrow> string
     \<Rightarrow> 's gateway \<Rightarrow> (json pydict \<times> client) result \<times> 's gateway" where
  "route_begin cfg endpoint uuid st now1 now2 key rq txt g =
     (case verify_api_key cfg key of
        Inl e \<Rightarrow> (Inl e, g)
      | Inr _ \<Rightarrow>
          (let (m, g1) = resolve_agent_metadata uuid rq endpoint g;
               (tokens, g2) = get_prospective_context_tokens m txt g1
           in case dispatch_begin (routing_strategy cfg) now1 now2 tokens (gw_lb g2) of
                (Inl e, lb) \<Rightarrow>
                  if is_runtime_error e
                  then (Inl (HTTPException 503 (exc_text e)), record_workflow_failure m endpoint (on_lb lb g2))
                  else (Inl e, on_lb lb g2)
              | (Inr w, lb) \<Rightarrow> (Inr (m, w), record_context st m txt (on_lb lb g2))))"

text \<open>The rest, from the worker's answer on.\<close>

definition route_end ::
  "string \<Rightarrow> call_end \<Rightarrow> json pydict \<Rightarrow> client \<Rightarrow> 's gateway \<Rightarrow> json pydict result \<times> 's gateway" where
  "route_end endpoint c m w g =
     (case stop_call c w (gw_lb g) of
        (Inr reply, lb) \<Rightarrow>
          (Inr (dict_merge m reply),
           (on_lb lb g)\<lparr>background := background g @ [meta_get m ''workflow_id'']\<rparr>)
      | (Inl e, lb) \<Rightarrow>
          if is_runtime_error e
          then (Inl (HTTPException 503 (exc_text e)), record_workflow_failure m endpoint (on_lb lb g))
          else (Inl e, on_lb lb g))"

definition chat_text :: "chat_request \<Rightarrow> string" where
  "chat_text rq = str_join newline (map snd (rq_messages rq))"

text \<open>\<open>req.model or settings.DEFAULT_MODEL\<close>\<close>

definition effective_model :: "gw_settings \<Rightarrow> string option \<Rightarrow> string" where
  "effective_model cfg mo = (if truthy mo then the mo else default_model cfg)"

text \<open>With the metadata and the client, a route's first step yields the body posted to the worker.\<close>

definition with_body :: "json \<Rightarrow> (json pydict \<times> client) result \<times> 's gateway \<Rightarrow> (json pydict \<times> client \<times> json) result \<times> 's gateway" where
  "with_body body p = (case p of (Inl e, g) \<Rightarrow> (Inl e, g) | (Inr (m, w), g) \<Rightarrow> (Inr (m, w, body), g))"

definition generate_begin ::
  "gw_settings \<Rightarrow> string \<Rightarrow> stamp \<Rightarrow> real \<Rightarrow> real \<Rightarrow> string option \<Rightarrow> generate_request \<Rightarrow> 's gateway
     \<Rightarrow> (json pydict \<times> client \<times> json) result \<times> 's gateway" where
  "generate_begin cfg uuid st now1 now2 key rq g =
     with_body (generate_body (JStr (effective_model cfg (rq_model rq))) (JStr (rq_prompt rq)))
       (route_begin cfg ''/generate'' uuid st now1 now2 key rq (rq_prompt rq) g)"

definition generate_end ::
  "call_end \<Rightarrow> json pydict \<Rightarrow> client \<Rightarrow> 's gateway \<Rightarrow> json pydict result \<times> 's gateway" where
  "generate_end c m w g = route_end ''/generate'' (c\<lparr>ce_chat := False\<rparr>) m w g"

definition message_json :: "string \<times> string \<Rightarrow> json" where
  "message_json p = JDict [(''role'', JStr (fst p)), (''content'', JStr (snd p))]"

definition chat_begin ::
  "gw_settings \<Rightarrow> string \<Rightarrow> stamp \<Rightarrow> real \<Rightarrow> real \<Rightarrow> string option \<Rightarrow> chat_request \<Rightarrow> 's gateway
     \<Rightarrow> (json pydict \<times> client \<times> json) result \<times> 's gateway" where
  "chat_begin cfg uuid st now1 now2 key rq g =
     with_body (chat_body (JStr (effective_model cfg (rq_chat_model rq))) (JList (map message_json (rq_messages rq))))
       (route_begin cfg ''/chat'' uuid st now1 now2 key rq (chat_text rq) g)"

definition chat_end ::
  "call_end \<Rightarrow> json pydict \<Rightarrow> client \<Rightarrow> 's gateway \<Rightarrow> json pydict result \<times> 's gateway" where
  "chat_end c m w g = route_end ''/chat'' (c\<lparr>ce_chat := True\<rparr>) m w g"

section \<open>The queued route\<close>

definition opt_json :: "string option \<Rightarrow> json" where
  "opt_json v = (case v of None \<Rightarrow> JNull | Some s \<Rightarrow> JStr s)"

definition queued_payload :: "gw_settings \<Rightarrow> generate_request \<Rightarrow> int option \<Rightarrow> payload" where
  "queued_payload cfg rq tokens =
     [(''model'', JStr (effective_model cfg (rq_model rq))), (''prompt'', JStr (rq_prompt rq)),
      (''agent_id'', opt_json (rq_agent_id rq)), (''workflow_id'', opt_json (rq_workflow_id rq)),
      (''parent_request_id'', opt_json (rq_parent_id rq)),
      (''context_tokens'', case tokens of None \<Rightarrow> JNull | Some n \<Rightarrow> JInt n)]"

definition request_id_of :: "json pydict \<Rightarrow> string" where
  "request_id_of m = (case meta_get m ''request_id'' of None \<Rightarrow> [] | Some i \<Rightarrow> i)"

definition queued_begin ::
  "'s redis \<Rightarrow> pool_config \<Rightarrow> gw_settings \<Rightarrow> string \<Rightarrow> string option \<Rightarrow> generate_request \<Rightarrow> 's gateway
     \<Rightarrow> json pydict result \<times> 's gateway" where
  "queued_begin rd pc cfg uuid key rq g =
     (case verify_api_key cfg key of
        Inl e \<Rightarrow> (Inl e, g)
      | Inr _ \<Rightarrow>
          (let (m, g1) = resolve_agent_metadata uuid rq ''/queued/generate'' g;
               (tokens, g2) = get_prospective_context_tokens m (rq_prompt rq) g1
           in case pool_enqueue rd pc (request_id_of m) (queued_payload cfg rq tokens) (w_redis (gw g2)) of
                (Inl e, s) \<Rightarrow> (Inl e, on_redis s g2)
              | (Inr _, s) \<Rightarrow> (Inr m, on_redis s g2)))"

text \<open>From polling for the result on.\<close>

definition queued_end ::
  "'s redis \<Rightarrow> pool_config \<Rightarrow> (nat \<Rightarrow> 's \<Rightarrow> 's) \<Rightarrow> json pydict \<Rightarrow> 's gateway \<Rightarrow> json pydict result \<times> 's gateway" where
  "queued_end rd pc others m g =
     (case get_result rd pc (request_id_of m) 120 others (w_redis (gw g)) of
        (Inl e, s) \<Rightarrow> (Inl e, on_redis s g)
      | (Inr r, s) \<Rightarrow>
          (case r of
             Some (JDict (x # d)) \<Rightarrow>
               (Inr (dict_merge m (x # d)),
                if map_of (x # d) ''error'' \<noteq> None
                then record_workflow_failure m ''/queued/generate'' (on_redis s g) else on_redis s g)
           | _ \<Rightarrow> (Inl (HTTPException 504 ''Request timed out in queue''),
                   record_workflow_failure m ''/queued/generate'' (on_redis s g))))"

section \<open>The background compression task\<close>

text \<open>\<open>maybe_compress_context\<close> up to the summarizer's await; \<open>None\<close> when there is nothing to wait for.\<close>

definition compress_task_begin ::
  "gw_settings \<Rightarrow> real \<Rightarrow> real \<Rightarrow> string option \<Rightarrow> 's gateway \<Rightarrow> (context_item list \<times> client \<times> json) option result \<times> 's gateway" where
  "compress_task_begin cfg now1 now2 wid g =
     (case wid of
        None \<Rightarrow> (Inr None, g)
      | Some i \<Rightarrow>
          (case due_items (cm_store (gw_cm g)) i (compression_threshold cfg) (compression_keep_recent cfg) of
             None \<Rightarrow> (Inr None, g)
           | Some olds \<Rightarrow>
               (case summarizer_begin (routing_strategy cfg) now1 now2 (default_model cfg) (combined_content olds) (gw_lb g) of
                  (Inl e, lb) \<Rightarrow> (if is_runtime_error e then Inr None else Inl e, on_lb lb g)
                | (Inr (w, body), lb) \<Rightarrow> (Inr (Some (olds, w, body)), on_lb lb g))))"

text \<open>
  The rest. A \<open>RuntimeError\<close> of the summarizer is caught and printed; any other exception, that of a
  counter included, leaves the task. \<open>inc\<close> is the counter of saved tokens.
\<close>

definition compress_task_end ::
  "(int \<Rightarrow> py_exc option) \<Rightarrow> stamp \<Rightarrow> string \<Rightarrow> context_item list \<Rightarrow> call_end \<Rightarrow> client \<Rightarrow> 's gateway
     \<Rightarrow> unit result \<times> 's gateway" where
  "compress_task_end inc st wid olds c w g =
     (case summarizer_end (ce_inc c) (ce_latency c) (ce_outcome c) (ce_now c) w (gw_lb g) of
        (Inl e, lb) \<Rightarrow> (if is_runtime_error e then Inr () else Inl e, on_lb lb g)
      | (Inr (JStr txt), lb) \<Rightarrow>
          (case finish_due inc st wid olds (Inr txt) (gw_cm g) of
             (Inl e, cm) \<Rightarrow> (if is_runtime_error e then Inr () else Inl e, on_cm cm (on_lb lb g))
           | (Inr _, cm) \<Rightarrow> (Inr (), on_cm cm (on_lb lb g)))
      | (Inr _, lb) \<Rightarrow> (Inl (TypeError ''object has no len()''), on_lb lb g))"

section \<open>The other routes\<close>

record health_report =
  hr_queue_depth :: nat
  hr_worker_count :: int
  hr_workers :: "stats_row list"

text \<open>\<open>running\<close> is the autoscaler's worker count.\<close>

definition health :: "'s redis \<Rightarrow> pool_config \<Rightarrow> (nat \<Rightarrow> probe_outcome) \<Rightarrow> int \<Rightarrow> 's gateway \<Rightarrow> health_report result \<times> 's gateway" where
  "health rd pc probe running g =
     (let g1 = on_lb (health_check_all probe (gw_lb g)) g
      in case pool_queue_depth rd pc (w_redis (gw g1)) of
           (Inl e, s) \<Rightarrow> (Inl e, on_redis s g1)
         | (Inr d, s) \<Rightarrow>
             (case get_worker_stats (gw_lb g1) of
                Inl e \<Rightarrow> (Inl e, on_redis s g1)
              | Inr rows \<Rightarrow> (Inr \<lparr>hr_queue_depth = d, hr_worker_count = running, hr_workers = rows\<rparr>, on_redis s g1)))"

definition workers_route ::
  "gw_settings \<Rightarrow> (nat \<Rightarrow> probe_outcome) \<Rightarrow> string option \<Rightarrow> 's gateway \<Rightarrow> stats_row list result \<times> 's gateway" where
  "workers_route cfg probe key g =
     (case verify_api_key cfg key of Inl e \<Rightarrow> (Inl e, g)
      | Inr _ \<Rightarrow> (let g1 = on_lb (health_check_all probe (gw_lb g)) g in (get_worker_stats (gw_lb g1), g1)))"

definition authed :: "gw_settings \<Rightarrow> string option \<Rightarrow> ('s, 'b) io \<Rightarrow> 's gateway \<Rightarrow> 'b result \<times> 's gateway" where
  "authed cfg key act g =
     (case verify_api_key cfg key of Inl e \<Rightarrow> (Inl e, g)
      | Inr _ \<Rightarrow> (case act (w_redis (gw g)) of (r, s) \<Rightarrow> (r, on_redis s g)))"

definition queue_depth_route ::
  "'s redis \<Rightarrow> pool_config \<Rightarrow> gw_settings \<Rightarrow> string option \<Rightarrow> 's gateway \<Rightarrow> nat result \<times> 's gateway" where
  "queue_depth_route rd pc cfg key = authed cfg key (pool_queue_depth rd pc)"

record registration_request =
  rr_worker_id :: string
  rr_url :: string
  rr_name :: "string option"
  rr_ram_gb :: json
  rr_has_gpu :: bool
  rr_vram_gb :: json
  rr_models :: "string list"

definition record_of_request :: "json \<Rightarrow> registration_request \<Rightarrow> worker_record" where
  "record_of_request now rq =
     \<lparr>wr_worker_id = JStr (rr_worker_id rq), wr_url = JStr (rr_url rq),
      wr_name = JStr (if truthy (rr_name rq) then the (rr_name rq) else rr_worker_id rq),
      wr_ram_gb = rr_ram_gb rq, wr_has_gpu = JBool (rr_has_gpu rq), wr_vram_gb = rr_vram_gb rq,
      wr_models = JList (map JStr (rr_models rq)), wr_registered_at = now, wr_last_heartbeat = now\<rparr>"

definition register_worker ::
  "'s redis \<Rightarrow> gw_settings \<Rightarrow> json \<Rightarrow> string option \<Rightarrow> registration_request \<Rightarrow> 's gateway
     \<Rightarrow> json pydict result \<times> 's gateway" where
  "register_worker rd cfg now key rq =
     authed cfg key
       (bind (register rd now (rr_worker_id rq) (record_of_request now rq)) (\<lambda>r. ret (record_dict r)))"

definition list_registered_workers ::
  "'s redis \<Rightarrow> gw_settings \<Rightarrow> json \<Rightarrow> string option \<Rightarrow> 's gateway \<Rightarrow> json pydict list result \<times> 's gateway" where
  "list_registered_workers rd cfg now key =
     authed cfg key (bind (list_workers rd now) (\<lambda>rs. ret (map record_dict rs)))"

definition deregister_worker ::
  "'s redis \<Rightarrow> gw_settings \<Rightarrow> string option \<Rightarrow> string \<Rightarrow> 's gateway \<Rightarrow> json pydict result \<times> 's gateway" where
  "deregister_worker rd cfg key i =
     authed cfg key
       (bind (deregister rd i)
         (\<lambda>removed. if removed then ret [(''deregistered'', JStr i)]
            else raise (HTTPException 404 (''Worker '' @ [CHR 0x27] @ i @ [CHR 0x27] @ '' is not registered''))))"

section \<open>Lemmas\<close>

lemma on_sel [simp]:
  "gw_lb (on_lb lb g) = lb" "gw_cm (on_lb lb g) = gw_cm g" "gw_cm (on_cm cm g) = cm" "gw_lb (on_cm cm g) = gw_lb g"
  "gw_cm (on_redis s g) = gw_cm g" "gw_lb (on_redis s g) = gw_lb g" "w_redis (gw (on_redis s g)) = s"
  "workflow_failures (on_lb lb g) = workflow_failures g" "workflow_failures (on_cm cm g) = workflow_failures g"
  by (simp_all add: on_lb_def on_cm_def on_redis_def)

lemma failure_sel [simp]:
  "gw (record_workflow_failure m ep g) = gw g"
  by (simp add: record_workflow_failure_def)

text \<open>The metadata a request resolves to.\<close>

lemma meta_workflow [simp]:
  "meta_get (fst (resolve_agent_metadata uuid rq ep g)) ''workflow_id'' = rq_workflow_id rq"
  "meta_get (fst (resolve_agent_metadata uuid rq ep g)) ''agent_id'' = rq_agent_id rq"
  "gw (snd (resolve_agent_metadata uuid rq ep g)) = gw g"
  "workflow_failures (snd (resolve_agent_metadata uuid rq ep g)) = workflow_failures g"
  by (auto simp: resolve_agent_metadata_def meta_get_def dict_get_def opt_field_def opt_str_def
      split: option.split)

lemma prospective_sel [simp]:
  "gw (snd (get_prospective_context_tokens m txt g)) = gw g"
  "workflow_failures (snd (get_prospective_context_tokens m txt g)) = workflow_failures g"
  "fst (get_prospective_context_tokens m txt g) =
     map_option (\<lambda>wid. cm_total_tokens (gw_cm g) wid + estimate_tokens txt) (meta_get m ''workflow_id'')"
  by (auto simp: get_prospective_context_tokens_def Let_def split: option.split)

text \<open>The tokens a route asks the balancer for.\<close>

definition request_tokens :: "'a agent_metadata_scheme \<Rightarrow> string \<Rightarrow> 's gateway \<Rightarrow> int option" where
  "request_tokens rq txt g =
     map_option (\<lambda>wid. cm_total_tokens (gw_cm g) wid + estimate_tokens txt) (rq_workflow_id rq)"

lemma route_begin_pick:
  assumes "key = Some (api_key cfg)"
    and "dispatch_begin (routing_strategy cfg) now1 now2 (request_tokens rq txt g) (gw_lb g) = (x, lb)"
  obtains m g2 where "m = fst (resolve_agent_metadata uuid rq ep g)" "gw g2 = gw g"
    "workflow_failures g2 = workflow_failures g"
    "route_begin cfg ep uuid st now1 now2 key rq txt g =
      (case x of
         Inl e \<Rightarrow> if is_runtime_error e
           then (Inl (HTTPException 503 (exc_text e)), record_workflow_failure m ep (on_lb lb g2))
           else (Inl e, on_lb lb g2)
       | Inr w \<Rightarrow> (Inr (m, w), record_context st m txt (on_lb lb g2)))"
proof -
  obtain m g1 where mg: "resolve_agent_metadata uuid rq ep g = (m, g1)" by force
  obtain t g2 where tg: "get_prospective_context_tokens m txt g1 = (t, g2)" by force
  have m: "m = fst (resolve_agent_metadata uuid rq ep g)" and g1: "g1 = snd (resolve_agent_metadata uuid rq ep g)"
    using mg by simp_all
  have g2: "g2 = snd (get_prospective_context_tokens m txt g1)" and t: "t = fst (get_prospective_context_tokens m txt g1)"
    using tg by simp_all
  have "gw g2 = gw g" "workflow_failures g2 = workflow_failures g" by (simp_all add: g2 g1)
  moreover have "t = request_tokens rq txt g" by (simp add: t request_tokens_def m g1)
  ultimately show thesis
    using assms by (intro that [OF m]) (simp_all add: route_begin_def verify_api_key_def mg tg split: sum.split)
qed

lemma dispatch_begin_Inr:
  assumes "lb_inv lb" "dispatch_begin strat now1 now2 ctx lb = (Inr w, lb')"
  shows "w \<in> set (eligible_workers now1 ctx lb)"
  using assms pick_worker_Inr(1) [OF assms(1), of strat now1 now2 ctx w]
  by (auto simp: dispatch_begin_def split: prod.splits sum.splits)

lemma empty_workflow_listing: "store_inv s \<Longrightarrow> workflow_items s [] = []"
  using list_item [of s _ "[]"] by (cases "workflow_items s []") auto

text \<open>A request that is admitted is recorded in its workflow and fits the worker; a refused one is not recorded.\<close>

lemma route_begin_admits:
  assumes inv: "lb_inv (gw_lb g)" and "store_inv (cm_store (gw_cm g))" and "items (cm_store (gw_cm g)) (fresh_id st) = None"
    and "route_begin cfg ep uuid st now1 now2 key rq txt g = (Inr (m, w), g')"
  obtains it where "content it = txt" "ctype it = CONVERSATION" "agent_id it = rq_agent_id rq" "token_count it = estimate_tokens txt"
    "\<And>v. workflow_items (cm_store (gw_cm g')) v =
       workflow_items (cm_store (gw_cm g)) v @ (if rq_workflow_id rq = Some v \<and> v \<noteq> [] then [it] else [])"
    "\<And>wid. rq_workflow_id rq = Some wid \<Longrightarrow> cm_total_tokens (gw_cm g) wid + estimate_tokens txt \<le> max_context_tokens w"
    "store_inv (cm_store (gw_cm g'))" "lb_inv (gw_lb g')"
    "dom (items (cm_store (gw_cm g'))) \<subseteq> insert (fresh_id st) (dom (items (cm_store (gw_cm g))))"
proof -
  have key: "key = Some (api_key cfg)"
    using assms(4) by (auto simp: route_begin_def verify_api_key_def split: if_splits)
  obtain x lb where x: "dispatch_begin (routing_strategy cfg) now1 now2 (request_tokens rq txt g) (gw_lb g) = (x, lb)"
    by force
  obtain m' g2 where r: "m' = fst (resolve_agent_metadata uuid rq ep g)" "gw g2 = gw g"
    "workflow_failures g2 = workflow_failures g"
    "route_begin cfg ep uuid st now1 now2 key rq txt g =
      (case x of
         Inl e \<Rightarrow> if is_runtime_error e
           then (Inl (HTTPException 503 (exc_text e)), record_workflow_failure m' ep (on_lb lb g2))
           else (Inl e, on_lb lb g2)
       | Inr w \<Rightarrow> (Inr (m', w), record_context st m' txt (on_lb lb g2)))"
    by (rule route_begin_pick [OF key x]) (rule that)
  have xw: "x = Inr w" and mm: "m = m'" and g': "g' = record_context st m txt (on_lb lb g2)"
    using assms(4) r(4) by (auto split: sum.splits if_splits)
  have lbi: "lb_inv lb" using lb_inv_dispatch_begin [OF inv, of "routing_strategy cfg" now1 now2 "request_tokens rq txt g"] x by simp
  have lb': "gw_lb g' = lb" by (simp add: g' record_context_def split: option.split)
  have wid: "meta_get m ''workflow_id'' = rq_workflow_id rq" "meta_get m ''agent_id'' = rq_agent_id rq"
    by (simp_all add: mm r(1))
  define it where "it = (new_item st CONVERSATION txt)\<lparr>workflow_id := rq_workflow_id rq, agent_id := rq_agent_id rq,
    source := None, importance := 1 / 2\<rparr>"
  have it: "wf_item it" "item_id it = fresh_id st" "workflow_id it = rq_workflow_id rq" "content it = txt" "ctype it = CONVERSATION"
    "agent_id it = rq_agent_id rq" "token_count it = estimate_tokens txt"
    by (simp_all add: it_def new_item_def wf_item_def)
  have store: "cm_store (gw_cm g') = (if rq_workflow_id rq = None then cm_store (gw_cm g) else store_add it (cm_store (gw_cm g)))"
    by (auto simp: g' record_context_def wid cm_record_def it_def Let_def r(2) split: option.split)
  have fresh: "items (cm_store (gw_cm g)) (item_id it) = None" using assms(3) by (simp add: it)
  have el: "w \<in> set (eligible_workers now1 (request_tokens rq txt g) (gw_lb g))"
    using dispatch_begin_Inr [OF inv] x xw by blast
  show thesis
  proof (rule that [OF it(4-7)])
    show "workflow_items (cm_store (gw_cm g')) v =
       workflow_items (cm_store (gw_cm g)) v @ (if rq_workflow_id rq = Some v \<and> v \<noteq> [] then [it] else [])" for v
      using list_add [OF assms(2) it(1) fresh, of v] by (simp add: store it)
    show "cm_total_tokens (gw_cm g) wid + estimate_tokens txt \<le> max_context_tokens w" if "rq_workflow_id rq = Some wid" for wid
      using el by (simp add: eligible_workers_def eligible_def request_tokens_def that)
    show "store_inv (cm_store (gw_cm g'))" using store_inv_add [OF assms(2) it(1) fresh] assms(2) by (simp add: store)
    show "lb_inv (gw_lb g')" using lbi lb' by simp
    show "dom (items (cm_store (gw_cm g'))) \<subseteq> insert (fresh_id st) (dom (items (cm_store (gw_cm g))))"
      by (auto simp: store items_add it)
  qed
qed

lemma route_begin_refuses:
  assumes "lb_inv (gw_lb g)" "route_begin cfg ep uuid st now1 now2 key rq txt g = (Inl e, g')"
  shows "gw_cm g' = gw_cm g" "lb_inv (gw_lb g')"
proof -
  have inv: "lb_inv (snd (dispatch_begin (routing_strategy cfg) now1 now2 t (gw_lb g)))" for t
    by (rule lb_inv_dispatch_begin [OF assms(1)])
  obtain m g1 where mg: "resolve_agent_metadata uuid rq ep g = (m, g1)" by force
  obtain t g2 where tg: "get_prospective_context_tokens m txt g1 = (t, g2)" by force
  obtain x lb where x: "dispatch_begin (routing_strategy cfg) now1 now2 t (gw_lb g2) = (x, lb)" by force
  have "gw g1 = gw g" "gw g2 = gw g1"
    using meta_workflow(3) [of uuid rq ep g] prospective_sel(1) [of m "txt" g1] by (simp_all add: mg tg)
  with assms inv [of t] x mg tg show "gw_cm g' = gw_cm g" "lb_inv (gw_lb g')"
    by (auto simp: route_begin_def verify_api_key_def split: sum.splits if_splits)
qed

lemma route_end_keeps:
  assumes "lb_inv (gw_lb g)"
  shows "gw_cm (snd (route_end ep c m w g)) = gw_cm g" "lb_inv (gw_lb (snd (route_end ep c m w g)))"
proof -
  have "lb_inv (snd (stop_call c w (gw_lb g)))"
    unfolding stop_call_def by (rule lb_inv_dispatch_end [OF _ assms]) simp
  then show "gw_cm (snd (route_end ep c m w g)) = gw_cm g" "lb_inv (gw_lb (snd (route_end ep c m w g)))"
    by (auto simp: route_end_def split: prod.split sum.split)
qed

section \<open>Properties\<close>

definition demo_settings :: gw_settings where
  "demo_settings = \<lparr>api_key = ''secret'', default_model = ''llama'', routing_strategy = ''round_robin'',
     compression_threshold = 6000, compression_keep_recent = 4\<rparr>"

definition demo_gateway :: "string list \<Rightarrow> ref_state gateway" where
  "demo_gateway urls = \<lparr>gw = demo_world urls, agent_requests = (\<lambda>_. 0), workflow_failures = (\<lambda>_. 0),
     observed_tokens = [], background = []\<rparr>"

definition demo_request :: "string option \<Rightarrow> string \<Rightarrow> generate_request" where
  "demo_request wid prompt = \<lparr>rq_agent_id = None, rq_workflow_id = wid, rq_request_id = None, rq_parent_id = None,
     rq_prompt = prompt, rq_model = None\<rparr>"

text \<open>
  C15. A rejected request never pollutes its workflow: when no registered worker is eligible for the
  request, the route answers 503, records nothing in any workflow, leaves the set of workers as it
  was, and counts a workflow failure exactly for requests that belong to a workflow.
\<close>

theorem rejected_request_not_recorded:
  assumes "lb_reachable (gw_lb g)"
    and "\<And>w. w \<in> set (workers (gw_lb g)) \<Longrightarrow> \<not> eligible now1 (request_tokens rq txt g) (gw_lb g) w"
    and "key = Some (api_key cfg)"
  shows "\<exists>msg g'. route_begin cfg ep uuid st now1 now2 key rq txt g = (Inl (HTTPException 503 msg), g')
    \<and> gw_cm g' = gw_cm g \<and> workers (gw_lb g') = workers (gw_lb g) \<and> w_redis (gw g') = w_redis (gw g)
    \<and> workflow_failures g' ep = workflow_failures g ep + (if rq_workflow_id rq = None then 0 else 1)"
proof -
  note inv = lb_reachable_inv [OF assms(1)]
  obtain x lb where x: "dispatch_begin (routing_strategy cfg) now1 now2 (request_tokens rq txt g) (gw_lb g) = (x, lb)"
    by force
  obtain m g2 where r: "m = fst (resolve_agent_metadata uuid rq ep g)" "gw g2 = gw g"
    "workflow_failures g2 = workflow_failures g"
    "route_begin cfg ep uuid st now1 now2 key rq txt g =
      (case x of
         Inl e \<Rightarrow> if is_runtime_error e
           then (Inl (HTTPException 503 (exc_text e)), record_workflow_failure m ep (on_lb lb g2))
           else (Inl e, on_lb lb g2)
       | Inr w \<Rightarrow> (Inr (m, w), record_context st m txt (on_lb lb g2)))"
    by (rule route_begin_pick [OF assms(3) x]) (rule that)
  show ?thesis
  proof (cases x)
    case (Inr w)
    then have "w \<in> set (eligible_workers now1 (request_tokens rq txt g) (gw_lb g))"
      using dispatch_begin_Inr [OF inv] x by blast
    then show ?thesis using assms(2) by (simp add: eligible_workers_def)
  next
    case (Inl e)
    then have p: "pick_worker (routing_strategy cfg) now1 now2 (request_tokens rq txt g) (gw_lb g) = (Inl e, lb)"
      using x by (auto simp: dispatch_begin_def split: prod.splits sum.splits)
    have rt: "is_runtime_error e" using pick_worker_Inl [OF inv p] .
    have ws: "workers lb = workers (gw_lb g)" using pick_worker_workers [OF inv] p by (metis snd_conv)
    have red: "w_redis (gw (on_lb lb g2)) = w_redis (gw g)" by (simp add: on_lb_def r(2))
    have wid: "meta_get m ''workflow_id'' = rq_workflow_id rq" by (simp add: r(1))
    have fails: "workflow_failures (record_workflow_failure m ep (on_lb lb g2)) ep
        = workflow_failures g ep + (if rq_workflow_id rq = None then 0 else 1)"
      using wid r(3) by (simp add: record_workflow_failure_def)
    have "route_begin cfg ep uuid st now1 now2 key rq txt g =
        (Inl (HTTPException 503 (exc_text e)), record_workflow_failure m ep (on_lb lb g2))"
      using Inl rt by (simp add: r(4))
    then show ?thesis
      using ws red fails r(2)
      by - (rule exI [of _ "exc_text e"], rule exI [of _ "record_workflow_failure m ep (on_lb lb g2)"], simp)
  qed
qed

theorem rejected_request_not_recorded_witness:
  "\<exists>msg g'. generate_begin demo_settings ''u'' \<lparr>fresh_id = ''n'', clock1 = 7, clock2 = 7\<rparr> 1 1 (Some ''secret'')
      (demo_request (Some ''wf'') ''hello'') (demo_gateway []) = (Inl (HTTPException 503 msg), g')
    \<and> gw_cm g' = demo_manager \<and> workflow_failures g' ''/generate'' = 1"
proof -
  let ?g = "demo_gateway []" and ?rq = "demo_request (Some ''wf'') ''hello''"
  have "lb_reachable (gw_lb ?g)" by (simp add: demo_gateway_def demo_world_def demo_reachable)
  moreover have "\<not> eligible 1 (request_tokens ?rq ''hello'' ?g) (gw_lb ?g) w" if "w \<in> set (workers (gw_lb ?g))" for w
    using that by (simp add: demo_gateway_def demo_world_def new_balancer_def)
  moreover have "Some ''secret'' = Some (api_key demo_settings)" by (simp add: demo_settings_def)
  ultimately show ?thesis
    using rejected_request_not_recorded [of ?g 1 ?rq "''hello''" "Some ''secret''" demo_settings "''/generate''" "''u''"
        "\<lparr>fresh_id = ''n'', clock1 = 7, clock2 = 7\<rparr>" 1]
    by (auto simp: generate_begin_def with_body_def demo_request_def demo_gateway_def demo_world_def)
qed

text \<open>
  C16. An admitted request of a workflow is recorded exactly once, after the items recorded before,
  and the worker that serves it has room for the workflow's whole context including it; no other
  workflow changes.
\<close>

theorem admitted_context_fits:
  assumes "lb_reachable (gw_lb g)" and "store_inv (cm_store (gw_cm g))"
    and "rq_workflow_id rq = Some wid" and "wid \<noteq> []" and "items (cm_store (gw_cm g)) (fresh_id st) = None"
    and "route_begin cfg ep uuid st now1 now2 key rq txt g = (Inr (m, w), g')"
  shows "cm_total_tokens (gw_cm g') wid = cm_total_tokens (gw_cm g) wid + estimate_tokens txt
    \<and> cm_total_tokens (gw_cm g') wid \<le> max_context_tokens w
    \<and> (\<exists>it. workflow_items (cm_store (gw_cm g')) wid = workflow_items (cm_store (gw_cm g)) wid @ [it]
        \<and> content it = txt \<and> ctype it = CONVERSATION \<and> agent_id it = rq_agent_id rq)
    \<and> (\<forall>v. v \<noteq> wid \<longrightarrow> workflow_items (cm_store (gw_cm g')) v = workflow_items (cm_store (gw_cm g)) v)
    \<and> store_inv (cm_store (gw_cm g'))"
proof -
  obtain it where it: "content it = txt" "ctype it = CONVERSATION" "agent_id it = rq_agent_id rq" "token_count it = estimate_tokens txt"
    and list: "\<And>v. workflow_items (cm_store (gw_cm g')) v =
       workflow_items (cm_store (gw_cm g)) v @ (if rq_workflow_id rq = Some v \<and> v \<noteq> [] then [it] else [])"
    and fits: "cm_total_tokens (gw_cm g) wid + estimate_tokens txt \<le> max_context_tokens w"
    and inv: "store_inv (cm_store (gw_cm g'))"
    by (rule route_begin_admits [OF lb_reachable_inv [OF assms(1)] assms(2,5,6)]) (use assms(3) in blast)
  have "cm_total_tokens (gw_cm g') wid = cm_total_tokens (gw_cm g) wid + estimate_tokens txt"
    using list [of wid] assms(3,4) it by (simp add: cm_total_tokens_def total_eq)
  then show ?thesis using list assms(3,4) it fits inv by simp
qed

theorem admitted_context_fits_witness:
  "\<exists>m w body g'. generate_begin demo_settings ''u'' \<lparr>fresh_id = ''n'', clock1 = 7, clock2 = 7\<rparr> 1 1 (Some ''secret'')
      (demo_request (Some ''wf'') ''hello'') (demo_gateway [''a'']) = (Inr (m, w, body), g')
    \<and> cm_total_tokens (gw_cm g') ''wf'' \<le> max_context_tokens w"
proof -
  let ?g = "demo_gateway [''a'']" and ?rq = "demo_request (Some ''wf'') ''hello''"
  let ?st = "\<lparr>fresh_id = ''n'', clock1 = 7, clock2 = 7\<rparr>"
  have lb: "lb_reachable (gw_lb ?g)" by (simp add: demo_gateway_def demo_world_def demo_reachable)
  have si: "store_inv (cm_store (gw_cm ?g))" by (simp add: demo_gateway_def demo_world_def demo_manager_inv)
  have w: "rq_workflow_id ?rq = Some ''wf''" "''wf'' \<noteq> []" by (simp_all add: demo_request_def)
  have f: "items (cm_store (gw_cm ?g)) (fresh_id ?st) = None"
    by (simp add: demo_gateway_def demo_world_def demo_manager_fresh)
  have "request_tokens ?rq ''hello'' ?g = Some (sum_by token_count demo_items + estimate_tokens ''hello'')"
    by (simp add: request_tokens_def demo_request_def demo_gateway_def demo_world_def cm_total_tokens_def total_eq
        demo_manager_items)
  then have tokens: "request_tokens ?rq ''hello'' ?g = Some 13"
    by (simp add: demo_items_def estimate_tokens_def)
  have "\<exists>w lb. dispatch_begin (routing_strategy demo_settings) 1 1 (request_tokens ?rq ''hello'' ?g) (gw_lb ?g) = (Inr w, lb)"
    unfolding tokens by (simp add: demo_settings_def demo_gateway_def demo_world_def dispatch_begin_def pick_worker_def
        available_workers_def is_open_def choose_worker_def demo_simps)
  then obtain w0 lb0 where d: "dispatch_begin (routing_strategy demo_settings) 1 1 (request_tokens ?rq ''hello'' ?g) (gw_lb ?g)
      = (Inr w0, lb0)" by blast
  have key: "Some ''secret'' = Some (api_key demo_settings)" by (simp add: demo_settings_def)
  obtain m g' where b: "route_begin demo_settings ''/generate'' ''u'' ?st 1 1 (Some ''secret'') ?rq ''hello'' ?g = (Inr (m, w0), g')"
    by (rule route_begin_pick [OF key d, of "''u''" "''/generate''" ?st]) simp
  have "cm_total_tokens (gw_cm g') ''wf'' \<le> max_context_tokens w0"
    using admitted_context_fits [OF lb si w f b] by blast
  moreover have "rq_prompt ?rq = ''hello''" by (simp add: demo_request_def)
  ultimately show ?thesis using b unfolding generate_begin_def with_body_def by auto
qed

text \<open>
  A workflow id that is the empty string escapes the accounting: the request counts as one of a
  workflow (its failures are counted, its prompt is stored), but the store indexes nothing under the
  empty id, so its total stays what it was and the capacity check never sees earlier turns.
\<close>

theorem empty_workflow_id_unaccounted:
  assumes "rq_workflow_id rq = Some []"
    and "route_begin cfg ep uuid st now1 now2 key rq txt g = (Inr (m, w), g')"
    and "store_inv (cm_store (gw_cm g))" and "items (cm_store (gw_cm g)) (fresh_id st) = None"
  shows "items (cm_store (gw_cm g')) (fresh_id st) \<noteq> None
    \<and> cm_total_tokens (gw_cm g') [] = 0 \<and> request_tokens rq txt g' = Some (estimate_tokens txt)"
proof -
  have key: "key = Some (api_key cfg)"
    using assms(2) by (auto simp: route_begin_def verify_api_key_def split: if_splits)
  obtain x lb where x: "dispatch_begin (routing_strategy cfg) now1 now2 (request_tokens rq txt g) (gw_lb g) = (x, lb)"
    by force
  obtain m' g2 where r: "m' = fst (resolve_agent_metadata uuid rq ep g)" "gw g2 = gw g"
    "workflow_failures g2 = workflow_failures g"
    "route_begin cfg ep uuid st now1 now2 key rq txt g =
      (case x of
         Inl e \<Rightarrow> if is_runtime_error e
           then (Inl (HTTPException 503 (exc_text e)), record_workflow_failure m' ep (on_lb lb g2))
           else (Inl e, on_lb lb g2)
       | Inr w \<Rightarrow> (Inr (m', w), record_context st m' txt (on_lb lb g2)))"
    by (rule route_begin_pick [OF key x]) (rule that)
  have mm: "m = m'" and g': "g' = record_context st m txt (on_lb lb g2)"
    using assms(2) r(4) by (auto split: sum.splits if_splits)
  have wid: "meta_get m ''workflow_id'' = Some []" using assms(1) by (simp add: mm r(1))
  define it where "it = (new_item st CONVERSATION txt)\<lparr>workflow_id := Some [], agent_id := meta_get m ''agent_id'',
    source := None, importance := 1 / 2\<rparr>"
  have store: "cm_store (gw_cm g') = store_add it (cm_store (gw_cm g))"
    by (simp add: g' record_context_def wid cm_record_def it_def Let_def r(2))
  have sel: "wf_item it" "item_id it = fresh_id st" by (simp_all add: it_def new_item_def wf_item_def)
  have inv: "store_inv (cm_store (gw_cm g'))"
    unfolding store by (rule store_inv_add [OF assms(3) sel(1)]) (simp add: sel assms(4))
  have "workflow_items (cm_store (gw_cm g')) [] = []" by (rule empty_workflow_listing [OF inv])
  then have "cm_total_tokens (gw_cm g') [] = 0" by (simp add: cm_total_tokens_def total_eq)
  then show ?thesis by (simp add: store items_add sel request_tokens_def assms(1))
qed

theorem empty_workflow_id_unaccounted_witness:
  "\<exists>m w body g'. generate_begin demo_settings ''u'' \<lparr>fresh_id = ''n'', clock1 = 7, clock2 = 7\<rparr> 1 1 (Some ''secret'')
      (demo_request (Some []) ''hello'') (demo_gateway [''a'']) = (Inr (m, w, body), g')
    \<and> cm_total_tokens (gw_cm g') [] = 0"
proof -
  let ?g = "demo_gateway [''a'']" and ?rq = "demo_request (Some []) ''hello''"
  let ?st = "\<lparr>fresh_id = ''n'', clock1 = 7, clock2 = 7\<rparr>"
  have si: "store_inv (cm_store (gw_cm ?g))" by (simp add: demo_gateway_def demo_world_def demo_manager_inv)
  have w: "rq_workflow_id ?rq = Some []" by (simp add: demo_request_def)
  have f: "items (cm_store (gw_cm ?g)) (fresh_id ?st) = None"
    by (simp add: demo_gateway_def demo_world_def demo_manager_fresh)
  have "workflow_items (cm_store demo_manager) [] = []" by (rule empty_workflow_listing [OF demo_manager_inv])
  then have tokens: "request_tokens ?rq ''hello'' ?g = Some 1"
    by (simp add: request_tokens_def demo_request_def demo_gateway_def demo_world_def cm_total_tokens_def total_eq
        estimate_tokens_def)
  have "\<exists>w lb. dispatch_begin (routing_strategy demo_settings) 1 1 (request_tokens ?rq ''hello'' ?g) (gw_lb ?g) = (Inr w, lb)"
    unfolding tokens by (simp add: demo_settings_def demo_gateway_def demo_world_def dispatch_begin_def pick_worker_def
        available_workers_def is_open_def choose_worker_def demo_simps)
  then obtain w0 lb0 where d: "dispatch_begin (routing_strategy demo_settings) 1 1 (request_tokens ?rq ''hello'' ?g) (gw_lb ?g)
      = (Inr w0, lb0)" by blast
  have key: "Some ''secret'' = Some (api_key demo_settings)" by (simp add: demo_settings_def)
  obtain m g' where b: "route_begin demo_settings ''/generate'' ''u'' ?st 1 1 (Some ''secret'') ?rq ''hello'' ?g = (Inr (m, w0), g')"
    by (rule route_begin_pick [OF key d, of "''u''" "''/generate''" ?st]) simp
  have "cm_total_tokens (gw_cm g') [] = 0" using empty_workflow_id_unaccounted [OF w b si f] by blast
  moreover have "rq_prompt ?rq = ''hello''" by (simp add: demo_request_def)
  ultimately show ?thesis using b unfolding generate_begin_def with_body_def by auto
qed

text \<open>The job of a queued request, in the order of its keys, is encoded without loss and starts as meant.\<close>

lemma queued_job_fields:
  "dict_merge [(''request_id'', JStr rid)] (queued_payload cfg rq tokens) =
     [(''request_id'', JStr rid), (''model'', JStr (effective_model cfg (rq_model rq))),
      (''prompt'', JStr (rq_prompt rq)), (''agent_id'', opt_json (rq_agent_id rq)),
      (''workflow_id'', opt_json (rq_workflow_id rq)), (''parent_request_id'', opt_json (rq_parent_id rq)),
      (''context_tokens'', case tokens of None \<Rightarrow> JNull | Some n \<Rightarrow> JInt n)]"
  by (simp add: dict_merge_def queued_payload_def)

lemma queued_job_encodes:
  "p = dict_merge [(''request_id'', JStr rid)] (queued_payload cfg rq tokens) \<Longrightarrow> decode_fields (encode_fields p) = Inr p"
  by (rule decode_encode) (simp add: queued_job_fields wf_payload_def opt_json_def split: option.split)

lemma queued_job_begin:
  assumes inv: "lb_inv lb" and p: "p = dict_merge [(''request_id'', JStr rid)] (queued_payload cfg rq tokens)"
  shows "\<exists>ph s'. process_begin strat now1 now2 st p (lb, cm) = (Inr ph, s')
        \<and> (case ph of
             Settled r d \<Rightarrow> r = JStr rid \<and> (\<exists>e. is_runtime_error e \<and> d = error_result e)
           | Running r w chat body \<Rightarrow> r = JStr rid \<and> \<not> chat \<and> w \<in> set (workers lb)
               \<and> body = generate_body (JStr (effective_model cfg (rq_model rq))) (JStr (rq_prompt rq)))"
proof -
  have rid: "map_of p ''request_id'' = Some (JStr rid)" by (simp add: p queued_job_fields)
  have args: "job_args p = [(''model'', JStr (effective_model cfg (rq_model rq))), (''prompt'', JStr (rq_prompt rq))]"
    by (simp add: p queued_job_fields job_args_def popped_keys_def)
  have content: "job_content (job_args p) = Inr (rq_prompt rq)"
    by (cases "rq_prompt rq") (simp_all add: args job_content_def dict_get_def)
  have bound: "bind_args (job_args p) = Inr ()" "\<not> is_chat (job_args p)"
    "job_body (job_args p) = generate_body (JStr (effective_model cfg (rq_model rq))) (JStr (rq_prompt rq))"
    by (simp_all add: args bind_args_def is_chat_def job_body_def dict_get_def)
  let ?pick = "pick_worker strat now1 now2 (opt_int (dict_get p ''context_tokens'' JNull)) lb"
  show ?thesis
  proof (cases "fst ?pick")
    case (Inl e)
    then have "is_runtime_error e"
      using pick_worker_Inl [OF inv] by (metis prod.collapse)
    then show ?thesis
      using Inl by (cases ?pick) (auto simp: process_begin_def rid Let_def)
  next
    case (Inr w)
    then obtain lb' where "?pick = (Inr w, lb')" by (metis prod.collapse)
    then have "w \<in> set (eligible_workers now1 (opt_int (dict_get p ''context_tokens'' JNull)) lb)"
      by (rule pick_worker_Inr(1) [OF inv])
    then have "w \<in> set (workers lb)" by (simp add: eligible_workers_def)
    then show ?thesis
      using Inr content bound
      by (cases ?pick) (auto simp: process_begin_def rid Let_def split: option.split)
  qed
qed



end
