(* ===== verification/Settings.thy ===== *)
theory Settings
  imports LoadBalancer
begin

text \<open>
  \<^verbatim>\<open>config/settings.py\<close>: the settings read from the environment, in the order of the file. A variable
  that is not set has its default; \<open>int\<close> of a text that is no number raises \<open>ValueError\<close> and the
  program does not start. The environment is a map after \<open>load_dotenv\<close>, which is not modelled.
\<close>

section \<open>int of a string\<close>

text \<open>Digits, with single underscores between them.\<close>

fun digits_value :: "int \<Rightarrow> bool \<Rightarrow> string \<Rightarrow> int option" where
  "digits_value acc ok [] = (if ok then Some acc else None)"
| "digits_value acc ok (c # cs) =
     (if is_digit c then digits_value (acc * 10 + int (code c - 48)) True cs
      else if c = CHR ''_'' \<and> ok then digits_value acc False cs
      else None)"

definition bad_int :: "string \<Rightarrow> py_exc" where
  "bad_int s = ValueError (''invalid literal for int() with base 10: '' @ py_repr s)"

definition py_int :: "string \<Rightarrow> int result" where
  "py_int s =
     (case (case strip s of
              [] \<Rightarrow> None
            | c # cs \<Rightarrow> if c = CHR ''-'' then map_option uminus (digits_value 0 False cs)
                        else if c = CHR ''+'' then digits_value 0 False cs
                        else digits_value 0 False (c # cs)) of
        None \<Rightarrow> Inl (bad_int s) | Some n \<Rightarrow> Inr n)"

section \<open>Reading the environment\<close>

type_synonym environ = "string \<rightharpoonup> string"

definition getenv :: "environ \<Rightarrow> string \<Rightarrow> string \<Rightarrow> string" where
  "getenv env k d = (case env k of None \<Rightarrow> d | Some s \<Rightarrow> s)"

definition env_int :: "environ \<Rightarrow> string \<Rightarrow> int \<Rightarrow> int result" where
  "env_int env k d = (case env k of None \<Rightarrow> Inr d | Some s \<Rightarrow> py_int s)"

definition with_int :: "environ \<Rightarrow> string \<Rightarrow> int \<Rightarrow> (int \<Rightarrow> 'a result) \<Rightarrow> 'a result" where
  "with_int env k d f = (case env_int env k d of Inl e \<Rightarrow> Inl e | Inr n \<Rightarrow> f n)"

text \<open>\<open>[u.strip() for u in raw.split(",") if u.strip()]\<close>\<close>

definition parse_urls :: "string \<Rightarrow> string list" where
  "parse_urls raw = map strip (filter (\<lambda>u. strip u \<noteq> []) (str_split (CHR '','') raw))"

section \<open>The settings\<close>

record settings =
  gateway_host :: string
  gateway_port :: int
  api_key :: string
  worker_urls :: "string list"
  default_model :: string
  max_tokens_setting :: int
  request_timeout_setting :: int
  routing_strategy :: string
  context_budget :: int
  context_policy :: string
  compression_threshold :: int
  compression_keep_recent :: int
  worker_context :: int
  standby_urls :: "string list"
  scale_min :: int
  scale_max :: int
  scale_up_at :: int
  scale_down_at :: int
  scale_interval :: int
  scale_cooldown :: int
  redis_host :: string
  redis_port :: int
  redis_db :: int
  memory_db :: "string \<times> int \<times> string \<times> string \<times> string"
  breaker_threshold :: int
  breaker_timeout :: int
  queue_group :: string
  queue_max_retries :: int
  queue_min_idle :: int
  queue_recovery_interval :: int
  prometheus_port :: int
  grafana_port :: int

definition load_settings :: "environ \<Rightarrow> settings result" where
  "load_settings env =
     with_int env ''GATEWAY_PORT'' 8000 (\<lambda>port.
     (let urls = parse_urls (getenv env ''WORKER_URLS'' ''http://localhost:11434'');
          standby = parse_urls (getenv env ''STANDBY_WORKER_URLS'' []) in
     with_int env ''MAX_TOKENS'' 2048 (\<lambda>maxtok.
     with_int env ''REQUEST_TIMEOUT'' 120 (\<lambda>timeout.
     with_int env ''CONTEXT_BUDGET_DEFAULT'' 8192 (\<lambda>budget.
     with_int env ''CONTEXT_COMPRESSION_THRESHOLD'' budget (\<lambda>cthr.
     with_int env ''CONTEXT_COMPRESSION_KEEP_RECENT'' 4 (\<lambda>ckeep.
     with_int env ''WORKER_MAX_CONTEXT_TOKENS'' 8192 (\<lambda>wctx.
     with_int env ''AUTOSCALE_MIN_WORKERS'' (if urls = [] then 1 else int (length urls)) (\<lambda>smin.
     with_int env ''AUTOSCALE_MAX_WORKERS'' 4 (\<lambda>smax.
     with_int env ''AUTOSCALE_UP_THRESHOLD'' 3 (\<lambda>up.
     with_int env ''AUTOSCALE_DOWN_THRESHOLD'' 0 (\<lambda>down.
     with_int env ''AUTOSCALE_CHECK_INTERVAL'' 10 (\<lambda>ival.
     with_int env ''AUTOSCALE_COOLDOWN'' 30 (\<lambda>cool.
     with_int env ''REDIS_PORT'' 6379 (\<lambda>rport.
     with_int env ''REDIS_DB'' 0 (\<lambda>rdb.
     with_int env ''MEMORY_DB_PORT'' 5432 (\<lambda>mport.
     with_int env ''CIRCUIT_BREAKER_THRESHOLD'' 5 (\<lambda>bthr.
     with_int env ''CIRCUIT_BREAKER_TIMEOUT'' 30 (\<lambda>btime.
     with_int env ''QUEUE_MAX_RETRIES'' 3 (\<lambda>retries.
     with_int env ''QUEUE_PENDING_MIN_IDLE_MS'' 30000 (\<lambda>idle.
     with_int env ''QUEUE_RECOVERY_INTERVAL_SECONDS'' 15 (\<lambda>rival.
     with_int env ''PROMETHEUS_PORT'' 9090 (\<lambda>pport.
     with_int env ''GRAFANA_PORT'' 3000 (\<lambda>gport.
       Inr \<lparr>gateway_host = getenv env ''GATEWAY_HOST'' ''0.0.0.0'', gateway_port = port,
         api_key = getenv env ''API_KEY'' ''dev-key'', worker_urls = urls,
         default_model = getenv env ''DEFAULT_MODEL'' ''llama3:latest'',
         max_tokens_setting = maxtok, request_timeout_setting = timeout,
         routing_strategy = getenv env ''ROUTING_STRATEGY'' ''round_robin'',
         context_budget = budget, context_policy = getenv env ''CONTEXT_SELECTION_POLICY'' ''hybrid'',
         compression_threshold = cthr, compression_keep_recent = ckeep, worker_context = wctx,
         standby_urls = standby, scale_min = smin, scale_max = smax, scale_up_at = up,
         scale_down_at = down, scale_interval = ival, scale_cooldown = cool,
         redis_host = getenv env ''REDIS_HOST'' ''localhost'', redis_port = rport, redis_db = rdb,
         memory_db = (getenv env ''MEMORY_DB_HOST'' ''localhost'', mport, getenv env ''MEMORY_DB_NAME'' ''fleet'',
           getenv env ''MEMORY_DB_USER'' ''fleet'', getenv env ''MEMORY_DB_PASSWORD'' []),
         breaker_threshold = bthr, breaker_timeout = btime,
         queue_group = getenv env ''QUEUE_CONSUMER_GROUP'' ''fleet-workers'',
         queue_max_retries = retries, queue_min_idle = idle, queue_recovery_interval = rival,
         prometheus_port = pport, grafana_port = gport\<rparr>))))))))))))))))))))))))"

text \<open>What the balancer is built from (\<^verbatim>\<open>router/load_balancer.py\<close>, last line and constructor).\<close>

definition lb_config_of :: "settings \<Rightarrow> lb_config" where
  "lb_config_of st =
     \<lparr>strategy = routing_strategy st, request_timeout = request_timeout_setting st,
      worker_max_context = worker_context st, cb_threshold = breaker_threshold st,
      cb_cooldown = of_int (breaker_timeout st)\<rparr>"

definition load_balancer :: "settings \<Rightarrow> balancer" where
  "load_balancer st = new_balancer (lb_config_of st) (worker_urls st)"

section \<open>Lemmas\<close>

lemma dropWhile_space: "s \<noteq> [] \<Longrightarrow> \<not> is_space (hd s) \<Longrightarrow> dropWhile is_space s = s"
  by (cases s) auto

lemma strip_clean: "s \<noteq> [] \<Longrightarrow> \<not> is_space (hd s) \<Longrightarrow> \<not> is_space (last s) \<Longrightarrow> strip s = s"
  by (simp add: strip_def dropWhile_space hd_rev)

lemma str_split_plain: "c \<notin> set s \<Longrightarrow> str_split c s = [s]"
  by (induction s) auto

lemma str_split_append: "c \<notin> set s \<Longrightarrow> str_split c (s @ c # t) = s # str_split c t"
  by (induction s) auto

lemma str_split_join: "xs \<noteq> [] \<Longrightarrow> \<forall>x \<in> set xs. c \<notin> set x \<Longrightarrow> str_split c (str_join [c] xs) = xs"
  by (induction "[c]" xs rule: str_join.induct) (auto simp: str_split_plain str_split_append)

lemma digits_value_append:
  "digits_value acc ok s = Some n \<Longrightarrow> is_digit c \<Longrightarrow>
   digits_value acc ok (s @ [c]) = Some (n * 10 + int (code c - 48))"
  by (induction acc ok s rule: digits_value.induct) (auto split: if_splits)

lemma digit_char: "n < 10 \<Longrightarrow> is_digit (char_of (48 + n)) \<and> code (char_of (48 + n) :: char) - 48 = n"
  by (simp add: is_digit_def)

lemma digits_value_show_nat: "digits_value 0 False (show_nat n) = Some (int n)"
proof (induction n rule: show_nat.induct)
  case (1 n)
  show ?case
  proof (cases "n < 10")
    case True
    then show ?thesis using digit_char [OF True] by (simp add: show_nat.simps [of n])
  next
    case False
    have "digits_value 0 False (show_nat (n div 10) @ [char_of (48 + n mod 10)])
        = Some (int (n div 10) * 10 + int (n mod 10))"
      using digits_value_append [OF "1.IH" [OF False]] digit_char [of "n mod 10"] by simp
    moreover have "int (n div 10) * 10 + int (n mod 10) = int n"
      by (metis div_mult_mod_eq of_nat_add of_nat_mult of_nat_numeral)
    ultimately show ?thesis using False by (simp add: show_nat.simps [of n])
  qed
qed

lemma digit_no_space: "48 \<le> code c \<and> code c \<le> 57 \<Longrightarrow> \<not> is_space c"
  by (auto simp: is_space_def)

lemma show_nat_strip: "strip (show_nat n) = show_nat n"
proof (rule strip_clean)
  show "\<not> is_space (hd (show_nat n))"
    using show_nat_digits [of "hd (show_nat n)" n] by (intro digit_no_space) simp
  show "\<not> is_space (last (show_nat n))"
    using show_nat_digits [of "last (show_nat n)" n] by (intro digit_no_space) simp
qed simp

lemma minus_strip: "strip (CHR ''-'' # show_nat n) = CHR ''-'' # show_nat n"
proof (rule strip_clean)
  show "\<not> is_space (last (CHR ''-'' # show_nat n))"
    using show_nat_digits [of "last (show_nat n)" n] digit_no_space by simp
qed (simp_all add: is_space_def)

text \<open>\<open>int(str(i)) == i\<close>.\<close>

lemma py_int_show: "py_int (show_int i) = Inr i"
proof (cases "i < 0")
  case True
  then show ?thesis
    by (simp add: py_int_def show_int_def minus_strip digits_value_show_nat)
next
  case False
  obtain c cs where c: "show_nat (nat i) = c # cs" by (cases "show_nat (nat i)") auto
  have "48 \<le> code c \<and> code c \<le> 57" using show_nat_digits [of c "nat i"] c by simp
  then have "c \<noteq> CHR ''-'' \<and> c \<noteq> CHR ''+''" by auto
  then show ?thesis
    using False digits_value_show_nat [of "nat i"] show_nat_strip [of "nat i"]
    by (simp add: py_int_def show_int_def c)
qed

definition parses :: "environ \<Rightarrow> string \<Rightarrow> bool" where
  "parses env k \<longleftrightarrow> (case env k of None \<Rightarrow> True | Some s \<Rightarrow> \<not> isl (py_int s))"

lemma with_int_intro:
  "parses env k \<Longrightarrow> (\<And>n. \<exists>x. f n = Inr x) \<Longrightarrow> \<exists>x. with_int env k d f = Inr x"
  by (cases "env_int env k d") (auto simp: with_int_def env_int_def parses_def split: option.splits)

lemma with_int_elim:
  "with_int env k d f = Inr x \<Longrightarrow> (\<And>n. parses env k \<Longrightarrow> f n = Inr x \<Longrightarrow> P) \<Longrightarrow> P"
  by (cases "env_int env k d") (auto simp: with_int_def env_int_def parses_def split: option.splits)

lemma parse_urls_clean:
  "u \<in> set (parse_urls raw) \<Longrightarrow> u \<noteq> [] \<and> strip u = u \<and> CHR '','' \<notin> set u"
proof -
  assume "u \<in> set (parse_urls raw)"
  then obtain f where f: "f \<in> set (str_split (CHR '','') raw)" "u = strip f" "strip f \<noteq> []"
    by (auto simp: parse_urls_def)
  have "set (strip f) \<subseteq> set f" by (auto simp: strip_def dest!: set_dropWhileD)
  then show ?thesis using f str_split_no_sep [OF f(1)] by auto
qed

lemma parse_urls_join:
  assumes "us \<noteq> []" "\<forall>u \<in> set us. u \<noteq> [] \<and> strip u = u \<and> CHR '','' \<notin> set u"
  shows "parse_urls (str_join '','' us) = us"
proof -
  have "str_split (CHR '','') (str_join '','' us) = us"
    by (rule str_split_join) (use assms in simp_all)
  moreover have "filter (\<lambda>u. strip u \<noteq> []) us = us" using assms(2) by (intro filter_True) simp
  moreover have "map strip us = us" using assms(2) by (intro map_idI) simp
  ultimately show ?thesis by (simp only: parse_urls_def)
qed

text \<open>The program starts with one client and one closed breaker per configured URL.\<close>

lemma load_balancer_reachable: "0 < breaker_threshold st \<Longrightarrow> lb_reachable (load_balancer st)"
  unfolding load_balancer_def by (rule lb_reachable.start) (simp add: lb_config_of_def)

definition int_vars :: "string list" where
  "int_vars = [''GATEWAY_PORT'', ''MAX_TOKENS'', ''REQUEST_TIMEOUT'', ''CONTEXT_BUDGET_DEFAULT'',
     ''CONTEXT_COMPRESSION_THRESHOLD'', ''CONTEXT_COMPRESSION_KEEP_RECENT'', ''WORKER_MAX_CONTEXT_TOKENS'',
     ''AUTOSCALE_MIN_WORKERS'', ''AUTOSCALE_MAX_WORKERS'', ''AUTOSCALE_UP_THRESHOLD'', ''AUTOSCALE_DOWN_THRESHOLD'',
     ''AUTOSCALE_CHECK_INTERVAL'', ''AUTOSCALE_COOLDOWN'', ''REDIS_PORT'', ''REDIS_DB'', ''MEMORY_DB_PORT'',
     ''CIRCUIT_BREAKER_THRESHOLD'', ''CIRCUIT_BREAKER_TIMEOUT'', ''QUEUE_MAX_RETRIES'',
     ''QUEUE_PENDING_MIN_IDLE_MS'', ''QUEUE_RECOVERY_INTERVAL_SECONDS'', ''PROMETHEUS_PORT'', ''GRAFANA_PORT'']"

lemma load_settings_ok:
  assumes "\<forall>k \<in> set int_vars. parses env k"
  shows "\<exists>st. load_settings env = Inr st"
  unfolding load_settings_def Let_def
  by (intro with_int_intro) (use assms in \<open>simp_all add: int_vars_def\<close>)

lemma load_settings_parses:
  assumes "load_settings env = Inr st"
  shows "\<forall>k \<in> set int_vars. parses env k"
  using assms unfolding load_settings_def Let_def int_vars_def
  by (elim with_int_elim) (simp only: list.set ball_simps simp_thms)

definition post :: "('a \<Rightarrow> bool) \<Rightarrow> 'a result \<Rightarrow> bool" where
  "post Q r = (case r of Inl _ \<Rightarrow> True | Inr x \<Rightarrow> Q x)"

lemma post_Inr: "Q x \<Longrightarrow> post Q (Inr x)"
  by (simp add: post_def)

lemma with_int_post: "(\<And>n. post Q (f n)) \<Longrightarrow> post Q (with_int env k d f)"
  by (cases "env_int env k d") (simp_all add: with_int_def post_def)

definition urls_read :: "environ \<Rightarrow> settings \<Rightarrow> bool" where
  "urls_read env st \<longleftrightarrow> worker_urls st = parse_urls (getenv env ''WORKER_URLS'' ''http://localhost:11434'')
    \<and> standby_urls st = parse_urls (getenv env ''STANDBY_WORKER_URLS'' [])"

lemma load_settings_post: "post (urls_read env) (load_settings env)"
  unfolding load_settings_def Let_def
  by (intro with_int_post post_Inr) (simp add: urls_read_def)

lemma load_settings_urls:
  "load_settings env = Inr st \<Longrightarrow> worker_urls st = parse_urls (getenv env ''WORKER_URLS'' ''http://localhost:11434'')
    \<and> standby_urls st = parse_urls (getenv env ''STANDBY_WORKER_URLS'' [])"
  using load_settings_post [of env] by (simp add: post_def urls_read_def)

text \<open>The settings of an empty environment.\<close>

definition default_settings :: settings where
  "default_settings =
     \<lparr>gateway_host = ''0.0.0.0'', gateway_port = 8000, api_key = ''dev-key'',
      worker_urls = [''http://localhost:11434''], default_model = ''llama3:latest'', max_tokens_setting = 2048,
      request_timeout_setting = 120, routing_strategy = ''round_robin'', context_budget = 8192,
      context_policy = ''hybrid'', compression_threshold = 8192, compression_keep_recent = 4,
      worker_context = 8192, standby_urls = [], scale_min = 1, scale_max = 4, scale_up_at = 3,
      scale_down_at = 0, scale_interval = 10, scale_cooldown = 30, redis_host = ''localhost'', redis_port = 6379,
      redis_db = 0, memory_db = (''localhost'', 5432, ''fleet'', ''fleet'', []), breaker_threshold = 5,
      breaker_timeout = 30, queue_group = ''fleet-workers'', queue_max_retries = 3, queue_min_idle = 30000,
      queue_recovery_interval = 15, prometheus_port = 9090, grafana_port = 3000\<rparr>"

lemma with_int_default: "env k = None \<Longrightarrow> with_int env k d f = f d"
  by (simp add: with_int_def env_int_def)

lemma load_settings_default: "load_settings (\<lambda>_. None) = Inr default_settings"
  unfolding load_settings_def Let_def
  by (simp only: with_int_default) (simp add: default_settings_def getenv_def parse_urls_def strip_def is_space_def)

section \<open>Properties\<close>

text \<open>
  The program starts exactly when every integer variable that is set parses; then the worker
  and standby URLs are clean (no empty one, no comma, no surrounding whitespace), a list of clean
  URLs joined with commas is read back as it was, an integer written in decimal too.
\<close>

theorem settings_read_back:
  "((\<exists>st. load_settings env = Inr st) \<longleftrightarrow> (\<forall>k \<in> set int_vars. parses env k))
   \<and> (\<forall>st. load_settings env = Inr st \<longrightarrow>
        (\<forall>u \<in> set (worker_urls st @ standby_urls st). u \<noteq> [] \<and> strip u = u \<and> CHR '','' \<notin> set u)
        \<and> (\<forall>us. us \<noteq> [] \<and> (\<forall>u \<in> set us. u \<noteq> [] \<and> strip u = u \<and> CHR '','' \<notin> set u)
             \<and> env ''WORKER_URLS'' = Some (str_join '','' us) \<longrightarrow> worker_urls st = us))
   \<and> (\<forall>k d i. env k = Some (show_int i) \<longrightarrow> env_int env k d = Inr i)"
proof (intro conjI allI impI)
  show "(\<exists>st. load_settings env = Inr st) \<longleftrightarrow> (\<forall>k \<in> set int_vars. parses env k)"
    using load_settings_ok load_settings_parses by blast
next
  fix st assume "load_settings env = Inr st"
  note urls = load_settings_urls [OF this]
  show "\<forall>u \<in> set (worker_urls st @ standby_urls st). u \<noteq> [] \<and> strip u = u \<and> CHR '','' \<notin> set u"
    unfolding urls [THEN conjunct1] urls [THEN conjunct2] set_append
    by (rule ballI, erule UnE) (rule parse_urls_clean, assumption)+
next
  fix st us
  assume l: "load_settings env = Inr st" and a: "us \<noteq> [] \<and> (\<forall>u \<in> set us. u \<noteq> [] \<and> strip u = u \<and> CHR '','' \<notin> set u)
      \<and> env ''WORKER_URLS'' = Some (str_join '','' us)"
  have "getenv env ''WORKER_URLS'' d = str_join '','' us" for d using a by (simp add: getenv_def)
  then have "worker_urls st = parse_urls (str_join '','' us)"
    using load_settings_urls [OF l, THEN conjunct1] by metis
  also have "\<dots> = us" by (rule parse_urls_join) (use a in simp_all)
  finally show "worker_urls st = us" .
qed (simp add: env_int_def py_int_show)

theorem settings_read_back_witness:
  "\<exists>st. load_settings [''WORKER_URLS'' \<mapsto> ''http://a:1,http://b:2''] = Inr st \<and> worker_urls st = [''http://a:1'', ''http://b:2'']"
proof -
  let ?env = "[''WORKER_URLS'' \<mapsto> ''http://a:1,http://b:2'']"
  have "\<forall>k \<in> set int_vars. parses ?env k" by (simp add: int_vars_def parses_def)
  then have "\<exists>st. load_settings ?env = Inr st" by (rule settings_read_back [THEN conjunct1, THEN iffD2])
  then obtain st where st: "load_settings ?env = Inr st" ..
  note urls = settings_read_back [of ?env, THEN conjunct2, THEN conjunct1, THEN spec, THEN mp, OF st, THEN conjunct2,
      THEN spec, THEN mp, of "[''http://a:1'', ''http://b:2'']"]
  have "worker_urls st = [''http://a:1'', ''http://b:2'']"
    by (rule urls) (simp add: strip_def is_space_def)
  with st show ?thesis by (intro exI conjI)
qed

end
