(* ===== verification/Autoscaler.thy ===== *)
theory Autoscaler
  imports WorkerPool Settings
begin

text \<open>
  \<^verbatim>\<open>router/autoscaler.py\<close>: the loop that adds and removes workers. One pass of the loop (\<open>tick\<close>) gets
  the queue depth, the answers of the Docker daemon, the clock and the outcome of the health probe
  as arguments. In static mode a new worker is probed after it was registered; \<open>te_during\<close> is what
  the rest of the program does to the balancer during that probe. \<open>configured\<close> is the number of
  configured worker URLs.
\<close>

section \<open>State\<close>

record autoscaler =
  as_min :: int
  as_max :: int
  up_threshold :: int
  down_threshold :: int
  as_cooldown :: real
  docker_up :: bool
  last_scale :: real
  containers :: "string list"
  standby :: "string list"
  active_dynamic :: "string list"
  queue_key :: string

definition new_autoscaler :: "settings \<Rightarrow> autoscaler" where
  "new_autoscaler st =
     \<lparr>as_min = scale_min st, as_max = scale_max st, up_threshold = scale_up_at st,
      down_threshold = scale_down_at st, as_cooldown = of_int (scale_cooldown st), docker_up = False,
      last_scale = 0, containers = [], standby = standby_urls st, active_dynamic = [],
      queue_key = ''llm:request_queue''\<rparr>"

text \<open>
  The Docker SDK during one pass: the number of containers a listing returns (the pass lists up to
  twice), the id of a container that was started, the outcome of stopping and removing one. Every
  call may raise.
\<close>

record docker_api =
  dk_list :: "nat \<Rightarrow> nat result"
  dk_run :: "string \<Rightarrow> int \<Rightarrow> string result"
  dk_stop :: "string \<Rightarrow> unit result"

record tick_env =
  te_docker :: docker_api
  te_check :: real
  te_now :: real
  te_probe :: probe_outcome
  te_during :: "lb_event list"

text \<open>\<open>connect\<close>: Docker is used when its SDK is installed and the daemon answers the ping.\<close>

definition connect_autoscaler :: "bool \<Rightarrow> unit result \<Rightarrow> autoscaler \<Rightarrow> autoscaler" where
  "connect_autoscaler sdk ping a = a\<lparr>docker_up := (sdk \<and> \<not> isl ping)\<rparr>"

definition scaler_mode :: "autoscaler \<Rightarrow> string" where
  "scaler_mode a = (if docker_up a then ''docker'' else ''static'')"

definition running_count :: "nat result \<Rightarrow> nat \<Rightarrow> autoscaler \<Rightarrow> balancer \<Rightarrow> int" where
  "running_count listing configured a lb =
     (if docker_up a then
        (case listing of Inr n \<Rightarrow> int n + int configured | Inl _ \<Rightarrow> int configured)
      else int (length (workers lb)))"

definition in_cooldown :: "real \<Rightarrow> autoscaler \<Rightarrow> bool" where
  "in_cooldown now a = (now - last_scale a < as_cooldown a)"

section \<open>Scaling up\<close>

definition worker_port_url :: "int \<Rightarrow> string" where
  "worker_port_url port = ''http://localhost:'' @ show_int port"

definition container_name :: "int \<Rightarrow> string" where
  "container_name port = ''llm-worker-dynamic-'' @ show_int port"

definition scale_up_docker ::
  "lb_config \<Rightarrow> tick_env \<Rightarrow> int \<Rightarrow> autoscaler \<times> balancer \<Rightarrow> autoscaler \<times> balancer" where
  "scale_up_docker cfg env current s =
     (let port = 11434 + current
      in case dk_run (te_docker env) (container_name port) port of
           Inl _ \<Rightarrow> s
         | Inr i \<Rightarrow>
             ((fst s)\<lparr>containers := containers (fst s) @ [i], last_scale := te_now env\<rparr>,
              snd (add_worker cfg (worker_port_url port) (snd s))))"

text \<open>\<open>next((w for w in load_balancer.workers if w.stats.url == url), None)\<close>, then its health check.\<close>

definition probe_worker :: "string \<Rightarrow> tick_env \<Rightarrow> balancer \<Rightarrow> balancer" where
  "probe_worker u env lb =
     (case find (\<lambda>w. curl w = u) (workers lb) of
        None \<Rightarrow> lb
      | Some w \<Rightarrow> update_client (cid w) (\<lambda>w. snd (health_check (te_probe env) w)) (fold lb_apply (te_during env) lb))"

definition scale_up_static ::
  "lb_config \<Rightarrow> tick_env \<Rightarrow> autoscaler \<times> balancer \<Rightarrow> autoscaler \<times> balancer" where
  "scale_up_static cfg env s =
     (case standby (fst s) of
        [] \<Rightarrow> s
      | u # us \<Rightarrow>
          (let a = (fst s)\<lparr>standby := us\<rparr>; (added, lb) = add_worker cfg u (snd s)
           in if \<not> added then (a, lb)
              else (a\<lparr>active_dynamic := active_dynamic a @ [u], last_scale := te_now env\<rparr>,
                    probe_worker u env lb)))"

definition scale_up ::
  "lb_config \<Rightarrow> nat \<Rightarrow> tick_env \<Rightarrow> autoscaler \<times> balancer \<Rightarrow> autoscaler \<times> balancer" where
  "scale_up cfg configured env s =
     (let current = running_count (dk_list (te_docker env) 1) configured (fst s) (snd s)
      in if current \<ge> as_max (fst s) then s
         else if docker_up (fst s) then scale_up_docker cfg env current s
         else scale_up_static cfg env s)"

section \<open>Scaling down\<close>

definition scale_down_docker :: "tick_env \<Rightarrow> autoscaler \<times> balancer \<Rightarrow> autoscaler \<times> balancer" where
  "scale_down_docker env s =
     (if containers (fst s) = [] then s
      else (let a = (fst s)\<lparr>containers := butlast (containers (fst s))\<rparr>
            in case dk_stop (te_docker env) (last (containers (fst s))) of
                 Inl _ \<Rightarrow> (a, snd s)
               | Inr _ \<Rightarrow> (a\<lparr>last_scale := te_now env\<rparr>, snd s)))"

definition scale_down_static :: "tick_env \<Rightarrow> autoscaler \<times> balancer \<Rightarrow> autoscaler \<times> balancer" where
  "scale_down_static env s =
     (if active_dynamic (fst s) = [] then s
      else (let u = last (active_dynamic (fst s))
            in ((fst s)\<lparr>active_dynamic := butlast (active_dynamic (fst s)), standby := u # standby (fst s),
                  last_scale := te_now env\<rparr>,
                snd (remove_worker u (snd s)))))"

definition scale_down ::
  "nat \<Rightarrow> tick_env \<Rightarrow> autoscaler \<times> balancer \<Rightarrow> autoscaler \<times> balancer" where
  "scale_down configured env s =
     (let current = running_count (dk_list (te_docker env) 1) configured (fst s) (snd s)
      in if current \<le> as_min (fst s) then s
         else if docker_up (fst s) then scale_down_docker env s
         else scale_down_static env s)"

section \<open>One pass of the loop\<close>

definition tick ::
  "lb_config \<Rightarrow> nat \<Rightarrow> tick_env \<Rightarrow> int \<Rightarrow> autoscaler \<times> balancer \<Rightarrow> autoscaler \<times> balancer" where
  "tick cfg configured env qlen s =
     (let n = running_count (dk_list (te_docker env) 0) configured (fst s) (snd s)
      in if in_cooldown (te_check env) (fst s) then s
         else if qlen \<ge> up_threshold (fst s) then scale_up cfg configured env s
         else if qlen \<le> down_threshold (fst s) \<and> n > as_min (fst s) then scale_down configured env s
         else s)"

definition scaler_depth :: "'s redis \<Rightarrow> autoscaler \<Rightarrow> ('s, nat) io" where
  "scaler_depth rd a = r_llen rd (queue_key a)"

text \<open>A pass whose Redis call raises changes nothing and sleeps.\<close>

definition scaler_pass ::
  "'s redis \<Rightarrow> lb_config \<Rightarrow> nat \<Rightarrow> tick_env \<Rightarrow> 's \<Rightarrow> autoscaler \<times> balancer \<Rightarrow> (autoscaler \<times> balancer) \<times> 's" where
  "scaler_pass rd cfg configured env r s =
     (case scaler_depth rd (fst s) r of
        (Inl _, r') \<Rightarrow> (s, r')
      | (Inr n, r') \<Rightarrow> (tick cfg configured env (int n) s, r'))"

section \<open>Runs in static mode\<close>

text \<open>
  The rest of the program changes the balancer between two passes, but only the autoscaler
  registers and deregisters workers.
\<close>

datatype fleet_event = Pass tick_env int | Lb lb_event

fun keeps_fleet :: "lb_event \<Rightarrow> bool" where
  "keeps_fleet (Add cfg u) = False"
| "keeps_fleet (Remove u) = False"
| "keeps_fleet _ = True"

fun fleet_event_ok :: "fleet_event \<Rightarrow> bool" where
  "fleet_event_ok (Pass env qlen) = list_all keeps_fleet (te_during env)"
| "fleet_event_ok (Lb e) = keeps_fleet e"

fun fleet_step :: "lb_config \<Rightarrow> nat \<Rightarrow> fleet_event \<Rightarrow> autoscaler \<times> balancer \<Rightarrow> autoscaler \<times> balancer" where
  "fleet_step cfg configured (Pass env qlen) s = tick cfg configured env qlen s"
| "fleet_step cfg configured (Lb e) s = (fst s, lb_apply e (snd s))"

definition fleet_run :: "settings \<Rightarrow> fleet_event list \<Rightarrow> autoscaler \<times> balancer" where
  "fleet_run st es =
     fold (fleet_step (lb_config_of st) (length (worker_urls st))) es (new_autoscaler st, load_balancer st)"

text \<open>
  The registered URLs are the configured ones and then the dynamic ones, the standby URLs are the
  rest of the pool, and the size is within the limits.
\<close>

definition fleet_inv :: "settings \<Rightarrow> autoscaler \<times> balancer \<Rightarrow> bool" where
  "fleet_inv st s \<longleftrightarrow>
     \<not> docker_up (fst s) \<and> as_min (fst s) = scale_min st \<and> as_max (fst s) = scale_max st
     \<and> lb_inv (snd s)
     \<and> pooled (worker_urls st) (standby_urls st) (active_dynamic (fst s)) (standby (fst s)) (fleet_urls (snd s))
     \<and> scale_min st \<le> int (length (workers (snd s))) \<and> int (length (workers (snd s))) \<le> scale_max st"

lemma urls_map_workers:
  "(\<And>w. curl (g w) = curl w) \<Longrightarrow> map curl (workers (lb\<lparr>workers := map g (workers lb)\<rparr>)) = map curl (workers lb)"
  by simp

lemma on_breaker_workers: "workers (snd (on_breaker f u lb)) = workers lb"
  by (simp add: on_breaker_def split: option.split)

lemma urls_update_client:
  "(\<And>w. curl (f w) = curl w) \<Longrightarrow> map curl (workers (update_client i f lb)) = map curl (workers lb)"
  by (simp add: update_client_def)

lemma keeps_fleet_urls:
  "keeps_fleet e \<Longrightarrow> lb_inv lb \<Longrightarrow> map curl (workers (lb_apply e lb)) = map curl (workers lb)"
  by (cases e)
    (simp_all add: pick_worker_workers record_success_def record_failure_def on_breaker_workers urls_update_client
      finish_generate_def finish_chat_def health_check_all_def comp_def)

lemma keeps_fleet_inv: "keeps_fleet e \<Longrightarrow> lb_inv lb \<Longrightarrow> lb_inv (lb_apply e lb)"
  by (rule lb_inv_apply) (cases e, simp_all)

lemma keeps_fleet_fold:
  "list_all keeps_fleet es \<Longrightarrow> lb_inv lb \<Longrightarrow>
   map curl (workers (fold lb_apply es lb)) = map curl (workers lb) \<and> lb_inv (fold lb_apply es lb)"
  by (induction es arbitrary: lb) (simp_all add: keeps_fleet_urls keeps_fleet_inv)

lemma probe_worker_urls:
  assumes "list_all keeps_fleet (te_during env)" "lb_inv lb"
  shows "map curl (workers (probe_worker u env lb)) = map curl (workers lb) \<and> lb_inv (probe_worker u env lb)"
  using keeps_fleet_fold [OF assms] assms(2)
  by (auto simp: probe_worker_def urls_update_client intro!: lb_inv_update_client split: option.split)

lemma fleet_inv_len: "fleet_inv st s \<Longrightarrow> length (workers (snd s)) = length (worker_urls st) + length (active_dynamic (fst s))"
  unfolding fleet_inv_def pooled_def by (metis length_append length_map)

lemma fleet_inv_up:
  assumes "fleet_inv st s" "distinct (worker_urls st @ standby_urls st)" "0 < cb_threshold cfg"
    and "list_all keeps_fleet (te_during env)" "int (length (workers (snd s))) < scale_max st"
  shows "fleet_inv st (scale_up_static cfg env s)"
proof (cases "standby (fst s)")
  case Nil
  then show ?thesis using assms(1) by (simp add: scale_up_static_def)
next
  case (Cons u us)
  let ?lb = "snd (add_worker cfg u (snd s))"
  have good: "0 < cb_threshold cfg \<and> lb_inv (snd s)"
    and pool: "pooled (worker_urls st) (standby_urls st) (active_dynamic (fst s)) (u # us) (fleet_urls (snd s))"
    using assms(1,3) Cons by (simp_all add: fleet_inv_def)
  note add = fleet.taken [OF good pool assms(2)]
  have "lb_inv ?lb" using fleet.good_add [OF good] by simp
  note p = probe_worker_urls [OF assms(4) this, of u]
  have run: "scale_up_static cfg env s =
      ((fst s)\<lparr>standby := us, active_dynamic := active_dynamic (fst s) @ [u], last_scale := te_now env\<rparr>,
       probe_worker u env ?lb)"
    using Cons add(1) by (simp add: scale_up_static_def split_def)
  have "length (workers (probe_worker u env ?lb)) = Suc (length (workers (snd s)))"
    using p add(2) by (metis length_append_singleton length_map)
  then show ?thesis using assms(1,5) p add(3) unfolding run fleet_inv_def by simp
qed

lemma fleet_inv_down:
  assumes "fleet_inv st s" "distinct (worker_urls st @ standby_urls st)" "scale_min st < int (length (workers (snd s)))"
  shows "fleet_inv st (scale_down_static env s)"
proof (cases "active_dynamic (fst s) = []")
  case True
  then show ?thesis using assms(1) by (simp add: scale_down_static_def)
next
  case False
  let ?a = "active_dynamic (fst s)"
  have pool: "pooled (worker_urls st) (standby_urls st) ?a (standby (fst s)) (fleet_urls (snd s))"
    using assms(1) by (simp add: fleet_inv_def)
  note gone = fleet.returned [OF pool assms(2) False]
  then have "length (workers (snd (remove_worker (last ?a) (snd s)))) = length (worker_urls st) + (length ?a - 1)"
    by (metis length_append length_butlast length_map)
  then show ?thesis
    using assms(1,3) False gone(2) fleet_inv_len [OF assms(1)] lb_inv_remove [of "snd s" "last ?a"]
    by (simp add: scale_down_static_def Let_def fleet_inv_def) linarith
qed

lemma fleet_inv_tick:
  assumes "fleet_inv st s" "distinct (worker_urls st @ standby_urls st)" "0 < cb_threshold cfg"
    and "list_all keeps_fleet (te_during env)"
  shows "fleet_inv st (tick cfg configured env qlen s)"
proof -
  have "\<not> docker_up (fst s)" "as_min (fst s) = scale_min st" "as_max (fst s) = scale_max st"
    using assms(1) by (simp_all add: fleet_inv_def)
  then show ?thesis
    using assms(1) fleet_inv_up [OF assms] fleet_inv_down [OF assms(1,2)]
    by (simp add: tick_def scale_up_def scale_down_def running_count_def Let_def)
qed

lemma fleet_inv_step:
  assumes "fleet_inv st s" "distinct (worker_urls st @ standby_urls st)" "0 < cb_threshold cfg" "fleet_event_ok e"
  shows "fleet_inv st (fleet_step cfg configured e s)"
proof (cases e)
  case (Pass env qlen)
  then show ?thesis using fleet_inv_tick [OF assms(1-3)] assms(4) by simp
next
  case (Lb e')
  then have k: "keeps_fleet e'" "lb_inv (snd s)" using assms(1,4) by (simp_all add: fleet_inv_def)
  note urls = keeps_fleet_urls [OF k]
  then have "length (workers (lb_apply e' (snd s))) = length (workers (snd s))" by (metis length_map)
  then show ?thesis using assms(1) urls keeps_fleet_inv [OF k] Lb by (simp add: fleet_inv_def)
qed

lemma fleet_inv_start:
  assumes "0 < breaker_threshold st" "scale_min st \<le> int (length (worker_urls st))"
    and "int (length (worker_urls st)) \<le> scale_max st"
  shows "fleet_inv st (new_autoscaler st, load_balancer st)"
proof -
  have "map curl (workers (load_balancer st)) = map snd (enumerate 0 (worker_urls st))"
    by (simp add: load_balancer_def new_balancer_def case_prod_beta comp_def)
  then have urls: "map curl (workers (load_balancer st)) = worker_urls st" by simp
  then have "length (workers (load_balancer st)) = length (worker_urls st)" by (metis length_map)
  then show ?thesis
    using assms urls lb_reachable_inv [OF load_balancer_reachable [OF assms(1)]]
    by (simp add: fleet_inv_def pooled_def new_autoscaler_def)
qed

lemma fleet_inv_run:
  assumes "0 < breaker_threshold st" "scale_min st \<le> int (length (worker_urls st))"
    and "int (length (worker_urls st)) \<le> scale_max st" "distinct (worker_urls st @ standby_urls st)"
    and "list_all fleet_event_ok es"
  shows "fleet_inv st (fleet_run st es)"
proof -
  have thr: "0 < cb_threshold (lb_config_of st)" using assms(1) by (simp add: lb_config_of_def)
  have "fleet_inv st (fold (fleet_step (lb_config_of st) n) es s)" if "fleet_inv st s" for s n
    using assms(5) that by (induction es arbitrary: s) (simp_all add: fleet_inv_step [OF _ assms(4) thr])
  then show ?thesis unfolding fleet_run_def using fleet_inv_start [OF assms(1-3)] by simp
qed

section \<open>Properties\<close>

text \<open>
  C8. Without Docker the fleet stays within its limits, whatever the queue depths, the probes and
  everything the rest of the program does in between: the registered workers are the configured ones
  and the dynamic ones, none twice, and every standby URL is in use or on standby, never lost.
\<close>

theorem autoscaler_within_limits:
  assumes "0 < breaker_threshold st" and "scale_min st \<le> int (length (worker_urls st))"
    and "int (length (worker_urls st)) \<le> scale_max st" and "distinct (worker_urls st @ standby_urls st)"
    and "list_all fleet_event_ok es" and "fleet_run st es = (a, lb)"
  shows "scale_min st \<le> int (length (workers lb)) \<and> int (length (workers lb)) \<le> scale_max st
    \<and> map curl (workers lb) = worker_urls st @ active_dynamic a
    \<and> distinct (map curl (workers lb))
    \<and> mset (active_dynamic a @ standby a) = mset (standby_urls st)"
proof -
  have inv: "fleet_inv st (a, lb)" using fleet_inv_run [OF assms(1-5)] assms(6) by simp
  moreover from this have "distinct (worker_urls st @ active_dynamic a)"
    using pooled_distinct [OF _ assms(4)] by (fastforce simp: fleet_inv_def)
  ultimately show ?thesis unfolding fleet_inv_def pooled_def by (simp only: fst_conv snd_conv mset_append simp_thms)
qed

definition demo_env :: tick_env where
  "demo_env = \<lparr>te_docker = \<lparr>dk_list = (\<lambda>_. Inr 0), dk_run = (\<lambda>n p. Inr n), dk_stop = (\<lambda>_. Inr ())\<rparr>,
     te_check = 100, te_now = 100, te_probe = Status 200, te_during = []\<rparr>"

definition demo_fleet :: settings where
  "demo_fleet = default_settings\<lparr>worker_urls := [''http://a:1''], standby_urls := [''http://b:2''], scale_max := 2\<rparr>"

lemma demo_fleet_sel [simp]:
  "worker_urls demo_fleet = [''http://a:1'']" "standby_urls demo_fleet = [''http://b:2'']" "scale_min demo_fleet = 1"
  "scale_max demo_fleet = 2" "breaker_threshold demo_fleet = 5"
  by (simp_all add: demo_fleet_def default_settings_def)

theorem autoscaler_within_limits_witness:
  "\<exists>a lb. fleet_run demo_fleet [Pass demo_env 7, Lb (Succeed ''http://a:1'')] = (a, lb)
     \<and> map curl (workers lb) = [''http://a:1''] @ active_dynamic a"
proof -
  obtain a lb where r: "fleet_run demo_fleet [Pass demo_env 7, Lb (Succeed ''http://a:1'')] = (a, lb)"
    by (rule prod.exhaust)
  have "map curl (workers lb) = [''http://a:1''] @ active_dynamic a"
    using autoscaler_within_limits [OF _ _ _ _ _ r] by (simp add: demo_env_def)
  with r show ?thesis by (intro exI conjI)
qed

text \<open>What one pass does in static mode outside the cooldown.\<close>

lemma tick_up_static:
  assumes "fleet_inv st (a, lb)" "distinct (worker_urls st @ standby_urls st)" "\<not> in_cooldown (te_check env) a"
    and "0 < cb_threshold cfg" "list_all keeps_fleet (te_during env)"
    and "up_threshold a \<le> qlen" "int (length (workers lb)) < scale_max st" "standby a = u # us"
  shows "\<exists>lb'. tick cfg n env qlen (a, lb) =
      (a\<lparr>standby := us, active_dynamic := active_dynamic a @ [u], last_scale := te_now env\<rparr>, lb')
    \<and> map curl (workers lb') = map curl (workers lb) @ [u]"
proof -
  have f: "\<not> docker_up a" "as_max a = scale_max st" using assms(1) by (simp_all add: fleet_inv_def)
  have good: "0 < cb_threshold cfg \<and> lb_inv lb"
    and pool: "pooled (worker_urls st) (standby_urls st) (active_dynamic a) (u # us) (fleet_urls lb)"
    using assms(1,4,8) by (simp_all add: fleet_inv_def)
  note add = fleet.taken [OF good pool assms(2)]
  have "fleet_urls (probe_worker u env (snd (add_worker cfg u lb))) = fleet_urls lb @ [u]"
    using probe_worker_urls [OF assms(5), of _ u] fleet.good_add [OF good, of u] add(2) by metis
  moreover have "tick cfg n env qlen (a, lb) = (a\<lparr>standby := us, active_dynamic := active_dynamic a @ [u],
      last_scale := te_now env\<rparr>, probe_worker u env (snd (add_worker cfg u lb)))"
    using f assms add(1)
    by (simp add: tick_def scale_up_def scale_up_static_def running_count_def Let_def split_def)
  ultimately show ?thesis by blast
qed

lemma tick_down_static:
  assumes "\<not> docker_up a" "\<not> in_cooldown (te_check env) a" "qlen < up_threshold a" "qlen \<le> down_threshold a"
    and "as_min a < int (length (workers lb))" "active_dynamic a = us @ [u]"
  shows "tick cfg n env qlen (a, lb) =
      (a\<lparr>active_dynamic := us, standby := u # standby a, last_scale := te_now env\<rparr>, snd (remove_worker u lb))"
  using assms by (simp add: tick_def scale_down_def scale_down_static_def running_count_def Let_def)



lemma enqueue_blind:
  assumes "stream_laws rd entries pending rank" "list_laws rd exists_key" "stream_key (po_queue pc) \<noteq> k"
  shows "exists_key (snd (pool_enqueue rd pc rid p s)) k = exists_key s k
    \<and> length (entries (snd (pool_enqueue rd pc rid p s)) (stream_key (po_queue pc)))
        = Suc (length (entries s (stream_key (po_queue pc))))"
proof -
  let ?k = "stream_key (po_queue pc)"
  let ?f = "encode_fields (dict_merge [(''request_id'', JStr rid)] p)"
  obtain i s' where x: "xadd rd ?k ?f s = (Inr i, s')" "entries s' = (entries s)(?k := entries s ?k @ [(i, ?f)])"
    using stream_lawsD(1) [OF assms(1), of ?k ?f s] by blast
  then have "snd (pool_enqueue rd pc rid p s) = s'"
    by (simp add: pool_enqueue_def enqueue_def depth_def bind_def stream_lawsD(3) [OF assms(1)] ret_def)
  moreover have "exists_key (snd (xadd rd ?k ?f s)) k = exists_key s k"
    using assms(2) assms(3) [symmetric] unfolding list_laws_def by blast
  ultimately show ?thesis using x by simp
qed

lemma tick_no_scale_up:
  assumes "qlen < up_threshold (fst s)"
  shows "set (workers (snd (tick cfg n env qlen s))) \<subseteq> set (workers (snd s))"
    "set (active_dynamic (fst (tick cfg n env qlen s))) \<subseteq> set (active_dynamic (fst s))"
    "set (containers (fst (tick cfg n env qlen s))) \<subseteq> set (containers (fst s))"
  using assms
  by (auto simp: tick_def scale_down_def scale_down_docker_def scale_down_static_def remove_worker_def Let_def
      split: sum.splits if_splits dest: in_set_butlastD)

text \<open>
  C34. The autoscaler does not see the jobs. It reads the length of a Redis list under the key
  \<open>llm:request_queue\<close>, which nothing in the program writes, while jobs are added to the stream
  \<open>llm:stream:request_queue\<close>: however many jobs are enqueued, the depth it reads is 0 and a pass adds
  no worker, in either mode.
\<close>

theorem autoscaler_blind_to_queue:
  assumes "stream_laws rd entries pending rank" and "list_laws rd exists_key"
    and "\<not> exists_key r ''llm:request_queue''" and "pc = new_pool consumers retries idle hex"
    and "queue_key a = queue_key (new_autoscaler st)" and "0 < up_threshold a"
    and "r' = fold (\<lambda>(rid, p) r. snd (pool_enqueue rd pc rid p r)) jobs r"
    and "scaler_pass rd cfg n env r' (a, lb) = ((a', lb'), r'')"
  shows "fst (pool_queue_depth rd pc r') = Inr (length (entries r (stream_key (po_queue pc))) + length jobs)
    \<and> fst (scaler_depth rd a r') = Inr 0 \<and> set (workers lb') \<subseteq> set (workers lb)
    \<and> set (active_dynamic a') \<subseteq> set (active_dynamic a) \<and> set (containers a') \<subseteq> set (containers a)"
proof -
  have key: "stream_key (po_queue pc) \<noteq> ''llm:request_queue''" by (simp add: assms(4) new_pool_def new_queue_def Let_def)
  have "\<not> exists_key (fold (\<lambda>(rid, p) r. snd (pool_enqueue rd pc rid p r)) js q) ''llm:request_queue''
      \<and> length (entries (fold (\<lambda>(rid, p) r. snd (pool_enqueue rd pc rid p r)) js q) (stream_key (po_queue pc)))
          = length (entries q (stream_key (po_queue pc))) + length js"
    if "\<not> exists_key q ''llm:request_queue''" for js q
    using that
    by (induction js arbitrary: q) (simp_all add: enqueue_blind [OF assms(1,2) key] case_prod_beta)
  from this [OF assms(3), of jobs] have e: "\<not> exists_key r' ''llm:request_queue''"
      "length (entries r' (stream_key (po_queue pc))) = length (entries r (stream_key (po_queue pc))) + length jobs"
    by (simp_all only: assms(7) simp_thms)
  have z: "r_llen rd ''llm:request_queue'' r' = (Inr 0, r')" using assms(2) e(1) unfolding list_laws_def by blast
  have d: "scaler_depth rd a r' = (Inr 0, r')" using assms(5) z by (simp add: scaler_depth_def new_autoscaler_def)
  then have "tick cfg n env 0 (a, lb) = (a', lb')" using assms(8) by (simp add: scaler_pass_def)
  with tick_no_scale_up [of 0 "(a, lb)" cfg n env] assms(6) d e(2) show ?thesis
    by (simp add: pool_queue_depth_def depth_def stream_lawsD(3) [OF assms(1)])
qed

theorem autoscaler_blind_to_queue_witness:
  "\<exists>a' lb' r''. scaler_pass ref_redis (lb_config_of demo_fleet) 1 demo_env
      (snd (pool_enqueue ref_redis (new_pool ''g'' 3 0 ''abc'') ''r1'' [] ref_empty))
      (new_autoscaler demo_fleet, load_balancer demo_fleet) = ((a', lb'), r'')
    \<and> set (workers lb') \<subseteq> set (workers (load_balancer demo_fleet))"
proof -
  let ?r = "fold (\<lambda>(rid, p) r. snd (pool_enqueue ref_redis (new_pool ''g'' 3 0 ''abc'') rid p r)) [(''r1'', [])] ref_empty"
  obtain a' lb' r'' where p: "scaler_pass ref_redis (lb_config_of demo_fleet) 1 demo_env ?r
      (new_autoscaler demo_fleet, load_balancer demo_fleet) = ((a', lb'), r'')"
    by (metis prod.exhaust)
  have "\<not> ref_exists ref_empty ''llm:request_queue''" by (simp add: ref_exists_def ref_empty_def)
  moreover have "0 < up_threshold (new_autoscaler demo_fleet)"
    by (simp add: new_autoscaler_def demo_fleet_def default_settings_def)
  ultimately have "set (workers lb') \<subseteq> set (workers (load_balancer demo_fleet))"
    using autoscaler_blind_to_queue [OF ref_stream_laws ref_list_laws _ refl refl _ refl p] by blast
  then show ?thesis using p by (intro exI conjI) simp_all
qed

text \<open>
  Scaling down in Docker mode stops the container that was started last but leaves its worker in
  the balancer: the fleet keeps routing to a URL behind which nothing runs until the health probe
  marks it.
\<close>

theorem docker_scale_down_keeps_worker:
  assumes "scale_up_docker cfg env current (a, lb) = (a1, lb1)" and "dk_run (te_docker env) (container_name (11434 + current)) (11434 + current) = Inr i"
    and "dk_stop (te_docker env') i = Inr ()" and "scale_down_docker env' (a1, lb1) = (a2, lb2)"
  shows "containers a1 = containers a @ [i] \<and> containers a2 = containers a
    \<and> has_worker (worker_port_url (11434 + current)) lb2 \<and> lb2 = lb1"
  using assms
  by (auto simp: scale_up_docker_def scale_down_docker_def add_worker_def has_worker_def Let_def split: if_splits)

theorem docker_scale_down_keeps_worker_witness:
  "\<exists>a1 lb1 a2 lb2. scale_up_docker (lb_config_of demo_fleet) demo_env 1 (new_autoscaler demo_fleet, load_balancer demo_fleet)
      = (a1, lb1) \<and> scale_down_docker demo_env (a1, lb1) = (a2, lb2) \<and> has_worker (worker_port_url 11435) lb2"
proof -
  obtain a1 lb1 where u: "scale_up_docker (lb_config_of demo_fleet) demo_env 1 (new_autoscaler demo_fleet, load_balancer demo_fleet)
      = (a1, lb1)" by (rule prod.exhaust)
  obtain a2 lb2 where d: "scale_down_docker demo_env (a1, lb1) = (a2, lb2)" by (rule prod.exhaust)
  have "has_worker (worker_port_url (11434 + 1)) lb2"
    by (rule docker_scale_down_keeps_worker [OF u _ _ d, where i = "container_name 11435", THEN conjunct2,
          THEN conjunct2, THEN conjunct1]) (simp_all add: demo_env_def)
  then show ?thesis using u d by (intro exI conjI) simp_all
qed

text \<open>
  A standby URL that turns out to be registered already is taken off the standby list and kept
  nowhere.
\<close>

lemma standby_url_lost:
  "has_worker u lb \<Longrightarrow> standby a = u # us \<Longrightarrow> scale_up_static cfg env (a, lb) = (a\<lparr>standby := us\<rparr>, lb)"
  by (simp add: scale_up_static_def add_worker_def)

end
