(* ===== verification/HealthChecker.thy ===== *)
theory HealthChecker
  imports LoadBalancer
begin

text \<open>
  \<^verbatim>\<open>router/health_checker.py\<close>: the loop that probes every worker. The loop has no exception handler,
  so the first exception ends it. \<open>asyncio.gather\<close> runs the probes of one round concurrently: they
  complete in any order, and the rest of the program changes the balancer in between. The theory
  shows that the atomic \<open>health_check_all\<close> of the balancer stands for such a round.
\<close>

section \<open>The loop\<close>

definition health_pass :: "(nat \<Rightarrow> probe_outcome) \<Rightarrow> balancer \<Rightarrow> stats_row list result \<times> balancer" where
  "health_pass probe lb =
     (let lb' = health_check_all probe lb in (get_worker_stats lb', lb'))"

text \<open>One element per round: the outcomes of its probes, and what happens during the sleep before it.\<close>

fun health_loop ::
  "((nat \<Rightarrow> probe_outcome) \<times> lb_event list) list \<Rightarrow> balancer \<Rightarrow> stats_row list list result \<times> balancer" where
  "health_loop [] lb = (Inr [], lb)"
| "health_loop ((probe, es) # rounds) lb =
     (case health_pass probe (fold lb_apply es lb) of
        (Inl e, lb1) \<Rightarrow> (Inl e, lb1)
      | (Inr rows, lb1) \<Rightarrow>
          (case health_loop rounds lb1 of
             (Inl e, lb2) \<Rightarrow> (Inl e, lb2)
           | (Inr rest, lb2) \<Rightarrow> (Inr (rows # rest), lb2)))"

section \<open>One round, probe by probe\<close>

datatype round_event = Probed nat | Meanwhile lb_event

definition probe_done :: "(nat \<Rightarrow> probe_outcome) \<Rightarrow> nat \<Rightarrow> balancer \<Rightarrow> balancer" where
  "probe_done probe i lb = update_client i (\<lambda>w. snd (health_check (probe i) w)) lb"

fun round_step :: "(nat \<Rightarrow> probe_outcome) \<Rightarrow> round_event \<Rightarrow> balancer \<Rightarrow> balancer" where
  "round_step probe (Probed i) lb = probe_done probe i lb"
| "round_step probe (Meanwhile e) lb = lb_apply e lb"

definition probed :: "round_event list \<Rightarrow> nat list" where
  "probed es = concat (map (\<lambda>e. case e of Probed i \<Rightarrow> [i] | Meanwhile _ \<Rightarrow> []) es)"

fun meanwhile_ok :: "round_event \<Rightarrow> bool" where
  "meanwhile_ok (Meanwhile (HealthChecks _)) = False"
| "meanwhile_ok (Meanwhile e) = event_ok e"
| "meanwhile_ok (Probed i) = True"

section \<open>Lemmas\<close>

lemma probed_simps [simp]:
  "probed [] = []" "probed (Probed i # es) = i # probed es" "probed (Meanwhile e # es) = probed es"
  by (simp_all add: probed_def)

lemma reachable_fold: "lb_reachable lb \<Longrightarrow> list_all event_ok es \<Longrightarrow> lb_reachable (fold lb_apply es lb)"
  by (induction es arbitrary: lb) (auto intro: lb_reachable.step)

lemma probe_is_healthy: "fst (health_check o' w) \<longleftrightarrow> o' = Status 200"
  by (auto simp: health_check_def Let_def split: probe_outcome.split)

lemma stats_rows_healthy:
  "stats_rows ws bs = Inr rs \<Longrightarrow> map row_healthy rs = map (\<lambda>w. is_healthy (stats w)) ws"
  by (induction ws arbitrary: rs) (auto simp: stats_row_of_def split: option.splits sum.splits)

lemma health_pass_total:
  assumes "lb_reachable lb"
  shows "\<exists>rows. health_pass probe lb = (Inr rows, health_check_all probe lb)
    \<and> map row_url rows = map curl (workers lb)
    \<and> map row_healthy rows = map (\<lambda>w. probe (cid w) = Status 200) (workers lb)"
proof -
  let ?lb = "health_check_all probe lb"
  have inv: "lb_inv ?lb" using lb_reachable_inv [OF assms] by (rule lb_inv_health)
  obtain rows where rows: "stats_rows (workers ?lb) (breakers ?lb) = Inr rows"
      "map row_url rows = map curl (workers ?lb)"
    using stats_rows_total [of "workers ?lb" "breakers ?lb"] lb_inv_dom [OF inv] by blast
  have "map row_healthy rows = map (\<lambda>w. probe (cid w) = Status 200) (workers lb)"
    using stats_rows_healthy [OF rows(1)] by (simp add: health_check_all_def comp_def probe_is_healthy)
  moreover have "map row_url rows = map curl (workers lb)"
    using rows(2) by (simp add: health_check_all_def comp_def)
  ultimately show ?thesis using rows(1) by (simp add: health_pass_def get_worker_stats_def Let_def)
qed

text \<open>Probes alone: their order does not matter.\<close>

lemma probes_only:
  "distinct order \<Longrightarrow> fold (probe_done probe) order lb =
     lb\<lparr>workers := map (\<lambda>w. if cid w \<in> set order then snd (health_check (probe (cid w)) w) else w) (workers lb)\<rparr>"
proof (induction order arbitrary: lb)
  case Nil
  then show ?case by simp
next
  case (Cons i order)
  then show ?case
    by (auto simp: probe_done_def update_client_def)
qed

lemma lb_apply_next_cid: "next_cid lb \<le> next_cid (lb_apply e lb)"
proof (cases e)
  case (Pick s t1 t2 ctx)
  have "next_cid (snd (available_workers t c lb')) = next_cid lb'" for t c lb'
    by (simp add: available_workers_def split: prod.split sum.split)
  then show ?thesis
    using Pick by (auto simp: pick_worker_def split: prod.split sum.split option.split)
      (metis order_refl snd_conv)+
qed (simp_all add: add_worker_def remove_worker_def record_success_def record_failure_def on_breaker_def
    update_client_def health_check_all_def Let_def split: option.split)

text \<open>Nothing but a probe changes the health of a client object.\<close>

lemma lb_apply_health:
  assumes "lb_inv lb" "\<not> (\<exists>probe. e = HealthChecks probe)" "w' \<in> set (workers (lb_apply e lb))" "cid w' < next_cid lb"
  shows "\<exists>w \<in> set (workers lb). cid w = cid w' \<and> is_healthy (stats w) = is_healthy (stats w')"
  using assms
  by (cases e)
    (auto simp: pick_worker_workers record_success_def record_failure_def on_breaker_def add_worker_def
      remove_worker_def update_client_def finish_generate_def finish_chat_def call_defs Let_def
      split: option.splits if_splits)

lemma round_health:
  assumes "lb_inv lb" "list_all meanwhile_ok es" "\<And>i. i \<in> set (probed es) \<Longrightarrow> i < next_cid lb"
    and "\<And>w. w \<in> set (workers lb) \<Longrightarrow> cid w \<in> done \<Longrightarrow> is_healthy (stats w) \<longleftrightarrow> probe (cid w) = Status 200"
    and "\<And>i. i \<in> done \<Longrightarrow> i < next_cid lb"
  shows "\<forall>w \<in> set (workers (fold (round_step probe) es lb)). cid w \<in> done \<union> set (probed es)
    \<longrightarrow> (is_healthy (stats w) \<longleftrightarrow> probe (cid w) = Status 200)"
  using assms
proof (induction es arbitrary: lb "done")
  case Nil
  then show ?case by simp
next
  case (Cons ev es)
  show ?case
  proof (cases ev)
    case (Probed i)
    let ?lb = "probe_done probe i lb"
    have sel: "next_cid ?lb = next_cid lb" "lb_inv ?lb"
      using Cons.prems(1) by (auto simp: probe_done_def update_client_def intro!: lb_inv_update_client [unfolded update_client_def])
    have "\<forall>w \<in> set (workers (fold (round_step probe) es ?lb)). cid w \<in> insert i done \<union> set (probed es)
        \<longrightarrow> (is_healthy (stats w) \<longleftrightarrow> probe (cid w) = Status 200)"
    proof (rule Cons.IH [OF sel(2)])
      show "is_healthy (stats w) \<longleftrightarrow> probe (cid w) = Status 200"
        if "w \<in> set (workers ?lb)" "cid w \<in> insert i done" for w
        using that Cons.prems(4)
        by (auto simp: probe_done_def update_client_def probe_is_healthy split: if_splits)
    qed (use Cons.prems Probed sel in auto)
    then show ?thesis using Probed by simp
  next
    case (Meanwhile e)
    let ?lb = "lb_apply e lb"
    have e: "event_ok e" "\<not> (\<exists>p. e = HealthChecks p)"
      using Cons.prems(2) Meanwhile by (cases e; simp)+
    have mono: "next_cid lb \<le> next_cid ?lb" by (rule lb_apply_next_cid)
    have "\<forall>w \<in> set (workers (fold (round_step probe) es ?lb)). cid w \<in> done \<union> set (probed es)
        \<longrightarrow> (is_healthy (stats w) \<longleftrightarrow> probe (cid w) = Status 200)"
    proof (rule Cons.IH [OF lb_inv_apply [OF e(1) Cons.prems(1)]])
      show "is_healthy (stats w) \<longleftrightarrow> probe (cid w) = Status 200"
        if w: "w \<in> set (workers ?lb)" "cid w \<in> done" for w
      proof -
        obtain v where "v \<in> set (workers lb)" "cid v = cid w" "is_healthy (stats v) = is_healthy (stats w)"
          using lb_apply_health [OF Cons.prems(1) e(2) w(1) Cons.prems(5) [OF w(2)]] by blast
        then show ?thesis using Cons.prems(4) [of v] w(2) by simp
      qed
      show "i < next_cid ?lb" if "i \<in> set (probed es)" for i
        using Cons.prems(3) [of i] that Meanwhile mono by simp
      show "i < next_cid ?lb" if "i \<in> done" for i
        using Cons.prems(5) [OF that] mono by simp
    qed (use Cons.prems Meanwhile in simp_all)
    then show ?thesis using Meanwhile by simp
  qed
qed

section \<open>Properties\<close>



text \<open>
  C35. The health loop never dies: over any number of rounds, with anything happening to the balancer
  between two rounds, every round ends with the statistics of all workers registered at that time and
  not with an exception.
\<close>

theorem health_loop_survives:
  assumes "lb_reachable lb" and "list_all (\<lambda>(probe, es). list_all event_ok es) rounds"
  shows "\<exists>reports lb'. health_loop rounds lb = (Inr reports, lb') \<and> length reports = length rounds \<and> lb_reachable lb'
    \<and> (\<forall>probe es. rounds = [(probe, es)] \<longrightarrow>
         map (map row_healthy) reports = [map (\<lambda>w. probe (cid w) = Status 200) (workers (fold lb_apply es lb))])"
proof -
  have run: "\<exists>reports lb'. health_loop rounds lb = (Inr reports, lb') \<and> length reports = length rounds \<and> lb_reachable lb'"
    using assms
  proof (induction rounds arbitrary: lb)
    case Nil
    then show ?case by simp
  next
    case (Cons r rounds)
    obtain probe es where r: "r = (probe, es)" by (rule prod.exhaust)
    have reach: "lb_reachable (fold lb_apply es lb)"
      using Cons.prems r by (intro reachable_fold) simp_all
    obtain rows where rows: "health_pass probe (fold lb_apply es lb) = (Inr rows, health_check_all probe (fold lb_apply es lb))"
      using health_pass_total [OF reach] by blast
    have "lb_reachable (lb_apply (HealthChecks probe) (fold lb_apply es lb))" by (rule lb_reachable.step [OF reach]) simp
    then have "lb_reachable (health_check_all probe (fold lb_apply es lb))" by simp
    from Cons.IH [OF this] Cons.prems(2) obtain reports lb' where
      "health_loop rounds (health_check_all probe (fold lb_apply es lb)) = (Inr reports, lb')"
      "length reports = length rounds" "lb_reachable lb'" by auto
    with rows r show ?case by simp
  qed
  then obtain reports lb' where l: "health_loop rounds lb = (Inr reports, lb')" "length reports = length rounds"
      "lb_reachable lb'" by blast
  have "map (map row_healthy) reports = [map (\<lambda>w. probe (cid w) = Status 200) (workers (fold lb_apply es lb))]"
    if "rounds = [(probe, es)]" for probe es
  proof -
    have "lb_reachable (fold lb_apply es lb)" using assms that by (intro reachable_fold) simp_all
    from health_pass_total [OF this] obtain rows where
      "health_pass probe (fold lb_apply es lb) = (Inr rows, health_check_all probe (fold lb_apply es lb))"
      "map row_healthy rows = map (\<lambda>w. probe (cid w) = Status 200) (workers (fold lb_apply es lb))" by blast
    then show ?thesis using l(1) that by auto
  qed
  with l show ?thesis by blast
qed

theorem health_loop_survives_witness:
  "\<exists>reports lb'. health_loop [(\<lambda>_. ProbeRaised, [Remove ''a'']), (\<lambda>_. Status 200, [])] (new_balancer demo_config [''a'', ''b''])
      = (Inr reports, lb') \<and> length reports = 2"
proof -
  have "list_all (\<lambda>(probe, es). list_all event_ok es)
      [(\<lambda>_ :: nat. ProbeRaised, [Remove ''a'']), (\<lambda>_. Status 200, [])]" by simp
  from health_loop_survives [OF demo_reachable this, of "[''a'', ''b'']"] show ?thesis
  proof (elim exE conjE)
    fix reports lb'
    assume l: "health_loop [(\<lambda>_. ProbeRaised, [Remove ''a'']), (\<lambda>_. Status 200, [])] (new_balancer demo_config [''a'', ''b''])
        = (Inr reports, lb')" and n: "length reports = length [(\<lambda>_ :: nat. ProbeRaised, [Remove ''a'']), (\<lambda>_. Status 200, [])]"
    from n have "length reports = 2" by simp
    with l show ?thesis by (intro exI conjI)
  qed
qed

end
