(* ===== verification/Lifespan.thy ===== *)
theory Lifespan
  imports Gateway Autoscaler HealthChecker
begin

text \<open>
  \<^verbatim>\<open>gateway/main.py\<close>: starting and stopping the program. \<open>lifespan\<close> runs the start of every component in
  order, serves, and stops them; the starts and stops of the components themselves (\<open>connect\<close>, \<open>start\<close>,
  \<open>stop\<close>, \<open>close\<close>) are here too. The state is what the components share (Redis, the balancer, the
  autoscaler) and the set of resources that are held: connections that are open and tasks that run.
  Opening a Redis client does not contact the server; creating the consumer group, the PostgreSQL pool
  and its schema may raise.
\<close>

section \<open>State\<close>

datatype resource =
    PoolRedis | ProcessTask | RecoveryTask | ScalerRedis | DockerClient | ScalerTask | RegistryRedis
  | MemoryPool | HealthTask

record 's app =
  app_redis :: 's
  app_lb :: balancer
  app_scaler :: autoscaler
  held :: "resource set"

definition hold :: "resource list \<Rightarrow> 's app \<Rightarrow> 's app" where
  "hold rs a = a\<lparr>held := held a \<union> set rs\<rparr>"

definition release :: "resource list \<Rightarrow> 's app \<Rightarrow> 's app" where
  "release rs a = a\<lparr>held := held a - set rs\<rparr>"

text \<open>What the world answers during the start.\<close>

record boot_env =
  bo_probe :: "nat \<Rightarrow> probe_outcome"
  bo_sdk :: bool
  bo_docker :: "unit result"
  bo_memory :: "unit result"
  bo_schema :: "unit result"

section \<open>Starting\<close>

text \<open>The health check before anything else; the answer is the number of healthy workers.\<close>

definition check_workers :: "boot_env \<Rightarrow> ('s app, nat) io" where
  "check_workers env a =
     (let lb = health_check_all (bo_probe env) (app_lb a)
      in (case get_worker_stats lb of Inl e \<Rightarrow> Inl e | Inr rows \<Rightarrow> Inr (length (filter row_healthy rows)),
          a\<lparr>app_lb := lb\<rparr>))"

definition pool_connect :: "'s redis \<Rightarrow> pool_config \<Rightarrow> ('s app, unit) io" where
  "pool_connect rd pc a =
     (case queue_connect rd (po_queue pc) (app_redis a) of
        (r, s) \<Rightarrow> (r, (hold [PoolRedis] a)\<lparr>app_redis := s\<rparr>))"

definition pool_start :: "('s app, unit) io" where
  "pool_start a = (Inr (), hold [ProcessTask, RecoveryTask] a)"

definition scaler_connect :: "boot_env \<Rightarrow> ('s app, unit) io" where
  "scaler_connect env a =
     (let sc = connect_autoscaler (bo_sdk env) (bo_docker env) (app_scaler a)
      in (Inr (), (hold (if docker_up sc then [ScalerRedis, DockerClient] else [ScalerRedis]) a)\<lparr>app_scaler := sc\<rparr>))"

definition scaler_start :: "('s app, unit) io" where
  "scaler_start a = (Inr (), hold [ScalerTask] a)"

definition registry_connect :: "('s app, unit) io" where
  "registry_connect a = (Inr (), hold [RegistryRedis] a)"

definition memory_connect :: "boot_env \<Rightarrow> ('s app, unit) io" where
  "memory_connect env a =
     (case bo_memory env of Inl e \<Rightarrow> (Inl e, a) | Inr _ \<Rightarrow> (bo_schema env, hold [MemoryPool] a))"

definition health_start :: "('s app, unit) io" where
  "health_start a = (Inr (), hold [HealthTask] a)"

definition startup :: "'s redis \<Rightarrow> pool_config \<Rightarrow> boot_env \<Rightarrow> ('s app, nat) io" where
  "startup rd pc env =
     bind (check_workers env) (\<lambda>healthy.
     bind (pool_connect rd pc) (\<lambda>_.
     bind pool_start (\<lambda>_.
     bind (scaler_connect env) (\<lambda>_.
     bind scaler_start (\<lambda>_.
     bind registry_connect (\<lambda>_.
     bind (memory_connect env) (\<lambda>_.
     bind health_start (\<lambda>_. ret healthy))))))))"

section \<open>Stopping\<close>

text \<open>
  Cancelling a task that was never created and closing what is not open do nothing.
\<close>

definition health_stop :: "'s app \<Rightarrow> 's app" where
  "health_stop a = release [HealthTask] a"

definition scaler_stop :: "'s app \<Rightarrow> 's app" where
  "scaler_stop a = release [ScalerTask] a"

definition pool_stop :: "'s app \<Rightarrow> 's app" where
  "pool_stop a = release [PoolRedis] (release [ProcessTask, RecoveryTask] a)"

definition registry_close :: "'s app \<Rightarrow> 's app" where
  "registry_close a = release [RegistryRedis] a"

definition memory_close :: "'s app \<Rightarrow> 's app" where
  "memory_close a = release [MemoryPool] a"

definition shutdown :: "'s app \<Rightarrow> 's app" where
  "shutdown a = memory_close (registry_close (pool_stop (scaler_stop (health_stop a))))"

text \<open>\<open>serve\<close> is what the running program does to the shared state; there is no \<open>try\<close> around the \<open>yield\<close>.\<close>

definition lifespan ::
  "'s redis \<Rightarrow> pool_config \<Rightarrow> boot_env \<Rightarrow> ('s \<times> balancer \<times> autoscaler \<Rightarrow> 's \<times> balancer \<times> autoscaler)
     \<Rightarrow> ('s app, nat) io" where
  "lifespan rd pc env serve a =
     (case startup rd pc env a of
        (Inl e, a1) \<Rightarrow> (Inl e, a1)
      | (Inr healthy, a1) \<Rightarrow>
          (case serve (app_redis a1, app_lb a1, app_scaler a1) of
             (s, lb, sc) \<Rightarrow> (Inr healthy, shutdown (a1\<lparr>app_redis := s, app_lb := lb, app_scaler := sc\<rparr>))))"

definition root_route :: json where
  "root_route = JDict [(''service'', JStr ''LLM Inference Engine''), (''version'', JStr ''0.2.0''),
     (''docs'', JStr ''/docs''), (''metrics'', JStr ''/metrics'')]"

section \<open>Lemmas\<close>

lemmas boot_defs = check_workers_def pool_connect_def pool_start_def scaler_connect_def scaler_start_def
  registry_connect_def memory_connect_def health_start_def hold_def

lemmas stop_defs = shutdown_def memory_close_def registry_close_def pool_stop_def scaler_stop_def health_stop_def
  release_def

text \<open>What is held once the worker pool and the autoscaler run.\<close>

definition docker_used :: "boot_env \<Rightarrow> bool" where
  "docker_used env \<longleftrightarrow> bo_sdk env \<and> \<not> isl (bo_docker env)"

definition background_held :: "boot_env \<Rightarrow> resource set" where
  "background_held env = {PoolRedis, ProcessTask, RecoveryTask, ScalerRedis, ScalerTask, RegistryRedis}
     \<union> (if docker_used env then {DockerClient} else {})"

lemma check_workers_ok:
  assumes "lb_reachable (app_lb a)"
  shows "check_workers env a = (Inr (length (filter (\<lambda>w. bo_probe env (cid w) = Status 200) (workers (app_lb a)))),
    a\<lparr>app_lb := health_check_all (bo_probe env) (app_lb a)\<rparr>)"
proof -
  obtain rows where "health_pass (bo_probe env) (app_lb a) = (Inr rows, health_check_all (bo_probe env) (app_lb a))"
      "map row_healthy rows = map (\<lambda>w. bo_probe env (cid w) = Status 200) (workers (app_lb a))"
    using health_pass_total [OF assms] by blast
  then have "get_worker_stats (health_check_all (bo_probe env) (app_lb a)) = Inr rows"
    and "length (filter id (map row_healthy rows)) =
      length (filter id (map (\<lambda>w. bo_probe env (cid w) = Status 200) (workers (app_lb a))))"
    by (simp_all add: health_pass_def Let_def)
  then show ?thesis by (simp add: check_workers_def Let_def filter_map comp_def)
qed

lemma startup_eq:
  assumes "lb_reachable (app_lb a)"
  shows "startup rd pc env a =
    (let n = length (filter (\<lambda>w. bo_probe env (cid w) = Status 200) (workers (app_lb a)));
         a1 = a\<lparr>app_lb := health_check_all (bo_probe env) (app_lb a)\<rparr>
     in case queue_connect rd (po_queue pc) (app_redis a) of
          (Inl e, s) \<Rightarrow> (Inl e, a1\<lparr>app_redis := s, held := held a \<union> {PoolRedis}\<rparr>)
        | (Inr _, s) \<Rightarrow>
            (let a2 = a1\<lparr>app_redis := s, app_scaler := connect_autoscaler (bo_sdk env) (bo_docker env) (app_scaler a),
                   held := held a \<union> background_held env\<rparr>
             in case bo_memory env of
                  Inl e \<Rightarrow> (Inl e, a2)
                | Inr _ \<Rightarrow> (case bo_schema env of
                      Inl e \<Rightarrow> (Inl e, a2\<lparr>held := held a2 \<union> {MemoryPool}\<rparr>)
                    | Inr _ \<Rightarrow> (Inr n, a2\<lparr>held := held a2 \<union> {MemoryPool, HealthTask}\<rparr>))))"
proof -
  let ?q = "queue_connect rd (po_queue pc) (app_redis a)"
  have held: "docker_up (connect_autoscaler (bo_sdk env) (bo_docker env) sc) = docker_used env" for sc
    by (simp add: connect_autoscaler_def docker_used_def)
  obtain r s where q: "?q = (r, s)" by (rule prod.exhaust)
  show ?thesis
    unfolding startup_def bind_def check_workers_ok [OF assms]
    using q
    by (cases r; cases "bo_memory env"; cases "bo_schema env"; cases "docker_used env")
      (simp_all add: boot_defs held ret_def Let_def background_held_def insert_commute)
qed

section \<open>Properties\<close>

text \<open>
  C21. What the program holds over its life. A start succeeds exactly when the consumer group, the
  PostgreSQL pool and its schema can be made; it reports the healthy workers, and after the stop only
  the Redis connection of the autoscaler (and its Docker client) is still held, which nothing ever
  closes. A start that fails raises the error of the failing step and releases nothing: with
  PostgreSQL down, the queue consumers and the autoscaler run on without a server.
\<close>

theorem lifespan_resources:
  assumes "lb_reachable (app_lb a)" and "held a = {}" and "lifespan rd pc env serve a = (r, a')"
  shows "(case r of
       Inr n \<Rightarrow>
         n = length (filter (\<lambda>w. bo_probe env (cid w) = Status 200) (workers (app_lb a)))
         \<and> \<not> isl (fst (queue_connect rd (po_queue pc) (app_redis a))) \<and> \<not> isl (bo_memory env) \<and> \<not> isl (bo_schema env)
         \<and> held a' = {ScalerRedis} \<union> (if docker_used env then {DockerClient} else {})
     | Inl e \<Rightarrow>
         HealthTask \<notin> held a'
         \<and> (if isl (fst (queue_connect rd (po_queue pc) (app_redis a)))
            then fst (queue_connect rd (po_queue pc) (app_redis a)) = Inl e \<and> held a' = {PoolRedis}
            else if isl (bo_memory env) then bo_memory env = Inl e \<and> held a' = background_held env
            else bo_schema env = Inl e \<and> held a' = background_held env \<union> {MemoryPool}))"
proof -
  obtain q s where q: "queue_connect rd (po_queue pc) (app_redis a) = (q, s)" by (rule prod.exhaust)
  show ?thesis
    using assms(3) q assms(2)
    unfolding lifespan_def startup_eq [OF assms(1)] Let_def
    by (cases q; cases "bo_memory env"; cases "bo_schema env"; cases "docker_used env")
      (auto simp: stop_defs background_held_def split: prod.splits)
qed

definition demo_boot :: boot_env where
  "demo_boot = \<lparr>bo_probe = (\<lambda>_. Status 200), bo_sdk = False, bo_docker = Inr (), bo_memory = Inr (), bo_schema = Inr ()\<rparr>"

definition demo_app :: "ref_state app" where
  "demo_app = \<lparr>app_redis = ref_empty, app_lb = new_balancer demo_config [''a'', ''b''],
     app_scaler = new_autoscaler default_settings, held = {}\<rparr>"

theorem lifespan_resources_witness:
  "\<exists>a'. lifespan ref_redis (new_pool ''g'' 3 0 ''abc'') demo_boot id demo_app = (Inr 2, a') \<and> held a' = {ScalerRedis}"
proof -
  obtain r a' where run: "lifespan ref_redis (new_pool ''g'' 3 0 ''abc'') demo_boot id demo_app = (r, a')"
    by (rule prod.exhaust)
  have reach: "lb_reachable (app_lb demo_app)" unfolding demo_app_def app.simps by (rule demo_reachable)
  have env: "\<not> isl (fst (queue_connect ref_redis (po_queue (new_pool ''g'' 3 0 ''abc'')) (app_redis demo_app)))"
    by (simp add: queue_connect_def ref_redis_def ret_def)
  have fair: "\<not> isl (bo_memory demo_boot)" "\<not> isl (bo_schema demo_boot)" "\<not> docker_used demo_boot"
    by (simp_all add: demo_boot_def docker_used_def)
  have two: "length (filter (\<lambda>w. bo_probe demo_boot (cid w) = Status 200) (workers (app_lb demo_app))) = 2"
    by (simp add: demo_boot_def demo_app_def new_balancer_def)
  note t = lifespan_resources [OF reach _ run, unfolded two]
  have "held demo_app = {}" by (simp add: demo_app_def)
  from t [OF this] env fair run show ?thesis by (cases r) auto
qed

end
