(* ===== verification/Memory.thy ===== *)
theory Memory
  imports ContextSelection RedisApi
begin

text \<open>
  The package \<^verbatim>\<open>memory\<close>: memory items, their ranking against a query, the selection that respects a
  token budget, the PostgreSQL table and the manager. Each method of the store sends one or two SQL
  statements; they are modelled by what the statements do to the rows of the table. PostgreSQL
  itself is not modelled: connections and failures are left out, and since \<open>ORDER BY created_at\<close>
  leaves the order of equal times open, the order of a result is an argument \<open>arrange\<close>.
\<close>

section \<open>Items\<close>

datatype memory_kind = WORKING | EPISODIC

fun kind_value :: "memory_kind \<Rightarrow> string" where
  "kind_value WORKING = ''working''"
| "kind_value EPISODIC = ''episodic''"

record memory_item =
  mem_kind :: memory_kind
  mem_content :: string
  mem_agent_id :: "string option"
  mem_workflow_id :: "string option"
  mem_importance :: real
  mem_id :: string
  mem_created_at :: real
  mem_last_used_at :: real
  mem_access_count :: nat
  mem_expires_at :: "real option"

definition new_memory ::
  "stamp \<Rightarrow> memory_kind \<Rightarrow> string \<Rightarrow> string option \<Rightarrow> string option \<Rightarrow> real \<Rightarrow> real option \<Rightarrow> memory_item" where
  "new_memory st k txt ag wid imp ex =
     \<lparr>mem_kind = k, mem_content = txt, mem_agent_id = ag, mem_workflow_id = wid, mem_importance = imp,
      mem_id = fresh_id st, mem_created_at = clock1 st, mem_last_used_at = clock2 st, mem_access_count = 0,
      mem_expires_at = ex\<rparr>"

section \<open>Ranking\<close>

definition memory_weights :: "real pydict" where
  "memory_weights = [(''relevance'', 1 / 4), (''importance'', 1 / 4), (''recency'', 1 / 4),
     (''access_frequency'', 1 / 4)]"

definition word_set :: "string \<Rightarrow> string set" where
  "word_set txt = set (find_words (str_lower txt))"

definition lexical_relevance :: "string \<Rightarrow> string \<Rightarrow> real" where
  "lexical_relevance query txt =
     (if query = [] then 0
      else (let q = word_set query; c = word_set txt
            in if q = {} \<or> c = {} then 0 else of_nat (card (q \<inter> c)) / of_nat (card (q \<union> c))))"

text \<open>\<open>{key(i): val(i) for i in items}\<close>\<close>

definition dict_of :: "('a \<Rightarrow> string) \<Rightarrow> ('a \<Rightarrow> 'v) \<Rightarrow> 'a list \<Rightarrow> 'v pydict" where
  "dict_of key val xs = fold (\<lambda>i d. AList.update (key i) (val i) d) xs []"

definition normalize :: "real pydict \<Rightarrow> real pydict" where
  "normalize d =
     (if d = [] then []
      else (let lo = Min (set (map snd d)); hi = Max (set (map snd d))
            in if hi = lo then map (\<lambda>(k, v). (k, 1)) d else map (\<lambda>(k, v). (k, (v - lo) / (hi - lo))) d))"

definition memory_score ::
  "real pydict \<Rightarrow> string \<Rightarrow> real pydict \<Rightarrow> real pydict \<Rightarrow> memory_item \<Rightarrow> real result" where
  "memory_score w query recency access it =
     (case dict_item w ''relevance'' of Inl e \<Rightarrow> Inl e
      | Inr wr \<Rightarrow> (case dict_item w ''importance'' of Inl e \<Rightarrow> Inl e
      | Inr wi \<Rightarrow> (case dict_item w ''recency'' of Inl e \<Rightarrow> Inl e
      | Inr wc \<Rightarrow> (case dict_item recency (mem_id it) of Inl e \<Rightarrow> Inl e
      | Inr r \<Rightarrow> (case dict_item w ''access_frequency'' of Inl e \<Rightarrow> Inl e
      | Inr wa \<Rightarrow> (case dict_item access (mem_id it) of Inl e \<Rightarrow> Inl e
      | Inr a \<Rightarrow> Inr (wr * lexical_relevance query (mem_content it) + wi * mem_importance it
                     + wc * r + wa * a)))))))"

definition score_memories ::
  "memory_item list \<Rightarrow> string \<Rightarrow> real pydict option \<Rightarrow> real pydict result" where
  "score_memories its query weights =
     (let w = (case weights of None \<Rightarrow> memory_weights | Some d \<Rightarrow> if d = [] then memory_weights else d);
          recency = normalize (dict_of mem_id mem_last_used_at its);
          access = normalize (dict_of mem_id (\<lambda>i. of_nat (mem_access_count i)) its)
      in case traverse (memory_score w query recency access) its of
           Inl e \<Rightarrow> Inl e
         | Inr ss \<Rightarrow> Inr (dict_of fst snd (zip (map mem_id its) ss)))"

text \<open>\<open>sorted(items, key=..., reverse=True)\<close> with a key that looks the score up.\<close>

definition sort_by_score ::
  "(real \<Rightarrow> memory_item \<Rightarrow> real) \<Rightarrow> memory_item list \<Rightarrow> real pydict \<Rightarrow> memory_item list result" where
  "sort_by_score f its scores =
     (case traverse (\<lambda>i. dict_item scores (mem_id i)) its of
        Inl e \<Rightarrow> Inl e
      | Inr _ \<Rightarrow> Inr (py_sorted (\<lambda>i. f (the (map_of scores (mem_id i))) i) True its))"

definition rank_memories :: "memory_item list \<Rightarrow> real pydict \<Rightarrow> memory_item list result" where
  "rank_memories its scores = sort_by_score (\<lambda>s _. s) its scores"

section \<open>Retrieval\<close>

definition mem_cost :: "memory_item \<Rightarrow> int" where
  "mem_cost i = estimate_tokens (mem_content i)"

fun mem_pack :: "memory_item list \<Rightarrow> int \<Rightarrow> memory_item list" where
  "mem_pack [] remaining = []"
| "mem_pack (i # is) remaining =
     (if mem_cost i \<le> remaining then i # mem_pack is (remaining - mem_cost i) else mem_pack is remaining)"

definition density :: "real \<Rightarrow> memory_item \<Rightarrow> real" where
  "density s i = s / of_int (max 1 (mem_cost i))"

definition select_within_budget ::
  "memory_item list \<Rightarrow> real pydict \<Rightarrow> int \<Rightarrow> memory_item list result" where
  "select_within_budget its scores budget =
     (case sort_by_score density its scores of Inl e \<Rightarrow> Inl e | Inr ordered \<Rightarrow> Inr (mem_pack ordered budget))"

definition to_context_item :: "stamp \<Rightarrow> memory_item \<Rightarrow> context_item" where
  "to_context_item st i =
     (new_item st MEMORY (mem_content i))
       \<lparr>source := Some (''memory:'' @ kind_value (mem_kind i)), agent_id := mem_agent_id i,
        workflow_id := mem_workflow_id i, importance := mem_importance i\<rparr>"

text \<open>One stamp per item.\<close>

definition to_context_items :: "stamp list \<Rightarrow> memory_item list \<Rightarrow> context_item list" where
  "to_context_items sts its = map (\<lambda>(st, i). to_context_item st i) (zip sts its)"

definition retrieve_relevant_memories ::
  "memory_item list \<Rightarrow> int \<Rightarrow> string \<Rightarrow> real pydict option \<Rightarrow> memory_item list result" where
  "retrieve_relevant_memories its budget query weights =
     (if its = [] then Inr []
      else (case score_memories its query weights of
              Inl e \<Rightarrow> Inl e | Inr scores \<Rightarrow> select_within_budget its scores budget))"

section \<open>The table\<close>

type_synonym memory_table = "memory_item list"

text \<open>INSERT; the primary key rejects a second row with the same id.\<close>

definition mem_add :: "memory_item \<Rightarrow> memory_table \<Rightarrow> memory_item result \<times> memory_table" where
  "mem_add i t =
     (if list_ex (\<lambda>r. mem_id r = mem_id i) t
      then (Inl (ServiceError ''duplicate key value violates unique constraint''), t)
      else (Inr i, t @ [i]))"

definition mark_used :: "real \<Rightarrow> memory_item \<Rightarrow> memory_item" where
  "mark_used now r = r\<lparr>mem_last_used_at := now, mem_access_count := mem_access_count r + 1\<rparr>"

text \<open>SELECT, then UPDATE of the same row; the returned item is the row with the update applied.\<close>

definition mem_get :: "real \<Rightarrow> string \<Rightarrow> memory_table \<Rightarrow> memory_item option \<times> memory_table" where
  "mem_get now i t =
     (case find (\<lambda>r. mem_id r = i) t of
        None \<Rightarrow> (None, t)
      | Some r \<Rightarrow> (Some (mark_used now r), map (\<lambda>r. if mem_id r = i then mark_used now r else r) t))"

definition mem_list ::
  "(memory_item list \<Rightarrow> memory_item list) \<Rightarrow> string \<Rightarrow> memory_kind option \<Rightarrow> memory_table \<Rightarrow> memory_item list" where
  "mem_list arrange wid k t =
     arrange (filter (\<lambda>r. mem_workflow_id r = Some wid \<and> (k = None \<or> k = Some (mem_kind r))) t)"

definition mem_delete :: "string \<Rightarrow> memory_table \<Rightarrow> bool \<times> memory_table" where
  "mem_delete i t = (length (filter (\<lambda>r. mem_id r = i) t) = 1, filter (\<lambda>r. mem_id r \<noteq> i) t)"

definition expired :: "real \<Rightarrow> memory_item \<Rightarrow> bool" where
  "expired now r = (case mem_expires_at r of None \<Rightarrow> False | Some e \<Rightarrow> e \<le> now)"

definition mem_purge_expired :: "real \<Rightarrow> memory_table \<Rightarrow> nat \<times> memory_table" where
  "mem_purge_expired now t = (length (filter (expired now) t), filter (\<lambda>r. \<not> expired now r) t)"

section \<open>The manager\<close>

definition record_working ::
  "stamp \<Rightarrow> real \<Rightarrow> string \<Rightarrow> string option \<Rightarrow> string option \<Rightarrow> real \<Rightarrow> real option \<Rightarrow> memory_table
     \<Rightarrow> memory_item result \<times> memory_table" where
  "record_working st now txt wid ag imp ttl t =
     mem_add (new_memory st WORKING txt ag wid imp (map_option (\<lambda>s. now + s) ttl)) t"

definition record_episodic ::
  "stamp \<Rightarrow> string \<Rightarrow> string option \<Rightarrow> string option \<Rightarrow> real \<Rightarrow> memory_table \<Rightarrow> memory_item result \<times> memory_table" where
  "record_episodic st txt wid ag imp t = mem_add (new_memory st EPISODIC txt ag wid imp None) t"

definition get_relevant_memories ::
  "(memory_item list \<Rightarrow> memory_item list) \<Rightarrow> string \<Rightarrow> int \<Rightarrow> string \<Rightarrow> memory_kind option \<Rightarrow> real pydict option
     \<Rightarrow> memory_table \<Rightarrow> memory_item list result" where
  "get_relevant_memories arrange wid budget query k weights t =
     retrieve_relevant_memories (mem_list arrange wid k t) budget query weights"

definition get_relevant_context ::
  "(memory_item list \<Rightarrow> memory_item list) \<Rightarrow> stamp list \<Rightarrow> string \<Rightarrow> int \<Rightarrow> string \<Rightarrow> memory_kind option
     \<Rightarrow> real pydict option \<Rightarrow> memory_table \<Rightarrow> context_item list result" where
  "get_relevant_context arrange sts wid budget query k weights t =
     (case get_relevant_memories arrange wid budget query k weights t of
        Inl e \<Rightarrow> Inl e | Inr ms \<Rightarrow> Inr (to_context_items sts ms))"

section \<open>Lemmas\<close>

lemma lexical_relevance_range: "0 \<le> lexical_relevance q c \<and> lexical_relevance q c \<le> 1"
proof -
  have "card (word_set q \<inter> word_set c) \<le> card (word_set q \<union> word_set c)"
    by (rule card_mono) (auto simp: word_set_def)
  then show ?thesis by (auto simp: lexical_relevance_def Let_def divide_le_eq)
qed

lemma map_of_fold_update:
  "map_of (fold (\<lambda>i d. AList.update (key i) (val i) d) xs d) k =
     (if \<exists>i \<in> set xs. key i = k then Some (val (last (filter (\<lambda>i. key i = k) xs))) else map_of d k)"
  by (induction xs arbitrary: d) (auto simp: update_conv filter_empty_conv)

lemma dict_of_Some: "i \<in> set xs \<Longrightarrow> \<exists>j \<in> set xs. key j = key i \<and> map_of (dict_of key val xs) (key i) = Some (val j)"
proof -
  assume i: "i \<in> set xs"
  let ?f = "filter (\<lambda>j. key j = key i) xs"
  have "?f \<noteq> []" using i by (auto simp: filter_empty_conv)
  then have "last ?f \<in> set ?f" by (rule last_in_set)
  with i show ?thesis by (intro bexI [of _ "last ?f"]) (auto simp: dict_of_def map_of_fold_update)
qed

lemma map_of_map_value: "map_of (map (\<lambda>(k, v). (k, f v)) d) k = map_option f (map_of d k)"
  by (induction d) auto

lemma normalize_range:
  assumes "map_of d k = Some v"
  shows "\<exists>r. map_of (normalize d) k = Some r \<and> 0 \<le> r \<and> r \<le> 1"
proof -
  let ?lo = "Min (set (map snd d))" and ?hi = "Max (set (map snd d))"
  have ne: "d \<noteq> []" using assms by auto
  have v: "v \<in> set (map snd d)" using map_of_SomeD [OF assms] by force
  then have b: "?lo \<le> v" "v \<le> ?hi" by simp_all
  define f where "f = (\<lambda>v. if ?hi = ?lo then 1 else (v - ?lo) / (?hi - ?lo))"
  have "normalize d = map (\<lambda>(k, v). (k, f v)) d"
    unfolding normalize_def Let_def f_def using ne by simp
  then have "map_of (normalize d) k = Some (f v)" by (simp only: map_of_map_value assms option.map)
  moreover have "0 \<le> f v \<and> f v \<le> 1"
  proof (cases "?hi = ?lo")
    case False
    then have "?lo < ?hi" using b by simp
    with False b show ?thesis unfolding f_def by (simp add: divide_le_eq)
  qed (simp add: f_def)
  ultimately show ?thesis by blast
qed

lemma zip_map_same: "zip (map f xs) (map g xs) = map (\<lambda>x. (f x, g x)) xs"
  by (induction xs) auto

text \<open>Every item has a score, a weighted mean of four values between 0 and 1.\<close>

lemma memory_score_range:
  assumes "i \<in> set its" "0 \<le> mem_importance i" "mem_importance i \<le> 1"
  shows "\<exists>s. memory_score memory_weights query (normalize (dict_of mem_id mem_last_used_at its))
      (normalize (dict_of mem_id (\<lambda>i. of_nat (mem_access_count i)) its)) i = Inr s \<and> 0 \<le> s \<and> s \<le> 1"
proof -
  obtain r where r: "map_of (normalize (dict_of mem_id mem_last_used_at its)) (mem_id i) = Some r" "0 \<le> r" "r \<le> 1"
    using dict_of_Some [OF assms(1), of mem_id mem_last_used_at] normalize_range by blast
  obtain a where a: "map_of (normalize (dict_of mem_id (\<lambda>i. of_nat (mem_access_count i)) its)) (mem_id i) = Some a"
      "0 \<le> a" "a \<le> 1"
    using dict_of_Some [OF assms(1), of mem_id "\<lambda>i. of_nat (mem_access_count i)"] normalize_range by blast
  show ?thesis
    using r a assms(2,3) lexical_relevance_range [of query "mem_content i"]
    by (simp add: memory_score_def dict_item_def memory_weights_def)
qed

lemma mem_cost_pos: "1 \<le> mem_cost i"
  by (simp add: mem_cost_def)

lemma mem_pack_budget: "0 \<le> r \<Longrightarrow> sum_by mem_cost (mem_pack is r) \<le> r"
  by (induction "is" r rule: mem_pack.induct) auto

lemma mem_pack_subseq: "subseq (mem_pack is r) is"
  by (induction "is" r rule: mem_pack.induct) auto

lemma mem_pack_maximal:
  "i \<in> set is \<Longrightarrow> i \<notin> set (mem_pack is r) \<Longrightarrow> r < sum_by mem_cost (mem_pack is r) + mem_cost i"
proof (induction "is" r rule: mem_pack.induct)
  case (2 j js r)
  have nn: "0 \<le> sum_by mem_cost (mem_pack js x)" for x
    using mem_cost_pos by (intro sum_by_nonneg) (simp add: order_trans [of 0 1])
  show ?case
  proof (cases "mem_cost j \<le> r")
    case True
    with 2 show ?thesis by auto
  next
    case False
    with 2 nn [of r] show ?thesis by (cases "i = j") auto
  qed
qed simp

lemma score_memories_total:
  assumes "\<And>i. i \<in> set its \<Longrightarrow> 0 \<le> mem_importance i \<and> mem_importance i \<le> 1" "weights = None \<or> weights = Some []"
  shows "\<exists>scores. score_memories its query weights = Inr scores
    \<and> (\<forall>i \<in> set its. \<exists>s. map_of scores (mem_id i) = Some s \<and> 0 \<le> s \<and> s \<le> 1)"
proof -
  let ?g = "memory_score memory_weights query (normalize (dict_of mem_id mem_last_used_at its))
      (normalize (dict_of mem_id (\<lambda>i. of_nat (mem_access_count i)) its))"
  have ok: "?g i = Inr (projr (?g i)) \<and> 0 \<le> projr (?g i) \<and> projr (?g i) \<le> 1" if "i \<in> set its" for i
    using memory_score_range [OF that, of query] assms(1) [OF that] by auto
  have t: "traverse ?g its = Inr (map (\<lambda>i. projr (?g i)) its)"
    using ok by (intro traverse_Inr) blast
  let ?z = "zip (map mem_id its) (map (\<lambda>i. projr (?g i)) its)"
  have z: "?z = map (\<lambda>i. (mem_id i, projr (?g i))) its" by (rule zip_map_same)
  have "score_memories its query weights = Inr (dict_of fst snd ?z)"
    using assms(2) by (auto simp: score_memories_def Let_def t simp del: map_map)
  moreover have "\<exists>s. map_of (dict_of fst snd ?z) (mem_id i) = Some s \<and> 0 \<le> s \<and> s \<le> 1" if i: "i \<in> set its" for i
  proof -
    have "(mem_id i, projr (?g i)) \<in> set ?z" using i by (simp add: z)
    from dict_of_Some [OF this, of fst snd] obtain p where
      "p \<in> set ?z" "map_of (dict_of fst snd ?z) (mem_id i) = Some (snd p)" by auto
    then show ?thesis using ok by (auto simp: z)
  qed
  ultimately show ?thesis by blast
qed

lemma sort_by_score_total:
  "(\<And>i. i \<in> set its \<Longrightarrow> map_of scores (mem_id i) \<noteq> None) \<Longrightarrow>
   sort_by_score f its scores = Inr (py_sorted (\<lambda>i. f (the (map_of scores (mem_id i))) i) True its)"
proof -
  assume a: "\<And>i. i \<in> set its \<Longrightarrow> map_of scores (mem_id i) \<noteq> None"
  have "traverse (\<lambda>i. dict_item scores (mem_id i)) its = Inr (map (\<lambda>i. the (map_of scores (mem_id i))) its)"
    by (rule traverse_Inr) (use a in \<open>force simp: dict_item_def split: option.split\<close>)
  then show ?thesis by (simp add: sort_by_score_def)
qed

lemma distinct_map_mset: "mset xs = mset ys \<Longrightarrow> distinct (map f xs) \<longleftrightarrow> distinct (map f ys)"
  by (rule mset_eq_imp_distinct_iff) simp

lemma subseq_keeps_distinct: "subseq xs ys \<Longrightarrow> distinct ys \<Longrightarrow> distinct xs"
  by (induction rule: list_emb.induct) (auto dest: list_emb_set)

lemma list_emb_set_subset: "subseq xs ys \<Longrightarrow> set xs \<subseteq> set ys"
  by (auto dest: list_emb_set)

lemma get_relevant_memories_run:
  "score_memories (mem_list arrange wid k t) query ws = Inr scores \<Longrightarrow>
   sort_by_score density (mem_list arrange wid k t) scores = Inr ord \<Longrightarrow>
   get_relevant_memories arrange wid budget query k ws t = Inr (mem_pack ord budget)"
  by (cases "mem_list arrange wid k t")
    (auto simp: get_relevant_memories_def retrieve_relevant_memories_def select_within_budget_def
      sort_by_score_def py_sorted_def)

section \<open>The store as its clients see it\<close>

text \<open>What fits the 32 bits of the column that counts the uses.\<close>

definition count_fits :: "memory_item \<Rightarrow> bool" where
  "count_fits i \<longleftrightarrow> mem_access_count i + 1 < 2 ^ 31"

datatype memory_op = Record memory_item | Forget string | Purge real

definition keeps :: "memory_item \<Rightarrow> memory_op \<Rightarrow> bool" where
  "keeps i opn = (case opn of Record _ \<Rightarrow> True | Forget j \<Rightarrow> j \<noteq> mem_id i | Purge v \<Rightarrow> \<not> expired v i)"

definition recordable :: "memory_op \<Rightarrow> bool" where
  "recordable opn = (case opn of Record i \<Rightarrow> count_fits i | _ \<Rightarrow> True)"

fun memory_apply ::
  "(memory_item \<Rightarrow> 's \<Rightarrow> memory_item result \<times> 's) \<Rightarrow> (string \<Rightarrow> 's \<Rightarrow> 's) \<Rightarrow> (real \<Rightarrow> 's \<Rightarrow> 's) \<Rightarrow> memory_op \<Rightarrow> 's \<Rightarrow> 's" where
  "memory_apply add remove purge (Record i) s = snd (add i s)"
| "memory_apply add remove purge (Forget j) s = remove j s"
| "memory_apply add remove purge (Purge v) s = purge v s"

text \<open>
  The contract: a view of the stored items, and what adding, deleting and purging do to it. The
  clients of the store are the histories of such calls.
\<close>

locale memory_backend =
  fixes stored :: "'s \<Rightarrow> memory_item list"
    and good :: "'s \<Rightarrow> bool"
    and add :: "memory_item \<Rightarrow> 's \<Rightarrow> memory_item result \<times> 's"
    and remove :: "string \<Rightarrow> 's \<Rightarrow> 's"
    and purge :: "real \<Rightarrow> 's \<Rightarrow> 's"
  assumes add_fresh: "good s \<Longrightarrow> count_fits i \<Longrightarrow> mem_id i \<notin> mem_id ` set (stored s) \<Longrightarrow>
      fst (add i s) = Inr i \<and> stored (snd (add i s)) = stored s @ [i] \<and> good (snd (add i s))"
    and add_taken: "good s \<Longrightarrow> count_fits i \<Longrightarrow> mem_id i \<in> mem_id ` set (stored s) \<Longrightarrow> isl (fst (add i s)) \<and> snd (add i s) = s"
    and removed: "good s \<Longrightarrow> stored (remove j s) = filter (\<lambda>i. mem_id i \<noteq> j) (stored s) \<and> good (remove j s)"
    and purged: "good s \<Longrightarrow> stored (purge v s) = filter (\<lambda>i. \<not> expired v i) (stored s) \<and> good (purge v s)"
begin

abbreviation run_op :: "memory_op \<Rightarrow> 's \<Rightarrow> 's" where
  "run_op \<equiv> memory_apply add remove purge"

lemma run_op_good: "good s \<Longrightarrow> recordable opn \<Longrightarrow> good (run_op opn s)"
  using add_fresh add_taken removed purged
  by (cases opn; cases "mem_id (case opn of Record i \<Rightarrow> i) \<in> mem_id ` set (stored s)") (auto simp: recordable_def)

lemma run_op_stored:
  assumes "good s" "recordable opn"
  shows "i \<in> set (stored (run_op opn s)) \<longleftrightarrow> i \<in> set (stored s) \<and> keeps i opn
    \<or> opn = Record i \<and> mem_id i \<notin> mem_id ` set (stored s)"
proof (cases opn)
  case (Record r)
  then have "count_fits r" using assms(2) by (simp add: recordable_def)
  then show ?thesis
    using add_fresh [OF assms(1), of r] add_taken [OF assms(1), of r] by (cases "mem_id r \<in> mem_id ` set (stored s)") (auto simp: Record keeps_def)
qed (use removed purged assms in \<open>auto simp: keeps_def\<close>)

lemma run_good: "good s \<Longrightarrow> list_all recordable ops \<Longrightarrow> good (fold run_op ops s)"
  by (induction ops arbitrary: s) (auto intro: run_op_good)

lemma memory_stays:
  "good s \<Longrightarrow> list_all recordable ops \<Longrightarrow> i \<in> set (stored s) \<Longrightarrow> list_all (keeps i) ops \<Longrightarrow>
   i \<in> set (stored (fold run_op ops s))"
proof (induction ops arbitrary: s)
  case (Cons opn ops)
  then show ?case using run_op_good [of s opn] run_op_stored [of s opn i] by simp
qed simp

lemma memory_absent:
  "good s \<Longrightarrow> list_all recordable ops \<Longrightarrow> i \<notin> set (stored s) \<Longrightarrow> Record i \<notin> set ops \<Longrightarrow>
   i \<notin> set (stored (fold run_op ops s))"
proof (induction ops arbitrary: s)
  case (Cons opn ops)
  then have "i \<notin> set (stored (run_op opn s))" using run_op_stored [of s opn i] by auto
  with Cons show ?case using run_op_good [of s opn] by simp
qed simp

lemma memory_lost:
  assumes "good s" "list_all recordable (us @ opn # vs)" "\<not> keeps i opn" "Record i \<notin> set vs"
  shows "i \<notin> set (stored (fold run_op (us @ opn # vs) s))"
proof -
  have g: "good (fold run_op us s)" using run_good assms(1,2) by simp
  have "opn \<noteq> Record i" using assms(3) by (auto simp: keeps_def)
  then have "i \<notin> set (stored (run_op opn (fold run_op us s)))" using run_op_stored [OF g, of opn i] assms(2,3) by simp
  then show ?thesis using memory_absent [OF run_op_good [OF g]] assms(2,4) by simp
qed

end

text \<open>The table of items keeps the contract.\<close>

interpretation table: memory_backend "\<lambda>t. t" "\<lambda>t. True" mem_add "\<lambda>j t. snd (mem_delete j t)" "\<lambda>v t. snd (mem_purge_expired v t)"
  by unfold_locales (auto simp: mem_add_def mem_delete_def mem_purge_expired_def list_ex_iff image_iff)

section \<open>Properties\<close>

text \<open>
  C25. Retrieval always answers and respects the budget: whatever the query, the selected memories are
  among the workflow's, none twice, together they cost at most the budget, and a memory that was
  left out would not have fit beside them.
\<close>

theorem retrieval_respects_budget:
  assumes "\<And>xs. mset (arrange xs) = mset xs" and "0 \<le> budget" and "distinct (map mem_id t)"
    and "\<And>r. r \<in> set t \<Longrightarrow> 0 \<le> mem_importance r \<and> mem_importance r \<le> 1"
  shows "\<exists>ms. get_relevant_memories arrange wid budget query k None t = Inr ms
    \<and> set ms \<subseteq> {r \<in> set t. mem_workflow_id r = Some wid \<and> (k = None \<or> k = Some (mem_kind r))}
    \<and> distinct (map mem_id ms) \<and> sum_by mem_cost ms \<le> budget
    \<and> (\<forall>r \<in> set t. mem_workflow_id r = Some wid \<and> (k = None \<or> k = Some (mem_kind r)) \<and> r \<notin> set ms
         \<longrightarrow> budget < sum_by mem_cost ms + mem_cost r)"
proof -
  let ?P = "\<lambda>r. mem_workflow_id r = Some wid \<and> (k = None \<or> k = Some (mem_kind r))"
  let ?c = "mem_list arrange wid k t"
  have c: "mset ?c = mset (filter ?P t)" by (simp add: mem_list_def assms(1))
  have sc: "set ?c = {r \<in> set t. ?P r}" using mset_eq_setD [OF c] by simp
  have "distinct (map mem_id (filter ?P t))" using assms(3) by (rule distinct_map_filter)
  then have dc: "distinct (map mem_id ?c)" by (rule distinct_map_mset [OF c, THEN iffD2])
  have imp: "0 \<le> mem_importance i \<and> mem_importance i \<le> 1" if "i \<in> set ?c" for i
    using that assms(4) unfolding sc by simp
  obtain scores where s: "score_memories ?c query None = Inr scores"
      "\<forall>i \<in> set ?c. \<exists>x. map_of scores (mem_id i) = Some x \<and> 0 \<le> x \<and> x \<le> 1"
    using score_memories_total [OF imp, where weights = None and query = query] by blast
  let ?ord = "py_sorted (\<lambda>i. density (the (map_of scores (mem_id i))) i) True ?c"
  have "map_of scores (mem_id i) \<noteq> None" if "i \<in> set ?c" for i using bspec [OF s(2) that] by force
  then have "sort_by_score density ?c scores = Inr ?ord" by (rule sort_by_score_total)
  then have run: "get_relevant_memories arrange wid budget query k None t = Inr (mem_pack ?ord budget)"
    by (rule get_relevant_memories_run [OF s(1)])
  have mo: "mset ?ord = mset ?c" by (rule mset_py_sorted)
  have "subseq (map mem_id (mem_pack ?ord budget)) (map mem_id ?ord)"
    by (rule subseq_map) (rule mem_pack_subseq)
  then have d: "distinct (map mem_id (mem_pack ?ord budget))"
    by (rule subseq_keeps_distinct) (rule distinct_map_mset [OF mo, THEN iffD2, OF dc])
  have so: "set ?ord = set ?c" using mset_eq_setD [OF mo] .
  have sub: "set (mem_pack ?ord budget) \<subseteq> {r \<in> set t. ?P r}"
    using list_emb_set_subset [OF mem_pack_subseq [of ?ord budget]] unfolding so sc .
  have max: "\<forall>r \<in> set t. ?P r \<and> r \<notin> set (mem_pack ?ord budget)
      \<longrightarrow> budget < sum_by mem_cost (mem_pack ?ord budget) + mem_cost r"
  proof (intro ballI impI)
    fix r assume "r \<in> set t" "?P r \<and> r \<notin> set (mem_pack ?ord budget)"
    then have "r \<in> set ?ord" "r \<notin> set (mem_pack ?ord budget)" unfolding so sc by simp_all
    then show "budget < sum_by mem_cost (mem_pack ?ord budget) + mem_cost r" by (rule mem_pack_maximal)
  qed
  show ?thesis
    by (rule exI [of _ "mem_pack ?ord budget"])
      (use run sub d mem_pack_budget [OF assms(2), of ?ord] max in \<open>simp only: simp_thms conj_assoc\<close>)
qed

definition demo_memory :: "string \<Rightarrow> string \<Rightarrow> real option \<Rightarrow> memory_item" where
  "demo_memory i txt ex = new_memory \<lparr>fresh_id = i, clock1 = 1, clock2 = 1\<rparr> WORKING txt None (Some ''wf'') (1 / 2) ex"

theorem retrieval_respects_budget_witness:
  "\<exists>ms. get_relevant_memories (\<lambda>xs. xs) ''wf'' 3 ''cache bug'' None None
      [demo_memory ''a'' ''a bug in the cache'' None, demo_memory ''b'' ''unrelated'' None] = Inr ms
    \<and> sum_by mem_cost ms \<le> 3"
  using retrieval_respects_budget [of "\<lambda>xs. xs" 3 "[demo_memory ''a'' ''a bug in the cache'' None,
      demo_memory ''b'' ''unrelated'' None]" "''wf''" "''cache bug''" None]
  by (fastforce simp: demo_memory_def new_memory_def)

text \<open>
  Relevance is a proper similarity: it lies between 0 and 1, ignores case, does not depend on
  which of two texts is the query, is 1 for a text with words against itself and 0 exactly when no
  word is shared.
\<close>

theorem lexical_relevance_similarity:
  assumes "q \<noteq> []" and "c \<noteq> []"
  shows "0 \<le> lexical_relevance q c \<and> lexical_relevance q c \<le> 1
    \<and> lexical_relevance q c = lexical_relevance c q
    \<and> (word_set q \<noteq> {} \<longrightarrow> lexical_relevance q q = 1)
    \<and> (lexical_relevance q c = 0 \<longleftrightarrow> word_set q \<inter> word_set c = {})"
proof -
  have fin: "finite (word_set x)" for x by (simp add: word_set_def)
  then have "card (word_set q \<union> word_set c) = 0 \<longleftrightarrow> word_set q = {} \<and> word_set c = {}" by simp
  moreover have "card (word_set q \<inter> word_set c) = 0 \<longleftrightarrow> word_set q \<inter> word_set c = {}" using fin by simp
  ultimately show ?thesis
    using assms lexical_relevance_range [of q c] fin
    by (auto simp: lexical_relevance_def Let_def Int_commute Un_commute)
qed

theorem lexical_relevance_similarity_witness:
  "lexical_relevance ''Cache bug'' ''cache BUG'' = lexical_relevance ''cache BUG'' ''Cache bug''"
  using lexical_relevance_similarity [of "''Cache bug''" "''cache BUG''"] by simp

text \<open>
  The life of a memory: recording adds one row at the end and changes no other; the new memory is
  listed for its workflow at any later time, expired or not, until a purge runs; a purge at time
  \<open>v\<close> removes it exactly when it was given a time to live and that time is over, an episodic memory is
  never removed, and the purge reports how many rows went and is idempotent.
\<close>

theorem memory_lifetime:
  assumes "\<And>xs. set (arrange xs) = set xs" and "record_working st now txt (Some wid) ag imp ttl t = (Inr r, u)"
    and "record_episodic st' txt' (Some wid) ag imp u = (Inr e, w)" and "mem_purge_expired v w = (n, x)"
  shows "w = t @ [r, e] \<and> r \<in> set (mem_list arrange wid (Some WORKING) w)
    \<and> e \<in> set (mem_list arrange wid (Some EPISODIC) w)
    \<and> (r \<in> set x \<longleftrightarrow> (case ttl of None \<Rightarrow> True | Some s \<Rightarrow> v < now + s)) \<and> e \<in> set x
    \<and> n + length x = length t + 2 \<and> mem_purge_expired v x = (0, x)"
proof -
  have r: "r = new_memory st WORKING txt ag (Some wid) imp (map_option (\<lambda>s. now + s) ttl)" and u: "u = t @ [r]"
    using assms(2) by (auto simp: record_working_def mem_add_def split: if_splits)
  have e: "e = new_memory st' EPISODIC txt' ag (Some wid) imp None" and w: "w = u @ [e]"
    using assms(3) by (auto simp: record_episodic_def mem_add_def split: if_splits)
  have x: "x = filter (\<lambda>r. \<not> expired v r) w" and n: "n = length (filter (expired v) w)"
    using assms(4) by (simp_all add: mem_purge_expired_def)
  have len: "n + length x = length t + 2"
    using sum_length_filter_compl [of "expired v" w] x n w u by simp
  have "r \<in> set x \<longleftrightarrow> \<not> expired v r" "e \<in> set x \<longleftrightarrow> \<not> expired v e" using x w u by auto
  moreover have "\<not> expired v r \<longleftrightarrow> (case ttl of None \<Rightarrow> True | Some s \<Rightarrow> v < now + s)"
    by (cases ttl) (auto simp: r expired_def new_memory_def)
  moreover have "\<not> expired v e" by (simp add: e expired_def new_memory_def)
  moreover have "mem_purge_expired v x = (0, x)"
    by (simp add: x mem_purge_expired_def filter_empty_conv)
  moreover have "r \<in> set (mem_list arrange wid (Some WORKING) w)" "e \<in> set (mem_list arrange wid (Some EPISODIC) w)"
    by (simp_all add: mem_list_def assms(1) w u) (simp_all add: r e new_memory_def)
  ultimately show ?thesis using w u len by simp
qed

theorem memory_lifetime_witness:
  "\<exists>r e w. record_working \<lparr>fresh_id = ''a'', clock1 = 1, clock2 = 1\<rparr> 1 ''x'' (Some ''wf'') None (1 / 2) (Some 4) []
      = (Inr r, [r]) \<and> e \<in> set (snd (mem_purge_expired 9 [r, e])) \<and> r \<notin> set (snd (mem_purge_expired 9 [r, e]))
      \<and> r \<in> set (mem_list (\<lambda>xs. xs) ''wf'' (Some WORKING) [r, e])"
proof -
  let ?r = "new_memory \<lparr>fresh_id = ''a'', clock1 = 1, clock2 = 1\<rparr> WORKING ''x'' None (Some ''wf'') (1 / 2) (Some 5)"
  let ?e = "new_memory \<lparr>fresh_id = ''b'', clock1 = 1, clock2 = 1\<rparr> EPISODIC ''y'' None (Some ''wf'') (1 / 2) None"
  have rec: "record_working \<lparr>fresh_id = ''a'', clock1 = 1, clock2 = 1\<rparr> 1 ''x'' (Some ''wf'') None (1 / 2) (Some 4) []
      = (Inr ?r, [?r])"
    by (simp add: record_working_def mem_add_def)
  have epi: "record_episodic \<lparr>fresh_id = ''b'', clock1 = 1, clock2 = 1\<rparr> ''y'' (Some ''wf'') None (1 / 2) [?r]
      = (Inr ?e, [?r, ?e])"
    by (simp add: record_episodic_def mem_add_def new_memory_def)
  show ?thesis
    using memory_lifetime [OF refl rec epi surjective_pairing, of 9] rec
    by (intro exI [of _ ?r] exI [of _ ?e]) simp
qed

end
