(* ===== verification/MemoryRows.thy ===== *)
theory MemoryRows
  imports Memory Settings
begin

text \<open>
  \<^verbatim>\<open>memory/store.py\<close> at the level of its SQL: rows as PostgreSQL holds them, the statements the methods
  send, the status tags they read back, the schema, and \<open>_row_to_item\<close>. \<open>Memory\<close> states what the
  methods promise of a table of items; the refinement is proved here. \<open>INTEGER\<close> has 32 bits, and PostgreSQL
  raises where a count would leave them.
\<close>

section \<open>Rows\<close>

record memory_row =
  row_id :: string
  row_kind :: string
  row_content :: string
  row_agent_id :: "string option"
  row_workflow_id :: "string option"
  row_importance :: real
  row_created_at :: real
  row_last_used_at :: real
  row_access_count :: nat
  row_expires_at :: "real option"

text \<open>\<open>None\<close>: the table does not exist.\<close>

type_synonym memory_db = "memory_row list option"

definition row_args :: "memory_item \<Rightarrow> memory_row" where
  "row_args i =
     \<lparr>row_id = mem_id i, row_kind = kind_value (mem_kind i), row_content = mem_content i, row_agent_id = mem_agent_id i,
      row_workflow_id = mem_workflow_id i, row_importance = mem_importance i, row_created_at = mem_created_at i,
      row_last_used_at = mem_last_used_at i, row_access_count = mem_access_count i, row_expires_at = mem_expires_at i\<rparr>"

text \<open>\<open>MemoryKind(text)\<close>\<close>

definition kind_of :: "string \<Rightarrow> memory_kind result" where
  "kind_of s =
     (if s = ''working'' then Inr WORKING
      else if s = ''episodic'' then Inr EPISODIC
      else Inl (ValueError (py_repr s @ '' is not a valid MemoryKind'')))"

definition row_to_item :: "memory_row \<Rightarrow> memory_item result" where
  "row_to_item r =
     (case kind_of (row_kind r) of
        Inl e \<Rightarrow> Inl e
      | Inr k \<Rightarrow> Inr \<lparr>mem_kind = k, mem_content = row_content r, mem_agent_id = row_agent_id r,
          mem_workflow_id = row_workflow_id r, mem_importance = row_importance r, mem_id = row_id r,
          mem_created_at = row_created_at r, mem_last_used_at = row_last_used_at r,
          mem_access_count = row_access_count r, mem_expires_at = row_expires_at r\<rparr>)"

section \<open>Statements\<close>

definition no_table :: py_exc where
  "no_table = ServiceError ''relation memories does not exist''"

definition sql_select :: "(memory_row \<Rightarrow> bool) \<Rightarrow> memory_db \<Rightarrow> memory_row list result" where
  "sql_select P db = (case db of None \<Rightarrow> Inl no_table | Some rows \<Rightarrow> Inr (filter P rows))"

definition sql_insert :: "memory_row \<Rightarrow> memory_db \<Rightarrow> unit result \<times> memory_db" where
  "sql_insert r db =
     (case db of
        None \<Rightarrow> (Inl no_table, db)
      | Some rows \<Rightarrow>
          if 2 ^ 31 \<le> row_access_count r then (Inl (ServiceError ''value out of int32 range''), db)
          else if list_ex (\<lambda>q. row_id q = row_id r) rows
          then (Inl (ServiceError ''duplicate key value violates unique constraint''), db)
          else (Inr (), Some (rows @ [r])))"

text \<open>\<open>DELETE\<close> answers with its tag.\<close>

definition sql_delete :: "(memory_row \<Rightarrow> bool) \<Rightarrow> memory_db \<Rightarrow> string result \<times> memory_db" where
  "sql_delete P db =
     (case db of
        None \<Rightarrow> (Inl no_table, db)
      | Some rows \<Rightarrow> (Inr (''DELETE '' @ show_nat (length (filter P rows))), Some (filter (\<lambda>r. \<not> P r) rows)))"

text \<open>\<open>UPDATE ... SET last_used_at = now, access_count = access_count + 1 WHERE id = i\<close>\<close>

definition sql_mark_used :: "real \<Rightarrow> string \<Rightarrow> memory_db \<Rightarrow> unit result \<times> memory_db" where
  "sql_mark_used now i db =
     (case db of
        None \<Rightarrow> (Inl no_table, db)
      | Some rows \<Rightarrow>
          if list_ex (\<lambda>r. row_id r = i \<and> 2 ^ 31 \<le> row_access_count r + 1) rows
          then (Inl (ServiceError ''integer out of range''), db)
          else (Inr (), Some (map (\<lambda>r. if row_id r = i
                  then r\<lparr>row_last_used_at := now, row_access_count := row_access_count r + 1\<rparr> else r) rows)))"

section \<open>The store\<close>

definition ensure_schema :: "memory_db \<Rightarrow> memory_db" where
  "ensure_schema db = (case db of None \<Rightarrow> Some [] | Some rows \<Rightarrow> Some rows)"

definition store_add_memory :: "memory_item \<Rightarrow> memory_db \<Rightarrow> memory_item result \<times> memory_db" where
  "store_add_memory i db = (case sql_insert (row_args i) db of (r, db') \<Rightarrow> (map_sum id (\<lambda>_. i) r, db'))"

text \<open>The row is counted as used before it is converted.\<close>

definition store_get_memory :: "real \<Rightarrow> string \<Rightarrow> memory_db \<Rightarrow> memory_item option result \<times> memory_db" where
  "store_get_memory now i db =
     (case sql_select (\<lambda>r. row_id r = i) db of
        Inl e \<Rightarrow> (Inl e, db)
      | Inr [] \<Rightarrow> (Inr None, db)
      | Inr (r # rs) \<Rightarrow>
          (case sql_mark_used now i db of
             (Inl e, db') \<Rightarrow> (Inl e, db')
           | (Inr _, db') \<Rightarrow>
               (case row_to_item r of
                  Inl e \<Rightarrow> (Inl e, db')
                | Inr m \<Rightarrow> (Inr (Some (m\<lparr>mem_last_used_at := now, mem_access_count := mem_access_count m + 1\<rparr>)), db'))))"

definition store_list_memories ::
  "(memory_row list \<Rightarrow> memory_row list) \<Rightarrow> string \<Rightarrow> memory_kind option \<Rightarrow> memory_db \<Rightarrow> memory_item list result" where
  "store_list_memories arrange wid k db =
     (case sql_select (\<lambda>r. row_workflow_id r = Some wid
             \<and> (case k of None \<Rightarrow> True | Some k \<Rightarrow> row_kind r = kind_value k)) db of
        Inl e \<Rightarrow> Inl e
      | Inr rows \<Rightarrow> traverse row_to_item (arrange rows))"

definition store_delete_memory :: "string \<Rightarrow> memory_db \<Rightarrow> bool result \<times> memory_db" where
  "store_delete_memory i db =
     (case sql_delete (\<lambda>r. row_id r = i) db of (r, db') \<Rightarrow> (map_sum id (\<lambda>tag. tag = ''DELETE 1'') r, db'))"

definition store_purge_expired :: "real \<Rightarrow> memory_db \<Rightarrow> int result \<times> memory_db" where
  "store_purge_expired now db =
     (case sql_delete (\<lambda>r. case row_expires_at r of None \<Rightarrow> False | Some e \<Rightarrow> e \<le> now) db of
        (Inl e, db') \<Rightarrow> (Inl e, db')
      | (Inr tag, db') \<Rightarrow> (py_int (last (str_split (CHR '' '') tag)), db'))"

section \<open>Lemmas\<close>

lemma kind_of_value: "kind_of (kind_value k) = Inr k"
  by (cases k) (simp_all add: kind_of_def)

lemma kind_value_inj: "kind_value k = kind_value l \<longleftrightarrow> k = l"
  by (metis kind_of_value sum.inject(2))

text \<open>Every item survives the table.\<close>

lemma row_to_item_args: "row_to_item (row_args i) = Inr i"
  by (simp add: row_to_item_def row_args_def kind_of_value)

lemma row_args_sel [simp]: "row_id (row_args i) = mem_id i" "row_kind (row_args i) = kind_value (mem_kind i)"
  "row_workflow_id (row_args i) = mem_workflow_id i" "row_access_count (row_args i) = mem_access_count i"
  "row_expires_at (row_args i) = mem_expires_at i"
  by (simp_all add: row_args_def)

lemma row_args_used:
  "(row_args i)\<lparr>row_last_used_at := now, row_access_count := mem_access_count i + 1\<rparr> = row_args (mark_used now i)"
  by (simp add: row_args_def mark_used_def)

lemma traverse_row_args: "traverse row_to_item (map row_args is) = Inr is"
  by (induction "is") (simp_all add: row_to_item_args)

lemma split_tag: "c \<notin> set f \<Longrightarrow> c \<notin> set w \<Longrightarrow> str_split c (w @ c # f) = [w, f]"
proof (induction w)
  case Nil
  have "str_split c f = [f]" using Nil.prems(1) by (induction f) auto
  then show ?case by simp
qed (auto split: list.splits)

lemma tag_value: "py_int (last (str_split (CHR '' '') (''DELETE '' @ show_nat n))) = Inr (int n)"
proof -
  have "CHR '' '' \<notin> set (show_nat n)" using show_nat_is_digit [of n] by (auto simp: list_all_iff is_digit_def)
  then have "str_split (CHR '' '') (''DELETE'' @ CHR '' '' # show_nat n) = [''DELETE'', show_nat n]"
    by (intro split_tag) simp_all
  moreover have "py_int (show_nat n) = Inr (int n)" using py_int_show [of "int n"] by (simp add: show_int_def)
  ultimately show ?thesis by simp
qed

lemma tag_one: "''DELETE '' @ show_nat n = ''DELETE 1'' \<longleftrightarrow> n = 1"
proof
  assume "''DELETE '' @ show_nat n = ''DELETE 1''"
  then have "show_nat n = ''1''" by simp
  then have "digits_val (show_nat n) = digits_val ''1''" by (rule arg_cong)
  moreover have "digits_val ''1'' = 1" by (simp add: digits_val_def)
  ultimately show "n = 1" by (simp only: digits_val_show_nat)
next
  assume "n = 1"
  then show "''DELETE '' @ show_nat n = ''DELETE 1''" by (simp only:, code_simp)
qed

lemma filter_row_args: "filter P (map row_args t) = map row_args (filter (\<lambda>i. P (row_args i)) t)"
  by (simp add: filter_map comp_def)

lemma delete_rows:
  "sql_delete P (Some (map row_args t)) =
     (Inr (''DELETE '' @ show_nat (length (filter (\<lambda>i. P (row_args i)) t))), Some (map row_args (filter (\<lambda>i. \<not> P (row_args i)) t)))"
  by (simp add: sql_delete_def filter_row_args)

lemma find_filter: "find P xs = (case filter P xs of [] \<Rightarrow> None | x # _ \<Rightarrow> Some x)"
  by (induction xs) auto

lemma get_rows:
  assumes "\<forall>i \<in> set t. mem_access_count i + 1 < 2 ^ 31"
  shows "store_get_memory now j (Some (map row_args t)) =
    (case mem_get now j t of (m, t') \<Rightarrow> (Inr m, Some (map row_args t')))"
proof (cases "filter (\<lambda>i. mem_id i = j) t")
  case Nil
  then show ?thesis by (simp add: store_get_memory_def sql_select_def filter_row_args mem_get_def find_filter)
next
  case (Cons i rest)
  have "sql_mark_used now j (Some (map row_args t)) =
      (Inr (), Some (map row_args (map (\<lambda>r. if mem_id r = j then mark_used now r else r) t)))"
    using assms row_args_used by (auto simp: sql_mark_used_def list_ex_iff not_le)
  with Cons show ?thesis
    by (simp add: store_get_memory_def sql_select_def filter_row_args mem_get_def find_filter row_to_item_args mark_used_def)
qed

text \<open>The SQL keeps the contract of the store as well.\<close>

definition good_rows :: "memory_db \<Rightarrow> bool" where
  "good_rows db \<longleftrightarrow> (\<exists>t. db = Some (map row_args t) \<and> list_all count_fits t)"

definition row_items :: "memory_db \<Rightarrow> memory_item list" where
  "row_items db = (case db of None \<Rightarrow> [] | Some rows \<Rightarrow> map (\<lambda>r. projr (row_to_item r)) rows)"

lemma row_items_args [simp]: "row_items (Some (map row_args t)) = t"
  by (simp add: row_items_def row_to_item_args comp_def)

lemma good_rowsI: "list_all count_fits t \<Longrightarrow> good_rows (Some (map row_args t))"
  by (auto simp: good_rows_def)

lemma good_rows_filter: "list_all count_fits t \<Longrightarrow> good_rows (Some (map row_args (filter P t)))"
  by (rule good_rowsI) (auto simp: list_all_iff)

lemma add_rows:
  assumes "count_fits i"
  shows "store_add_memory i (Some (map row_args t)) =
     (if mem_id i \<in> mem_id ` set t then (Inl (ServiceError ''duplicate key value violates unique constraint''), Some (map row_args t))
      else (Inr i, Some (map row_args (t @ [i]))))"
proof -
  have "(\<exists>q \<in> set t. mem_id q = mem_id i) \<longleftrightarrow> mem_id i \<in> mem_id ` set t" by (metis imageE imageI)
  then show ?thesis using assms
    by (simp add: store_add_memory_def sql_insert_def list_ex_iff count_fits_def)
qed

interpretation rows: memory_backend row_items good_rows store_add_memory
  "\<lambda>j db. snd (store_delete_memory j db)" "\<lambda>v db. snd (store_purge_expired v db)"
proof (unfold_locales, goal_cases)
  case (1 db i)
  then obtain t where t: "db = Some (map row_args t)" "list_all count_fits t" by (auto simp: good_rows_def)
  have "good_rows (Some (map row_args (t @ [i])))" using t(2) 1(2) by (intro good_rowsI) simp
  moreover have "row_items (Some (map row_args (t @ [i]))) = t @ [i]" by (rule row_items_args)
  ultimately show ?case using 1 by (simp only: t(1) add_rows row_items_args if_False prod.sel simp_thms)
next
  case (2 db i)
  then obtain t where "db = Some (map row_args t)" by (auto simp: good_rows_def)
  with 2 show ?case by (simp add: add_rows)
next
  case (3 db j)
  then obtain t where "db = Some (map row_args t)" "list_all count_fits t" by (auto simp: good_rows_def)
  then show ?case using good_rows_filter by (simp add: store_delete_memory_def delete_rows)
next
  case (4 db v)
  then obtain t where "db = Some (map row_args t)" "list_all count_fits t" by (auto simp: good_rows_def)
  then show ?case using good_rows_filter by (simp add: store_purge_expired_def delete_rows expired_def)
qed

section \<open>Properties\<close>

text \<open>
  C24. The SQL of the store implements the table of items. On rows written by the store whose counts fit
  the column, every method returns what the table promises and leaves the rows of the new table:
  adding (a second row with an id is refused), reading with its count of uses, listing, deleting and
  purging, whose answers are read from the status tags. Making sure of the schema keeps the rows, and
  makes an empty table where there was none.
\<close>

theorem memory_rows_refine:
  assumes "db = Some (map row_args t)" and "\<forall>i \<in> set t. mem_access_count i + 1 < 2 ^ 31"
    and "mem_access_count new < 2 ^ 31" and "\<forall>xs. arr (map row_args xs) = map row_args (arrange xs)"
  shows "ensure_schema db = db \<and> ensure_schema None = Some (map row_args [])
    \<and> store_add_memory new db = (case mem_add new t of (r, t') \<Rightarrow> (r, Some (map row_args t')))
    \<and> store_get_memory now j db = (case mem_get now j t of (m, t') \<Rightarrow> (Inr m, Some (map row_args t')))
    \<and> store_list_memories arr wid k db = Inr (mem_list arrange wid k t)
    \<and> store_delete_memory j db = (case mem_delete j t of (b, t') \<Rightarrow> (Inr b, Some (map row_args t')))
    \<and> store_purge_expired now db = (case mem_purge_expired now t of (n, t') \<Rightarrow> (Inr (int n), Some (map row_args t')))"
proof (intro conjI)
  show "store_get_memory now j db = (case mem_get now j t of (m, t') \<Rightarrow> (Inr m, Some (map row_args t')))"
    unfolding assms(1) by (rule get_rows [OF assms(2)])
  show "store_add_memory new db = (case mem_add new t of (r, t') \<Rightarrow> (r, Some (map row_args t')))"
    using assms(3) by (auto simp: assms(1) store_add_memory_def sql_insert_def mem_add_def list_ex_iff)
  have "(\<lambda>i. mem_workflow_id i = Some wid \<and> (case k of None \<Rightarrow> True | Some k \<Rightarrow> row_kind (row_args i) = kind_value k)) =
      (\<lambda>i. mem_workflow_id i = Some wid \<and> (k = None \<or> k = Some (mem_kind i)))"
    by (auto simp: fun_eq_iff kind_value_inj split: option.splits)
  then show "store_list_memories arr wid k db = Inr (mem_list arrange wid k t)"
    using assms(4)
    by (simp add: assms(1) store_list_memories_def sql_select_def filter_row_args mem_list_def traverse_row_args)
  show "store_delete_memory j db = (case mem_delete j t of (b, t') \<Rightarrow> (Inr b, Some (map row_args t')))"
    unfolding assms(1) store_delete_memory_def delete_rows mem_delete_def
    by (simp only: prod.case map_sum.simps row_args_sel tag_one)
  have e: "(case mem_expires_at i of None \<Rightarrow> False | Some e \<Rightarrow> e \<le> now) = expired now i" for i
    by (simp add: expired_def)
  show "store_purge_expired now db = (case mem_purge_expired now t of (n, t') \<Rightarrow> (Inr (int n), Some (map row_args t')))"
    unfolding assms(1) store_purge_expired_def delete_rows mem_purge_expired_def
    by (simp only: prod.case sum.case row_args_sel e tag_value)
qed (simp_all add: assms(1) ensure_schema_def)

definition demo_memory :: memory_item where
  "demo_memory = \<lparr>mem_kind = EPISODIC, mem_content = ''x'', mem_agent_id = None, mem_workflow_id = Some ''w'',
     mem_importance = 1 / 2, mem_id = ''1'', mem_created_at = 0, mem_last_used_at = 0, mem_access_count = 0, mem_expires_at = None\<rparr>"

theorem memory_rows_refine_witness:
  "store_get_memory 5 ''1'' (Some [row_args demo_memory]) =
     (Inr (Some (mark_used 5 demo_memory)), Some [row_args (mark_used 5 demo_memory)])
   \<and> store_delete_memory ''1'' (Some [row_args demo_memory]) = (Inr True, Some [])"
  using memory_rows_refine [of "Some [row_args demo_memory]" "[demo_memory]" demo_memory "\<lambda>xs. xs" "\<lambda>xs. xs" 5 "''1''"]
  by (simp add: mem_get_def mem_delete_def demo_memory_def)

text \<open>
  A row whose kind the program does not know makes every listing of its workflow raise, and a
  read of it raises after it was counted as used.
\<close>

lemma unknown_kind:
  assumes "db = Some rows" and "rw \<in> set rows" and "isl (kind_of (row_kind rw))" and "row_workflow_id rw = Some wid"
    and "\<forall>xs. set (arr xs) = set xs"
  shows "isl (store_list_memories arr wid None db)"
proof -
  have l: "isl (traverse f xs)" if "x \<in> set xs" "isl (f x)" for f :: "memory_row \<Rightarrow> memory_item result" and x xs
    using that by (induction xs) (auto split: sum.splits)
  have "rw \<in> set (arr (filter (\<lambda>q. row_workflow_id q = Some wid) rows))" using assms(2,4,5) by simp
  moreover have "isl (row_to_item rw)" using assms(3) by (auto simp: row_to_item_def split: sum.splits)
  ultimately show ?thesis using l by (simp add: assms(1) store_list_memories_def sql_select_def)
qed

text \<open>What a listing of good rows returns.\<close>

lemma list_rows:
  assumes "good_rows db" "\<forall>xs. set (arr xs) = set xs"
  shows "\<exists>ms. store_list_memories arr wid None db = Inr ms \<and> set ms = {i \<in> set (row_items db). mem_workflow_id i = Some wid}"
proof -
  obtain t where t: "db = Some (map row_args t)" using assms(1) by (auto simp: good_rows_def)
  let ?xs = "filter (\<lambda>i. mem_workflow_id i = Some wid) t"
  define ys where "ys = map (\<lambda>r. projr (row_to_item r)) (arr (map row_args ?xs))"
  have rows: "set (arr (map row_args ?xs)) = row_args ` set ?xs" using assms(2) by simp
  have "map row_args ys = map (\<lambda>r. r) (arr (map row_args ?xs))"
    unfolding ys_def map_map by (rule map_cong [OF refl]) (use rows in \<open>auto simp: row_to_item_args\<close>)
  then have "traverse row_to_item (arr (map row_args ?xs)) = Inr ys" using traverse_row_args [of ys] by simp
  moreover have "set ys = set ?xs" unfolding ys_def using rows by (auto simp: row_to_item_args image_iff)
  ultimately show ?thesis by (simp add: t store_list_memories_def sql_select_def filter_row_args)
qed

abbreviation sql_op :: "memory_op \<Rightarrow> memory_db \<Rightarrow> memory_db" where
  "sql_op \<equiv> memory_apply store_add_memory (\<lambda>j db. snd (store_delete_memory j db)) (\<lambda>v db. snd (store_purge_expired v db))"

text \<open>
  C31. A memory that was recorded is listed for its workflow after any history of recordings, deletions
  and purges none of which is about it: that deletes its id or purges at a time when it has expired. After
  such a deletion or purge it is not listed any more, unless it is recorded again. No listing raises.
\<close>

theorem memory_persists:
  assumes "good_rows db" and "i = new_memory st k x ag (Some wid) imp ex" and "store_add_memory i db = (Inr i, db1)"
    and "list_all recordable ops" and "\<forall>xs. set (arr xs) = set xs"
  shows "\<exists>ms. store_list_memories arr wid None (fold sql_op ops db1) = Inr ms
    \<and> (list_all (keeps i) ops \<longrightarrow> i \<in> set ms)
    \<and> (\<forall>us opn vs. ops = us @ opn # vs \<and> \<not> keeps i opn \<and> Record i \<notin> set vs \<longrightarrow> i \<notin> set ms)"
proof -
  have i: "count_fits i" "mem_workflow_id i = Some wid" by (simp_all add: assms(2) new_memory_def count_fits_def)
  have new: "mem_id i \<notin> mem_id ` set (row_items db)" using rows.add_taken [OF assms(1) i(1)] assms(3) by auto
  then have one: "i \<in> set (row_items db1)" "good_rows db1" using rows.add_fresh [OF assms(1) i(1)] assms(3) by auto
  obtain ms where ms: "store_list_memories arr wid None (fold sql_op ops db1) = Inr ms"
      "set ms = {i \<in> set (row_items (fold sql_op ops db1)). mem_workflow_id i = Some wid}"
    using list_rows [OF rows.run_good [OF one(2) assms(4)] assms(5)] by blast
  have "i \<in> set ms" if "list_all (keeps i) ops"
    using rows.memory_stays [OF one(2) assms(4) one(1) that] i(2) ms(2) by simp
  moreover have "i \<notin> set ms" if "ops = us @ opn # vs" "\<not> keeps i opn" "Record i \<notin> set vs" for us opn vs
    using rows.memory_lost [OF one(2) _ that(2,3), of us] assms(4) ms(2) that(1) by simp
  ultimately show ?thesis using ms(1) by blast
qed

theorem memory_persists_witness:
  "\<exists>ms. store_list_memories (\<lambda>xs. xs) ''w'' None (fold sql_op [Purge 3, Forget ''b''] (Some
       [row_args (new_memory \<lparr>fresh_id = ''a'', clock1 = 1, clock2 = 1\<rparr> WORKING ''x'' None (Some ''w'') (1 / 2) (Some 5))])) = Inr ms
     \<and> new_memory \<lparr>fresh_id = ''a'', clock1 = 1, clock2 = 1\<rparr> WORKING ''x'' None (Some ''w'') (1 / 2) (Some 5) \<in> set ms"
proof -
  let ?i = "new_memory \<lparr>fresh_id = ''a'', clock1 = 1, clock2 = 1\<rparr> WORKING ''x'' None (Some ''w'') (1 / 2) (Some 5)"
  have "good_rows (Some [])" using good_rowsI [of "[]"] by simp
  moreover have "store_add_memory ?i (Some []) = (Inr ?i, Some [row_args ?i])"
    by (simp add: store_add_memory_def sql_insert_def new_memory_def)
  moreover have "list_all (keeps ?i) [Purge 3, Forget ''b'']" by (simp add: keeps_def expired_def new_memory_def)
  moreover have "list_all recordable [Purge 3, Forget ''b'']" by (simp add: recordable_def)
  ultimately show ?thesis using memory_persists [OF _ refl, of "Some []" _ _ _ _ _ _ _ "Some [row_args ?i]" "[Purge 3, Forget ''b'']" "\<lambda>xs. xs"] by blast
qed

end
