(* ===== verification/Middleware.thy ===== *)
theory Middleware
  imports Prelude
begin

text \<open>
  \<^verbatim>\<open>gateway/middleware.py\<close> with the request metrics of \<^verbatim>\<open>gateway/metrics.py\<close>: a gauge of the requests
  being processed, a counter per method, path and status, and the observed latencies per path. The
  handler behind \<open>call_next\<close> is the outcome argument: a status, or an exception no handler caught.
  The Prometheus client is modelled by the numbers it counts.
\<close>

record request_metrics =
  active_gauge :: int
  request_count :: "string \<times> string \<times> nat \<Rightarrow> nat"
  latencies :: "string \<Rightarrow> real list"

definition no_metrics :: request_metrics where
  "no_metrics = \<lparr>active_gauge = 0, request_count = (\<lambda>_. 0), latencies = (\<lambda>_. [])\<rparr>"

record http_call =
  hc_method :: string
  hc_path :: string
  hc_start :: real

datatype handler_end = Answered nat | Escaped py_exc

text \<open>\<open>metrics_middleware\<close> up to the await and after it. An exception leaves the function at the await.\<close>

definition middleware_begin :: "request_metrics \<Rightarrow> request_metrics" where
  "middleware_begin m = m\<lparr>active_gauge := active_gauge m + 1\<rparr>"

definition middleware_end :: "http_call \<Rightarrow> real \<Rightarrow> handler_end \<Rightarrow> request_metrics \<Rightarrow> nat result \<times> request_metrics" where
  "middleware_end c now h m =
     (case h of
        Escaped e \<Rightarrow> (Inl e, m)
      | Answered status \<Rightarrow>
          (Inr status,
           m\<lparr>active_gauge := active_gauge m - 1,
             request_count := (request_count m)((hc_method c, hc_path c, status) :=
               request_count m (hc_method c, hc_path c, status) + 1),
             latencies := (latencies m)(hc_path c := latencies m (hc_path c) @ [now - hc_start c])\<rparr>))"

section \<open>Interleavings\<close>

text \<open>Requests by number: each begins, and later ends, in any order.\<close>

datatype request_event = Begin nat http_call | End nat real handler_end

type_synonym request_state = "request_metrics \<times> (nat \<rightharpoonup> http_call) \<times> handler_end list"

fun request_step :: "request_event \<Rightarrow> request_state \<Rightarrow> request_state option" where
  "request_step (Begin i c) (m, running, ends) =
     (if running i \<noteq> None then None else Some (middleware_begin m, running(i \<mapsto> c), ends))"
| "request_step (End i now h) (m, running, ends) =
     (case running i of None \<Rightarrow> None
      | Some c \<Rightarrow> Some (snd (middleware_end c now h m), running(i := None), h # ends))"

fun request_run :: "request_event list \<Rightarrow> request_state \<Rightarrow> request_state option" where
  "request_run [] s = Some s"
| "request_run (e # es) s = (case request_step e s of None \<Rightarrow> None | Some s' \<Rightarrow> request_run es s')"

fun escaped :: "handler_end \<Rightarrow> bool" where
  "escaped (Escaped _) = True"
| "escaped (Answered _) = False"

definition metrics_inv :: "request_state \<Rightarrow> bool" where
  "metrics_inv s \<longleftrightarrow>
     (case s of (m, running, ends) \<Rightarrow>
        finite (dom running)
        \<and> active_gauge m = int (card (dom running)) + int (length (filter escaped ends)))"

lemma metrics_inv_step:
  assumes "metrics_inv s" "request_step e s = Some s'"
  shows "metrics_inv s'"
proof (cases e)
  case (Begin i c)
  then show ?thesis
    using assms by (cases s) (auto simp: metrics_inv_def middleware_begin_def domIff split: if_splits)
next
  case (End i now h)
  obtain m running ends where s: "s = (m, running, ends)" by (metis prod.exhaust)
  obtain c where c: "running i = Some c" using assms(2) End s by (auto split: option.splits)
  then have "i \<in> dom running" by auto
  moreover have "finite (dom running)" using assms(1) s by (simp add: metrics_inv_def)
  ultimately have "card (dom running) = Suc (card (dom running - {i}))" by (intro card_Suc_Diff1 [symmetric])
  then show ?thesis
    using assms End s c by (cases h) (auto simp: metrics_inv_def middleware_end_def)
qed

lemma metrics_inv_run: "metrics_inv s \<Longrightarrow> request_run es s = Some s' \<Longrightarrow> metrics_inv s'"
proof (induction es arbitrary: s)
  case (Cons e es)
  then obtain s1 where "request_step e s = Some s1" "request_run es s1 = Some s'" by (auto split: option.splits)
  with Cons.IH metrics_inv_step [OF Cons.prems(1)] show ?case by blast
qed simp


section \<open>Properties\<close>

text \<open>
  The gauge of active requests counts the requests in flight plus one for every request whose
  handler let an exception escape: the middleware decrements it only on the way that returns, so a
  single unhandled exception leaves it off by one for good.
\<close>

theorem active_gauge_leaks:
  assumes "request_run es (no_metrics, (\<lambda>_. None), []) = Some (m, running, ends)"
  shows "active_gauge m = int (card (dom running)) + int (length (filter escaped ends))
    \<and> (list_all (\<lambda>h. \<not> escaped h) ends \<and> running = (\<lambda>_. None) \<longrightarrow> active_gauge m = 0)"
proof -
  have "metrics_inv (no_metrics, (\<lambda>_. None), [])" by (simp add: metrics_inv_def no_metrics_def)
  from metrics_inv_run [OF this assms] have "metrics_inv (m, running, ends)" .
  then show ?thesis by (auto simp: metrics_inv_def list_all_iff filter_empty_conv)
qed

theorem active_gauge_leaks_witness:
  "\<exists>m running ends. request_run [Begin 0 \<lparr>hc_method = ''GET'', hc_path = ''/'', hc_start = 0\<rparr>, End 0 1 (Escaped (KeyError ''u''))]
      (no_metrics, (\<lambda>_. None), []) = Some (m, running, ends) \<and> active_gauge m = 1"
proof -
  let ?es = "[Begin 0 \<lparr>hc_method = ''GET'', hc_path = ''/'', hc_start = 0\<rparr>, End 0 1 (Escaped (KeyError ''u''))]"
  obtain m where r: "request_run ?es (no_metrics, (\<lambda>_. None), []) = Some (m, (\<lambda>_. None), [Escaped (KeyError ''u'')])"
    by (simp add: middleware_end_def)
  from active_gauge_leaks [OF r] have "active_gauge m = 1" by simp
  with r show ?thesis by blast
qed

end
