(* ===== verification/Metrics.thy ===== *)
theory Metrics
  imports Prelude
begin

text \<open>
  \<^verbatim>\<open>gateway/metrics.py\<close>: the declared Prometheus metrics, by the Python name that holds each, with kind,
  exported name, label names and buckets (the help texts are left out), and the places of the program
  that record into them. What the Prometheus client does with the numbers is not modelled; its rules
  for using a metric are: exactly the declared labels are given, a counter is only incremented, a gauge
  is set, incremented or decremented, a histogram observes.
\<close>

datatype metric_kind = Counter | Gauge | Histogram

record metric =
  mt_kind :: metric_kind
  mt_name :: string
  mt_labels :: "string list"
  mt_buckets :: "real list"

definition counter :: "string \<Rightarrow> string list \<Rightarrow> metric" where
  "counter n ls = \<lparr>mt_kind = Counter, mt_name = n, mt_labels = ls, mt_buckets = []\<rparr>"

definition gauge :: "string \<Rightarrow> string list \<Rightarrow> metric" where
  "gauge n ls = \<lparr>mt_kind = Gauge, mt_name = n, mt_labels = ls, mt_buckets = []\<rparr>"

definition histogram :: "string \<Rightarrow> string list \<Rightarrow> real list \<Rightarrow> metric" where
  "histogram n ls bs = \<lparr>mt_kind = Histogram, mt_name = n, mt_labels = ls, mt_buckets = bs\<rparr>"

section \<open>The declarations\<close>

definition gateway_metrics :: "(string \<times> metric) list" where
  "gateway_metrics =
     [(''REQUEST_COUNT'', counter ''llm_requests_total'' [''method'', ''endpoint'', ''status_code'']),
      (''REQUEST_LATENCY'', histogram ''llm_request_latency_seconds'' [''endpoint'']
         [1 / 10, 1 / 2, 1, 2, 5, 10, 30, 60]),
      (''ACTIVE_REQUESTS'', gauge ''llm_active_requests'' []),
      (''QUEUE_DEPTH'', gauge ''llm_queue_depth'' []),
      (''WORKER_COUNT'', gauge ''llm_worker_count'' [])]"

definition worker_metrics :: "(string \<times> metric) list" where
  "worker_metrics =
     [(''WORKER_ACTIVE_REQUESTS'', gauge ''llm_worker_active_requests'' [''worker_url'']),
      (''WORKER_REQUEST_COUNT'', counter ''llm_worker_requests_total'' [''worker_url'', ''status'']),
      (''WORKER_LATENCY'', histogram ''llm_worker_latency_seconds'' [''worker_url''] [1 / 2, 1, 2, 5, 10, 30, 60]),
      (''WORKER_HEALTH'', gauge ''llm_worker_healthy'' [''worker_url''])]"

definition agent_metrics :: "(string \<times> metric) list" where
  "agent_metrics =
     [(''AGENT_REQUEST_COUNT'', counter ''fleet_agent_requests_total'' [''endpoint'', ''has_agent_id'']),
      (''AGENT_WORKFLOW_FAILURES'', counter ''fleet_agent_workflow_failures_total'' [''endpoint'']),
      (''CONTEXT_TOKENS'', histogram ''fleet_context_tokens'' []
         [128, 256, 512, 1024, 2048, 4096, 8192, 16384, 32768]),
      (''CONTEXT_ITEMS_RECORDED'', counter ''fleet_context_items_recorded_total'' []),
      (''CONTEXT_CAPACITY_REJECTIONS'', counter ''fleet_context_capacity_rejections_total'' []),
      (''CONTEXT_COMPRESSIONS_TOTAL'', counter ''fleet_context_compressions_total'' []),
      (''CONTEXT_TOKENS_SAVED_TOTAL'', counter ''fleet_context_tokens_saved_total'' []),
      (''INPUT_TOKENS_TOTAL'', counter ''fleet_input_tokens_total'' [''worker_url'']),
      (''OUTPUT_TOKENS_TOTAL'', counter ''fleet_output_tokens_total'' [''worker_url''])]"

definition metric_table :: "(string \<times> metric) list" where
  "metric_table = gateway_metrics @ worker_metrics @ agent_metrics"

section \<open>The uses\<close>

datatype metric_op = Inc | Dec | SetTo | Observe

record metric_use =
  us_metric :: string
  us_labels :: "string list"
  us_op :: metric_op

definition use_of :: "string \<Rightarrow> string list \<Rightarrow> metric_op \<Rightarrow> metric_use" where
  "use_of m ls o' = \<lparr>us_metric = m, us_labels = ls, us_op = o'\<rparr>"

definition middleware_uses :: "metric_use list" where
  "middleware_uses =
     [use_of ''ACTIVE_REQUESTS'' [] Inc, use_of ''ACTIVE_REQUESTS'' [] Dec,
      use_of ''REQUEST_COUNT'' [''method'', ''endpoint'', ''status_code''] Inc,
      use_of ''REQUEST_LATENCY'' [''endpoint''] Observe]"

definition route_uses :: "metric_use list" where
  "route_uses =
     [use_of ''AGENT_REQUEST_COUNT'' [''endpoint'', ''has_agent_id''] Inc,
      use_of ''AGENT_WORKFLOW_FAILURES'' [''endpoint''] Inc, use_of ''CONTEXT_TOKENS'' [] Observe]"

definition scaler_uses :: "metric_use list" where
  "scaler_uses = [use_of ''QUEUE_DEPTH'' [] SetTo, use_of ''WORKER_COUNT'' [] SetTo]"

definition balancer_uses :: "metric_use list" where
  "balancer_uses = [use_of ''CONTEXT_CAPACITY_REJECTIONS'' [] Inc]"

text \<open>\<open>generate\<close>; \<open>chat\<close> uses the same metrics in the same way.\<close>

definition client_uses :: "metric_use list" where
  "client_uses =
     [use_of ''WORKER_ACTIVE_REQUESTS'' [''worker_url''] Inc, use_of ''WORKER_LATENCY'' [''worker_url''] Observe,
      use_of ''WORKER_REQUEST_COUNT'' [''worker_url'', ''status''] Inc, use_of ''INPUT_TOKENS_TOTAL'' [''worker_url''] Inc,
      use_of ''OUTPUT_TOKENS_TOTAL'' [''worker_url''] Inc, use_of ''WORKER_REQUEST_COUNT'' [''worker_url'', ''status''] Inc,
      use_of ''WORKER_ACTIVE_REQUESTS'' [''worker_url''] Dec]"

definition context_uses :: "metric_use list" where
  "context_uses =
     [use_of ''CONTEXT_ITEMS_RECORDED'' [] Inc, use_of ''CONTEXT_COMPRESSIONS_TOTAL'' [] Inc,
      use_of ''CONTEXT_TOKENS_SAVED_TOTAL'' [] Inc]"

definition metric_uses :: "metric_use list" where
  "metric_uses = middleware_uses @ route_uses @ scaler_uses @ balancer_uses @ client_uses @ context_uses"

fun op_fits :: "metric_kind \<Rightarrow> metric_op \<Rightarrow> bool" where
  "op_fits Counter o' = (o' = Inc)"
| "op_fits Gauge o' = (o' \<noteq> Observe)"
| "op_fits Histogram o' = (o' = Observe)"

definition use_ok :: "metric_use \<Rightarrow> bool" where
  "use_ok u = (case map_of metric_table (us_metric u) of
     None \<Rightarrow> False | Some m \<Rightarrow> op_fits (mt_kind m) (us_op u) \<and> mset (us_labels u) = mset (mt_labels m))"

section \<open>Properties\<close>

lemmas metric_defs = metric_table_def gateway_metrics_def worker_metrics_def agent_metrics_def counter_def gauge_def
  histogram_def
lemmas use_defs = metric_uses_def middleware_uses_def route_uses_def scaler_uses_def balancer_uses_def client_uses_def
  context_uses_def use_of_def

text \<open>
  Every use of a metric fits its declaration: the metric exists, the operation is one of its kind
  and exactly the declared labels are given; names are unique and buckets increase. Every metric is
  recorded somewhere, but for one: the health gauge of the workers is declared and never set.
\<close>

theorem metrics_fit_declarations:
  "list_all use_ok metric_uses \<and> distinct (map fst metric_table) \<and> distinct (map (mt_name \<circ> snd) metric_table)
   \<and> list_all (sorted_wrt (<) \<circ> mt_buckets \<circ> snd) metric_table
   \<and> filter (\<lambda>v. v \<notin> us_metric ` set metric_uses) (map fst metric_table) = [''WORKER_HEALTH'']"
proof (intro conjI)
  show "list_all use_ok metric_uses"
    by (simp add: use_defs use_ok_def metric_defs)
  show "distinct (map fst metric_table)" "distinct (map (mt_name \<circ> snd) metric_table)"
    by (simp_all add: metric_defs)
  show "list_all (sorted_wrt (<) \<circ> mt_buckets \<circ> snd) metric_table" by (simp add: metric_defs)
  show "filter (\<lambda>v. v \<notin> us_metric ` set metric_uses) (map fst metric_table) = [''WORKER_HEALTH'']"
    by (simp add: use_defs metric_defs)
qed

end
