(* ===== verification/CodingAgent.thy ===== *)
theory CodingAgent
  imports PyText "HOL-Library.List_Lexorder" "HOL-Library.Char_ord"
begin

text \<open>
  \<^verbatim>\<open>examples/coding_agent\<close>: the sandboxed file tools and the scripted fix of the reference agent. A
  path is the list of its components from the root of the file system. The file system has files,
  directories and symbolic links; \<open>Path.resolve\<close> follows the links (a loop of links, on which Python
  raises, has no value here). The test run and the whole run of the agent are in \<open>AgentRun\<close>.
\<close>

section \<open>The file system\<close>

type_synonym path = "string list"

record file_system =
  fs_files :: "(path \<times> string) list"
  fs_dirs :: "path list"
  fs_links :: "(path \<times> string) list"

definition path_parts :: "string \<Rightarrow> string list" where
  "path_parts s = str_split (CHR ''/'') s"

definition is_absolute :: "string \<Rightarrow> bool" where
  "is_absolute s = (s \<noteq> [] \<and> hd s = CHR ''/'')"

text \<open>\<open>Path.resolve\<close>: \<open>base\<close> is resolved already, the second list are the components to come.\<close>

partial_function (option) realpath ::
  "(path \<rightharpoonup> string) \<Rightarrow> path \<Rightarrow> string list \<Rightarrow> path option" where
  "realpath links base rest =
     (case rest of
        [] \<Rightarrow> Some base
      | c # cs \<Rightarrow>
          if c = [] \<or> c = ''.'' then realpath links base cs
          else if c = ''..'' then realpath links (butlast base) cs
          else (case links (base @ [c]) of
                  None \<Rightarrow> realpath links (base @ [c]) cs
                | Some t \<Rightarrow> realpath links (if is_absolute t then [] else base) (path_parts t @ cs)))"

declare realpath.simps [code]

definition links_of :: "file_system \<Rightarrow> path \<Rightarrow> string option" where
  "links_of fs p = map_of (fs_links fs) p"

definition os_error :: "string \<Rightarrow> path \<Rightarrow> py_exc" where
  "os_error what p = ServiceError (what @ '': /'' @ str_join ''/'' p)"

text \<open>Opening a path follows its links.\<close>

definition read_text :: "file_system \<Rightarrow> path \<Rightarrow> string result option" where
  "read_text fs p =
     (case realpath (links_of fs) [] p of
        None \<Rightarrow> None
      | Some q \<Rightarrow>
          Some (if q \<in> set (fs_dirs fs) then Inl (os_error ''Is a directory'' q)
                else (case map_of (fs_files fs) q of
                        None \<Rightarrow> Inl (os_error ''No such file or directory'' q)
                      | Some t \<Rightarrow> Inr t)))"

definition write_text :: "path \<Rightarrow> string \<Rightarrow> file_system \<Rightarrow> (unit result \<times> file_system) option" where
  "write_text p txt fs =
     (case realpath (links_of fs) [] p of
        None \<Rightarrow> None
      | Some q \<Rightarrow>
          Some (if q \<in> set (fs_dirs fs) then (Inl (os_error ''Is a directory'' q), fs)
                else if q = [] \<or> butlast q \<notin> set (fs_dirs fs) then (Inl (os_error ''No such file or directory'' q), fs)
                else (Inr (), fs\<lparr>fs_files := AList.update q txt (fs_files fs)\<rparr>)))"

section \<open>The tools\<close>

text \<open>\<open>_resolve\<close>; an absolute path replaces the root in \<open>SANDBOX_ROOT / path\<close>.\<close>

definition resolve_path :: "file_system \<Rightarrow> path \<Rightarrow> string \<Rightarrow> path result option" where
  "resolve_path fs sandbox s =
     (case (if is_absolute s then realpath (links_of fs) [] (path_parts s)
            else realpath (links_of fs) [] (sandbox @ path_parts s)) of
        None \<Rightarrow> None
      | Some q \<Rightarrow>
          Some (if q = sandbox \<or> strict_prefix sandbox q then Inr q
                else Inl (ValueError (''Path '' @ py_repr s @ '' escapes the sandbox''))))"

definition read_file :: "file_system \<Rightarrow> path \<Rightarrow> string \<Rightarrow> string result option" where
  "read_file fs sandbox s =
     (case resolve_path fs sandbox s of
        None \<Rightarrow> None
      | Some (Inl e) \<Rightarrow> Some (Inl e)
      | Some (Inr q) \<Rightarrow> read_text fs q)"

definition write_file :: "path \<Rightarrow> string \<Rightarrow> string \<Rightarrow> file_system \<Rightarrow> (unit result \<times> file_system) option" where
  "write_file sandbox s txt fs =
     (case resolve_path fs sandbox s of
        None \<Rightarrow> None
      | Some (Inl e) \<Rightarrow> Some (Inl e, fs)
      | Some (Inr q) \<Rightarrow> write_text q txt fs)"

text \<open>\<open>sorted(SANDBOX_ROOT.rglob("*.py"))\<close>: every entry below the root, links included.\<close>

definition python_files :: "file_system \<Rightarrow> path \<Rightarrow> path list" where
  "python_files fs sandbox =
     sort (filter (\<lambda>p. strict_prefix sandbox p \<and> suffix ''.py'' (last p))
       (map fst (fs_files fs) @ fs_dirs fs @ map fst (fs_links fs)))"

definition match_lines :: "path \<Rightarrow> string \<Rightarrow> path \<Rightarrow> string \<Rightarrow> string list" where
  "match_lines sandbox query p txt =
     map (\<lambda>(n, l). str_join ''/'' (drop (length sandbox) p) @ '':'' @ show_nat n @ '': '' @ strip l)
       (filter (\<lambda>(n, l). contains query l) (enumerate 1 (splitlines txt)))"

fun search_files :: "file_system \<Rightarrow> path \<Rightarrow> string \<Rightarrow> path list \<Rightarrow> string list result option" where
  "search_files fs sandbox query [] = Some (Inr [])"
| "search_files fs sandbox query (p # ps) =
     (case read_text fs p of
        None \<Rightarrow> None
      | Some (Inl e) \<Rightarrow> Some (Inl e)
      | Some (Inr t) \<Rightarrow>
          (case search_files fs sandbox query ps of
             Some (Inr ms) \<Rightarrow> Some (Inr (match_lines sandbox query p t @ ms))
           | r \<Rightarrow> r))"

definition search_code :: "file_system \<Rightarrow> path \<Rightarrow> string \<Rightarrow> string list result option" where
  "search_code fs sandbox query = search_files fs sandbox query (python_files fs sandbox)"

section \<open>The scripted fix\<close>

definition buggy_add :: string where
  "buggy_add = ''def add(a, b):'' @ newline @ ''    return a - b''"

definition fixed_add :: string where
  "fixed_add = ''def add(a, b):'' @ newline @ ''    return a + b''"

text \<open>\<open>s.replace(old, new, 1)\<close>\<close>

fun replace_first :: "string \<Rightarrow> string \<Rightarrow> string \<Rightarrow> string" where
  "replace_first old new [] = (if old = [] then new else [])"
| "replace_first old new (c # cs) =
     (if prefix old (c # cs) then new @ drop (length old) (c # cs) else c # replace_first old new cs)"

text \<open>Step 4 of \<open>run\<close>: the text that was read is written back fixed, unless the bug is gone.\<close>

definition apply_fix :: "path \<Rightarrow> string \<Rightarrow> file_system \<Rightarrow> (bool result \<times> file_system) option" where
  "apply_fix sandbox txt fs =
     (if \<not> contains buggy_add txt then Some (Inr False, fs)
      else (case write_file sandbox ''calculator.py'' (replace_first buggy_add fixed_add txt) fs of
              None \<Rightarrow> None
            | Some (Inl e, fs') \<Rightarrow> Some (Inl e, fs')
            | Some (Inr _, fs') \<Rightarrow> Some (Inr True, fs')))"

text \<open>Steps 2 and 4 without what lies between.\<close>

definition fix_step :: "path \<Rightarrow> file_system \<Rightarrow> (bool result \<times> file_system) option" where
  "fix_step sandbox fs =
     (case read_file fs sandbox ''calculator.py'' of
        None \<Rightarrow> None
      | Some (Inl e) \<Rightarrow> Some (Inl e, fs)
      | Some (Inr txt) \<Rightarrow> apply_fix sandbox txt fs)"

section \<open>Lemmas\<close>

definition link_free :: "(path \<rightharpoonup> string) \<Rightarrow> path \<Rightarrow> bool" where
  "link_free links p \<longleftrightarrow> (\<forall>q. prefix q p \<and> q \<noteq> [] \<longrightarrow> links q = None)"

lemma link_free_Nil [simp]: "link_free links []"
  by (simp add: link_free_def)

lemma link_free_butlast: "link_free links p \<Longrightarrow> link_free links (butlast p)"
  unfolding link_free_def using prefix_order.trans prefixeq_butlast by blast

lemma link_free_snoc: "link_free links p \<Longrightarrow> links (p @ [c]) = None \<Longrightarrow> link_free links (p @ [c])"
  by (auto simp: link_free_def)

text \<open>What is resolved has no link left on the way to it.\<close>

lemma realpath_link_free_iff:
  "realpath links base rest = Some q \<Longrightarrow> (link_free links base \<longrightarrow> link_free links q)"
proof (rule realpath.raw_induct [where P = "\<lambda>links base rest q. link_free links base \<longrightarrow> link_free links q"])
qed (auto split: list.splits option.splits if_splits, (blast intro: link_free_butlast link_free_snoc)+)

lemma realpath_link_free: "realpath links base rest = Some q \<Longrightarrow> link_free links base \<Longrightarrow> link_free links q"
  using realpath_link_free_iff by blast

definition plain_name :: "string \<Rightarrow> bool" where
  "plain_name c \<longleftrightarrow> c \<noteq> [] \<and> c \<noteq> ''.'' \<and> c \<noteq> ''..''"

lemma realpath_plain:
  "list_all plain_name cs \<Longrightarrow> link_free links (base @ cs) \<Longrightarrow>
   realpath links base (cs @ rest) = realpath links (base @ cs) rest"
proof (induction cs arbitrary: base)
  case Nil
  then show ?case by simp
next
  case (Cons c cs)
  then have "links (base @ [c]) = None" by (auto simp: link_free_def)
  with Cons.prems have "realpath links base ((c # cs) @ rest) = realpath links (base @ [c]) (cs @ rest)"
    by (subst realpath.simps) (simp add: plain_name_def)
  with Cons show ?case by simp
qed

lemma realpath_Nil [simp]: "realpath links base [] = Some base"
  by (subst realpath.simps) simp

text \<open>Resolving ends in plain names, so a resolved path resolves to itself.\<close>

lemma names_butlast: "list_all plain_name p \<Longrightarrow> list_all plain_name (butlast p)"
  by (auto simp: list_all_iff dest: in_set_butlastD)

lemma names_snoc:
  "list_all plain_name p \<Longrightarrow> c \<noteq> [] \<Longrightarrow> c \<noteq> ''.'' \<Longrightarrow> c \<noteq> ''..'' \<Longrightarrow> list_all plain_name (p @ [c])"
  by (simp add: plain_name_def)

lemma realpath_names_iff:
  "realpath links base rest = Some q \<Longrightarrow> (list_all plain_name base \<longrightarrow> list_all plain_name q)"
proof (rule realpath.raw_induct [where P = "\<lambda>links base rest q. list_all plain_name base \<longrightarrow> list_all plain_name q"])
qed (auto split: list.splits option.splits if_splits, (blast intro: names_butlast names_snoc)+)

lemma realpath_idem: "realpath links [] cs = Some q \<Longrightarrow> realpath links [] q = Some q"
  using realpath_plain [of q links "[]" "[]"] realpath_link_free [of links "[]" cs q]
    realpath_names_iff [of links "[]" cs q] by simp

lemma resolve_path_Inr:
  assumes "resolve_path fs box s = Some (Inr q)"
  shows "prefix box q" "link_free (links_of fs) q" "realpath (links_of fs) [] q = Some q"
proof -
  obtain cs where cs: "realpath (links_of fs) [] cs = Some q" and "q = box \<or> strict_prefix box q"
    using assms by (auto simp: resolve_path_def split: if_splits option.splits)
  then show "prefix box q" by auto
  show "link_free (links_of fs) q" using realpath_link_free [OF cs] by simp
  show "realpath (links_of fs) [] q = Some q" using cs by (rule realpath_idem)
qed

lemma same_links [simp]: "links_of (fs\<lparr>fs_files := x\<rparr>) = links_of fs"
  by (simp add: links_of_def fun_eq_iff)

lemma same_resolve [simp]: "resolve_path (fs\<lparr>fs_files := x\<rparr>) = resolve_path fs"
  by (simp add: resolve_path_def fun_eq_iff)

lemma write_file_cases:
  assumes "write_file box s txt fs = Some (r, fs')"
  shows "fs' = fs \<and> isl r \<or> (\<exists>q. resolve_path fs box s = Some (Inr q) \<and> r = Inr () \<and> q \<notin> set (fs_dirs fs)
    \<and> fs' = fs\<lparr>fs_files := AList.update q txt (fs_files fs)\<rparr>)"
  using assms
  by (auto simp: write_file_def write_text_def dest!: resolve_path_Inr(3) split: option.splits sum.splits if_splits)

lemma write_file_read:
  assumes "write_file box s x fs = Some (Inr (), fs')"
  shows "read_file fs' box s = Some (Inr x)"
proof -
  obtain q where q: "resolve_path fs box s = Some (Inr q)" "q \<notin> set (fs_dirs fs)"
      "fs' = fs\<lparr>fs_files := AList.update q x (fs_files fs)\<rparr>"
    using write_file_cases [OF assms] by auto
  then have "links_of fs' = links_of fs" "resolve_path fs' box s = Some (Inr q)" by simp_all
  with q resolve_path_Inr(3) [OF q(1)] show ?thesis by (simp add: read_file_def read_text_def update_conv)
qed

lemma contains_split: "contains k s \<Longrightarrow> \<exists>a b. s = a @ k @ b"
  by (auto simp: contains_sublist sublist_def)

lemma replace_first_split:
  "contains old s \<Longrightarrow> \<exists>a b. s = a @ old @ b \<and> replace_first old new s = a @ new @ b \<and> \<not> (\<exists>c. strict_prefix c a \<and> prefix (c @ old) s)"
proof (induction s)
  case Nil
  then show ?case by (auto simp: contains_sublist)
next
  case (Cons c cs)
  show ?case
  proof (cases "prefix old (c # cs)")
    case True
    then obtain b where b: "c # cs = old @ b" by (auto simp: prefix_def)
    have "replace_first old new (c # cs) = new @ drop (length old) (c # cs)" using True by simp
    then have "replace_first old new (c # cs) = new @ b" by (simp only: b append_eq_conv_conj [symmetric]) simp
    with b show ?thesis by (intro exI [of _ "[]"] exI [of _ b] conjI) simp_all
  next
    case False
    then have "contains old cs" using Cons.prems by (auto simp: contains_sublist sublist_Cons_right)
    with Cons.IH obtain a b where ab: "cs = a @ old @ b" "replace_first old new cs = a @ new @ b"
        "\<not> (\<exists>c. strict_prefix c a \<and> prefix (c @ old) cs)" by blast
    have "\<not> (\<exists>d. strict_prefix d (c # a) \<and> prefix (d @ old) (c # cs))"
    proof
      assume "\<exists>d. strict_prefix d (c # a) \<and> prefix (d @ old) (c # cs)"
      then obtain d where d: "strict_prefix d (c # a)" "prefix (d @ old) (c # cs)" by blast
      show False
      proof (cases d)
        case Nil
        then show False using d(2) False by simp
      next
        case (Cons x xs)
        then show False using d ab(3) by auto
      qed
    qed
    with ab False show ?thesis by (intro exI [of _ "c # a"] exI [of _ b]) simp
  qed
qed

text \<open>What the fix does to the file it was given the text of.\<close>

lemma apply_fix_Inr:
  assumes "apply_fix box txt fs = Some (Inr done, fs')" and "read_file fs box ''calculator.py'' = Some (Inr txt)"
  shows "if done then
      (\<exists>a b. txt = a @ buggy_add @ b \<and> read_file fs' box ''calculator.py'' = Some (Inr (a @ fixed_add @ b)))
         \<and> (\<forall>p. Some (Inr p) \<noteq> resolve_path fs box ''calculator.py'' \<longrightarrow> map_of (fs_files fs') p = map_of (fs_files fs) p)
         \<and> links_of fs' = links_of fs
    else fs' = fs \<and> \<not> contains buggy_add txt"
proof (cases "contains buggy_add txt")
  case False
  then show ?thesis using assms by (auto simp: apply_fix_def)
next
  case True
  obtain a b where ab: "txt = a @ buggy_add @ b" "replace_first buggy_add fixed_add txt = a @ fixed_add @ b"
    using replace_first_split [OF True, of fixed_add] by blast
  have w: "write_file box ''calculator.py'' (a @ fixed_add @ b) fs = Some (Inr (), fs')" and d: "done"
    using assms True ab(2) by (auto simp: apply_fix_def split: option.splits sum.splits prod.splits)
  obtain q where q: "resolve_path fs box ''calculator.py'' = Some (Inr q)" "q \<notin> set (fs_dirs fs)"
      "fs' = fs\<lparr>fs_files := AList.update q (a @ fixed_add @ b) (fs_files fs)\<rparr>"
    using write_file_cases [OF w] by auto
  then have l: "links_of fs' = links_of fs" by simp
  note r = write_file_read [OF w]
  have "map_of (fs_files fs') p = map_of (fs_files fs) p" if "Some (Inr p) \<noteq> resolve_path fs box ''calculator.py''" for p
    using that q by (auto simp: update_conv)
  then show ?thesis using d ab(1) r l by (simp only: if_True) blast
qed

lemma apply_fix_Inl: "apply_fix box txt fs = Some (Inl e, fs') \<Longrightarrow> fs' = fs"
  by (auto simp: apply_fix_def dest: write_file_cases split: if_splits option.splits sum.splits prod.splits)

section \<open>Properties\<close>


definition demo_fs :: file_system where
  "demo_fs = \<lparr>fs_files = [([''etc'', ''secret''], ''key = 1''), ([''box'', ''a.py''], ''x = 2'')],
     fs_dirs = [[], [''etc''], [''box'']], fs_links = [([''box'', ''b.py''], ''/etc/secret'')]\<rparr>"


text \<open>
  The search is not confined: it opens what it finds without the check, so a link inside the
  sandbox to a file outside it is refused by \<open>read_file\<close> and its lines are returned by
  \<open>search_code\<close>.
\<close>

theorem search_code_follows_links:
  "(\<exists>m. read_file demo_fs [''box''] ''b.py'' = Some (Inl (ValueError m)))
   \<and> search_code demo_fs [''box''] ''key'' = Some (Inr [''b.py:1: key = 1''])"
proof
  show "\<exists>m. read_file demo_fs [''box''] ''b.py'' = Some (Inl (ValueError m))"
    by (simp add: read_file_def resolve_path_def demo_fs_def links_of_def is_absolute_def path_parts_def realpath.simps)
  show "search_code demo_fs [''box''] ''key'' = Some (Inr [''b.py:1: key = 1''])"
    by code_simp
qed

text \<open>
  The scripted fix replaces the first occurrence of the buggy function in \<open>calculator.py\<close>, keeps
  the text before and after it and touches no other file; when the bug is gone, running it again
  changes nothing.
\<close>

theorem fix_step_effect:
  assumes "fix_step box fs = Some (Inr done, fs')" and "read_file fs box ''calculator.py'' = Some (Inr txt)"
  shows "if done then
      (\<exists>a b. txt = a @ buggy_add @ b \<and> read_file fs' box ''calculator.py'' = Some (Inr (a @ fixed_add @ b))
         \<and> (\<not> contains buggy_add (a @ fixed_add @ b) \<longrightarrow> fix_step box fs' = Some (Inr False, fs'))
         \<and> (\<forall>p. Some (Inr p) \<noteq> resolve_path fs box ''calculator.py'' \<longrightarrow> map_of (fs_files fs') p = map_of (fs_files fs) p))
    else fs' = fs \<and> \<not> contains buggy_add txt"
proof -
  have f: "apply_fix box txt fs = Some (Inr done, fs')" using assms by (simp add: fix_step_def)
  note effect = apply_fix_Inr [OF f assms(2)]
  have again: "fix_step box fs' = Some (Inr False, fs')"
    if "read_file fs' box ''calculator.py'' = Some (Inr t)" "\<not> contains buggy_add t" for t
    using that by (simp add: fix_step_def apply_fix_def)
  show ?thesis
  proof (cases "done")
    case True
    with effect again show ?thesis by (simp only: if_True) blast
  next
    case False
    with effect show ?thesis by simp
  qed
qed

end
