(* ===== verification/FleetClient.thy ===== *)
theory FleetClient
  imports Gateway
begin

text \<open>
  \<^verbatim>\<open>client/fleet_client.py\<close> and the request models of \<^verbatim>\<open>gateway/routes.py\<close> it talks to: the JSON body
  each call sends, and how the gateway reads it back into a request (an optional field that is
  missing or null is \<open>None\<close>, a value of another type is refused with 422, unknown fields are
  ignored). The flag \<open>stream\<close>, which the client never sends and no route reads, is left out. HTTP itself and the other side's answer are not modelled.
\<close>

section \<open>What the client sends\<close>

text \<open>\<open>{"prompt": prompt, **metadata}\<close> and the model, if there is one.\<close>

definition with_model :: "string option \<Rightarrow> json pydict \<Rightarrow> json pydict" where
  "with_model model d = (case model of Some (c # cs) \<Rightarrow> AList.update ''model'' (JStr (c # cs)) d | _ \<Rightarrow> d)"

definition client_generate :: "string \<Rightarrow> string option \<Rightarrow> json pydict \<Rightarrow> string \<times> json" where
  "client_generate prompt model metadata =
     (''/api/v1/generate'', JDict (with_model model (dict_merge [(''prompt'', JStr prompt)] metadata)))"

definition client_chat :: "json list \<Rightarrow> string option \<Rightarrow> json pydict \<Rightarrow> string \<times> json" where
  "client_chat messages model metadata =
     (''/api/v1/chat'', JDict (with_model model (dict_merge [(''messages'', JList messages)] metadata)))"

definition client_queued_generate :: "string \<Rightarrow> string option \<Rightarrow> json pydict \<Rightarrow> string \<times> json" where
  "client_queued_generate prompt model metadata =
     (''/api/v1/queued/generate'', JDict (with_model model (dict_merge [(''prompt'', JStr prompt)] metadata)))"

section \<open>What the gateway reads\<close>

definition unprocessable :: py_exc where
  "unprocessable = HTTPException 422 ''Unprocessable Entity''"

definition opt_str_field :: "json pydict \<Rightarrow> string \<Rightarrow> string option result" where
  "opt_str_field d k =
     (case map_of d k of
        None \<Rightarrow> Inr None | Some JNull \<Rightarrow> Inr None | Some (JStr s) \<Rightarrow> Inr (Some s) | Some _ \<Rightarrow> Inl unprocessable)"

definition str_field :: "json pydict \<Rightarrow> string \<Rightarrow> string result" where
  "str_field d k = (case map_of d k of Some (JStr s) \<Rightarrow> Inr s | _ \<Rightarrow> Inl unprocessable)"

text \<open>\<open>AgentMetadata\<close>; the fields in the order agent, workflow, request, parent.\<close>

definition parse_metadata :: "json pydict \<Rightarrow> (string option \<times> string option \<times> string option \<times> string option) result" where
  "parse_metadata d =
     (case traverse (opt_str_field d) [''agent_id'', ''workflow_id'', ''request_id'', ''parent_request_id''] of
        Inr [a, w, r, p] \<Rightarrow> Inr (a, w, r, p) | _ \<Rightarrow> Inl unprocessable)"

definition parse_generate :: "json \<Rightarrow> generate_request result" where
  "parse_generate body =
     (case body of
        JDict d \<Rightarrow>
          (case (parse_metadata d, str_field d ''prompt'', opt_str_field d ''model'') of
             (Inr (a, w, r, p), Inr prompt, Inr model) \<Rightarrow>
               Inr \<lparr>rq_agent_id = a, rq_workflow_id = w, rq_request_id = r, rq_parent_id = p, rq_prompt = prompt, rq_model = model\<rparr>
           | _ \<Rightarrow> Inl unprocessable)
      | _ \<Rightarrow> Inl unprocessable)"

definition parse_message :: "json \<Rightarrow> (string \<times> string) result" where
  "parse_message m =
     (case m of
        JDict d \<Rightarrow> (case (str_field d ''role'', str_field d ''content'') of
            (Inr r, Inr c) \<Rightarrow> Inr (r, c) | _ \<Rightarrow> Inl unprocessable)
      | _ \<Rightarrow> Inl unprocessable)"

definition parse_chat :: "json \<Rightarrow> chat_request result" where
  "parse_chat body =
     (case body of
        JDict d \<Rightarrow>
          (case (parse_metadata d, map_of d ''messages'', opt_str_field d ''model'') of
             (Inr (a, w, r, p), Some (JList ms), Inr model) \<Rightarrow>
               (case traverse parse_message ms of
                  Inl e \<Rightarrow> Inl unprocessable
                | Inr ms' \<Rightarrow>
                    Inr \<lparr>rq_agent_id = a, rq_workflow_id = w, rq_request_id = r, rq_parent_id = p,
                      rq_messages = ms', rq_chat_model = model\<rparr>)
           | _ \<Rightarrow> Inl unprocessable)
      | _ \<Rightarrow> Inl unprocessable)"

section \<open>Lemmas\<close>

definition agent_meta :: "string option \<Rightarrow> string option \<Rightarrow> string option \<Rightarrow> string option \<Rightarrow> json pydict" where
  "agent_meta a w r p = [(''agent_id'', opt_json a), (''workflow_id'', opt_json w), (''request_id'', opt_json r),
     (''parent_request_id'', opt_json p)]"

lemma opt_json_cases: "(case opt_json v of JNull \<Rightarrow> Inr None | JStr s \<Rightarrow> Inr (Some s) | _ \<Rightarrow> Inl e) = Inr v"
  by (cases v) (simp_all add: opt_json_def)

lemma with_model_get: "map_of (with_model m d) k = (if k = ''model'' \<and> truthy m then Some (JStr (the m)) else map_of d k)"
  by (auto simp: with_model_def truthy_def update_conv split: option.split list.split)

lemma traverse_messages: "traverse parse_message (map message_json ms) = Inr ms"
proof -
  have "parse_message (message_json m) = Inr m" for m
    by (cases m) (simp add: parse_message_def message_json_def str_field_def)
  then show ?thesis by (induction ms) simp_all
qed

text \<open>What the scripts send: an agent and a workflow, and no request ids.\<close>

lemma agent_chat_arrives:
  "parse_chat (snd (client_chat (map message_json ms) (Some model) [(''agent_id'', JStr a), (''workflow_id'', JStr w)])) =
     Inr \<lparr>rq_agent_id = Some a, rq_workflow_id = Some w, rq_request_id = None, rq_parent_id = None,
       rq_messages = ms, rq_chat_model = (if model = [] then None else Some model)\<rparr>"
  by (cases model) (simp_all add: client_chat_def with_model_def dict_merge_def parse_chat_def parse_metadata_def
      opt_str_field_def traverse_messages)

text \<open>
  The gateway reads the request the client was asked to send: the prompt or the messages, the
  identity of the agent and the workflow as they were given, and the given model or else the
  gateway's default one.
\<close>

lemma client_request_arrives:
  assumes "metadata = agent_meta a w r p"
  shows "\<exists>rq crq. parse_generate (snd (client_generate prompt model metadata)) = Inr rq
    \<and> parse_generate (snd (client_queued_generate prompt model metadata)) = Inr rq
    \<and> rq_prompt rq = prompt \<and> rq_agent_id rq = a \<and> rq_workflow_id rq = w \<and> rq_request_id rq = r \<and> rq_parent_id rq = p
    \<and> effective_model cfg (rq_model rq) = (if truthy model then the model else default_model cfg)
    \<and> parse_chat (snd (client_chat (map message_json ms) model metadata)) = Inr crq
    \<and> rq_messages crq = ms \<and> rq_agent_id crq = a \<and> rq_workflow_id crq = w"
proof -
  let ?m = "if truthy model then Some (the model) else None"
  let ?d = "with_model model (dict_merge [(''prompt'', JStr prompt)] metadata)"
  let ?c = "with_model model (dict_merge [(''messages'', JList (map message_json ms))] metadata)"
  have meta: "parse_metadata ?d = Inr (a, w, r, p)" "parse_metadata ?c = Inr (a, w, r, p)"
    by (simp_all add: parse_metadata_def opt_str_field_def with_model_get assms agent_meta_def dict_merge_def opt_json_cases)
  have mod: "opt_str_field ?d ''model'' = Inr ?m" "opt_str_field ?c ''model'' = Inr ?m"
    by (simp_all add: opt_str_field_def with_model_get assms agent_meta_def dict_merge_def)
  have gen: "parse_generate (JDict ?d) = Inr \<lparr>rq_agent_id = a, rq_workflow_id = w, rq_request_id = r, rq_parent_id = p,
      rq_prompt = prompt, rq_model = ?m\<rparr>"
    using meta mod
    by (simp add: parse_generate_def str_field_def with_model_get dict_merge_def assms agent_meta_def)
  have chat: "parse_chat (JDict ?c) = Inr \<lparr>rq_agent_id = a, rq_workflow_id = w, rq_request_id = r, rq_parent_id = p,
      rq_messages = ms, rq_chat_model = ?m\<rparr>"
    using meta mod
    by (simp add: traverse_messages parse_chat_def with_model_get dict_merge_def assms agent_meta_def)
  have "effective_model cfg ?m = (if truthy model then the model else default_model cfg)"
    by (cases model) (auto simp: effective_model_def truthy_def split: if_splits)
  with gen chat show ?thesis
    by (simp add: client_generate_def client_queued_generate_def client_chat_def)
qed

end
