(* ===== verification/AgentRun.thy ===== *)
theory AgentRun
  imports CodingAgent FleetClient
begin

text \<open>
  A whole run of \<^verbatim>\<open>examples/coding_agent/agent.py\<close>: three chats through the client, between them the
  file tools and the test run of \<^verbatim>\<open>tools.py\<close>. The answers of the gateway, the process that runs pytest
  and the random part of the workflow id are arguments; an exception anywhere ends the run.
\<close>

section \<open>State\<close>

text \<open>
  \<open>ge_post n req\<close> is what \<open>FleetClient\<close> returns for the \<open>n\<close>-th request of the run or the exception it
  raises. \<open>ge_pytest\<close> is the subprocess: return code and the two outputs, or the timeout, and the files
  as it leaves them.
\<close>

record agent_env =
  ge_post :: "nat \<Rightarrow> string \<times> json \<Rightarrow> json result"
  ge_pytest :: "file_system \<Rightarrow> (int \<times> string \<times> string) result \<times> file_system"
  ge_model :: string
  ge_hex :: string

record agent_state =
  ag_fs :: file_system
  ag_sent :: "(string \<times> json) list"

record test_result =
  tr_passed :: bool
  tr_returncode :: int
  tr_output :: string

section \<open>The tools\<close>

definition run_tests :: "agent_env \<Rightarrow> file_system \<Rightarrow> test_result result \<times> file_system" where
  "run_tests env fs =
     (case ge_pytest env fs of
        (Inl e, fs') \<Rightarrow> (Inl e, fs')
      | (Inr (returncode, out, err), fs') \<Rightarrow>
          (Inr \<lparr>tr_passed = (returncode = 0), tr_returncode = returncode, tr_output = out @ err\<rparr>, fs'))"

text \<open>\<open>j[k]\<close> with a string key.\<close>

definition py_item :: "json \<Rightarrow> string \<Rightarrow> json result" where
  "py_item j k =
     (case j of
        JDict d \<Rightarrow> (case map_of d k of None \<Rightarrow> Inl (KeyError k) | Some v \<Rightarrow> Inr v)
      | _ \<Rightarrow> Inl (TypeError (type_name j @ '' indices must not be str'')))"

text \<open>\<open>answer['message']['content'].strip()\<close>\<close>

definition answer_text :: "json \<Rightarrow> string result" where
  "answer_text answer =
     (case py_item answer ''message'' of
        Inl e \<Rightarrow> Inl e
      | Inr m \<Rightarrow>
          (case py_item m ''content'' of
             Inl e \<Rightarrow> Inl e
           | Inr (JStr s) \<Rightarrow> Inr (strip s)
           | Inr v \<Rightarrow> Inl (AttributeError (type_name v @ '' object has no attribute strip''))))"

section \<open>The prompts\<close>

definition coding_agent_id :: string where
  "coding_agent_id = ''reference-coding-agent''"

definition task :: string where
  "task = ''Fix the failing test in calculator.py''"

definition run_workflow_id :: "string \<Rightarrow> string" where
  "run_workflow_id hex = ''coding-task-'' @ take 8 hex"

definition understand_prompt :: string where
  "understand_prompt =
     ''A user asked: '' @ apostrophe # task @ apostrophe # ''. In one short sentence, what needs to be done?''"

definition analyze_prompt :: "string \<Rightarrow> string" where
  "analyze_prompt txt =
     ''Task: '' @ task @ newline @ newline @ ''Here is calculator.py:'' @ newline @ txt @ newline
     @ ''In one short sentence, what'' @ apostrophe # ''s wrong with the add function?''"

definition test_status :: "test_result \<Rightarrow> string" where
  "test_status t = (if tr_passed t then ''PASSED'' else ''FAILED'')"

definition outcome_prompt :: "string \<Rightarrow> string" where
  "outcome_prompt outcome =
     ''Tests '' @ map lower_char outcome @ '' after the fix. Summarize what happened in one sentence.''"

section \<open>The run\<close>

text \<open>One chat of the agent: the request is sent, then the text of the answer is read.\<close>

definition agent_chat :: "agent_env \<Rightarrow> string \<Rightarrow> agent_state \<Rightarrow> string result \<times> agent_state" where
  "agent_chat env prompt s =
     (let req = client_chat [message_json (''user'', prompt)] (Some (ge_model env))
            [(''agent_id'', JStr coding_agent_id), (''workflow_id'', JStr (run_workflow_id (ge_hex env)))];
          s' = s\<lparr>ag_sent := ag_sent s @ [req]\<rparr>
      in case ge_post env (length (ag_sent s)) req of
           Inl e \<Rightarrow> (Inl e, s')
         | Inr answer \<Rightarrow> (answer_text answer, s'))"

record agent_report =
  ar_understanding :: string
  ar_analysis :: string
  ar_applied :: bool
  ar_tests :: test_result
  ar_summary :: string

text \<open>\<open>None\<close>: a path of the file system does not resolve.\<close>

definition finish_run ::
  "agent_env \<Rightarrow> string \<Rightarrow> string \<Rightarrow> bool \<Rightarrow> agent_state \<Rightarrow> agent_report result \<times> agent_state" where
  "finish_run env u a applied s =
     (case run_tests env (ag_fs s) of
        (Inl e, fs) \<Rightarrow> (Inl e, s\<lparr>ag_fs := fs\<rparr>)
      | (Inr t, fs) \<Rightarrow>
          (case agent_chat env (outcome_prompt (test_status t)) (s\<lparr>ag_fs := fs\<rparr>) of
             (Inl e, s') \<Rightarrow> (Inl e, s')
           | (Inr m, s') \<Rightarrow>
               (Inr \<lparr>ar_understanding = u, ar_analysis = a, ar_applied = applied, ar_tests = t, ar_summary = m\<rparr>, s')))"

definition run_agent_task ::
  "agent_env \<Rightarrow> path \<Rightarrow> agent_state \<Rightarrow> (agent_report result \<times> agent_state) option" where
  "run_agent_task env sandbox s =
     (case agent_chat env understand_prompt s of
        (Inl e, s1) \<Rightarrow> Some (Inl e, s1)
      | (Inr u, s1) \<Rightarrow>
          (case read_file (ag_fs s1) sandbox ''calculator.py'' of
             None \<Rightarrow> None
           | Some (Inl e) \<Rightarrow> Some (Inl e, s1)
           | Some (Inr txt) \<Rightarrow>
               (case agent_chat env (analyze_prompt txt) s1 of
                  (Inl e, s2) \<Rightarrow> Some (Inl e, s2)
                | (Inr a, s2) \<Rightarrow>
                    (case apply_fix sandbox txt (ag_fs s2) of
                       None \<Rightarrow> None
                     | Some (Inl e, fs) \<Rightarrow> Some (Inl e, s2\<lparr>ag_fs := fs\<rparr>)
                     | Some (Inr applied, fs) \<Rightarrow> Some (finish_run env u a applied (s2\<lparr>ag_fs := fs\<rparr>))))))"

section \<open>The sandbox repository\<close>

definition calculator_py :: string where
  "calculator_py =
     ''def add(a, b):'' @ newline @ ''    return a - b'' @ newline @ newline @ newline
     @ ''def subtract(a, b):'' @ newline @ ''    return a - b'' @ newline"

definition repaired_py :: string where
  "repaired_py =
     ''def add(a, b):'' @ newline @ ''    return a + b'' @ newline @ newline @ newline
     @ ''def subtract(a, b):'' @ newline @ ''    return a - b'' @ newline"

section \<open>Lemmas\<close>

text \<open>A chat of this agent in the workflow of this run, and one that was answered with a text.\<close>

definition own_request :: "agent_env \<Rightarrow> string \<times> json \<Rightarrow> bool" where
  "own_request env q \<longleftrightarrow> fst q = ''/api/v1/chat'' \<and> (\<exists>rq. parse_chat (snd q) = Inr rq \<and> rq_agent_id rq = Some coding_agent_id
     \<and> rq_workflow_id rq = Some (run_workflow_id (ge_hex env)) \<and> length (rq_messages rq) = 1)"

definition answered :: "agent_env \<Rightarrow> nat \<Rightarrow> string \<times> json \<Rightarrow> bool" where
  "answered env n q \<longleftrightarrow> (\<exists>answer t. ge_post env n q = Inr answer \<and> answer_text answer = Inr t)"

lemma agent_chat_cases:
  assumes "agent_chat env prompt s = (r, s')"
  obtains q where "own_request env q" "s' = s\<lparr>ag_sent := ag_sent s @ [q]\<rparr>" "\<not> isl r \<longleftrightarrow> answered env (length (ag_sent s)) q"
proof -
  let ?q = "client_chat [message_json (''user'', prompt)] (Some (ge_model env))
     [(''agent_id'', JStr coding_agent_id), (''workflow_id'', JStr (run_workflow_id (ge_hex env)))]"
  have "own_request env ?q"
    using agent_chat_arrives [of "[(''user'', prompt)]" "ge_model env"] by (simp add: own_request_def) (simp add: client_chat_def)
  moreover have "s' = s\<lparr>ag_sent := ag_sent s @ [?q]\<rparr>" "\<not> isl r \<longleftrightarrow> answered env (length (ag_sent s)) ?q"
    using assms by (auto simp: agent_chat_def answered_def Let_def split: sum.splits) (metis Inl_Inr_False isl_def old.sum.exhaust)+
  ultimately show thesis by (rule that)
qed

lemma run_tests_cases:
  assumes "run_tests env fs = (r, fs')"
  shows "fs' = snd (ge_pytest env fs)
    \<and> (\<forall>t. r = Inr t \<longrightarrow> (\<exists>out err. fst (ge_pytest env fs) = Inr (tr_returncode t, out, err)
         \<and> tr_output t = out @ err \<and> (tr_passed t \<longleftrightarrow> tr_returncode t = 0)))"
  using assms by (auto simp: run_tests_def split: sum.splits prod.splits)

text \<open>What the run has done when step 4 is over.\<close>

definition repaired :: "path \<Rightarrow> file_system \<Rightarrow> bool \<Rightarrow> file_system \<Rightarrow> bool" where
  "repaired sandbox fs applied fs' \<longleftrightarrow>
     (\<exists>txt. read_file fs sandbox ''calculator.py'' = Some (Inr txt)
        \<and> (if applied then \<exists>a b. txt = a @ buggy_add @ b
                 \<and> read_file fs' sandbox ''calculator.py'' = Some (Inr (a @ fixed_add @ b))
           else fs' = fs \<and> \<not> contains buggy_add txt))
     \<and> (\<forall>p. Some (Inr p) \<noteq> resolve_path fs sandbox ''calculator.py'' \<longrightarrow> map_of (fs_files fs') p = map_of (fs_files fs) p)"

lemma apply_fix_repaired:
  assumes "apply_fix box txt fs = Some (Inr applied, fs')" "read_file fs box ''calculator.py'' = Some (Inr txt)"
  shows "repaired box fs applied fs'"
  using apply_fix_Inr [OF assms] assms(2) by (cases applied) (auto simp: repaired_def)

text \<open>The ways a run ends, in the order of its steps.\<close>

lemma run_cases:
  assumes "run_agent_task env box s = Some (r, s')" "ag_sent s = []"
  obtains
      (early) e q where "r = Inl e" "s' = s\<lparr>ag_sent := [q]\<rparr>" "own_request env q"
    | (asked) e q1 q2 where "r = Inl e" "s' = s\<lparr>ag_sent := [q1, q2]\<rparr>" "own_request env q1" "own_request env q2"
    | (fixed) applied fs q1 q2 u a where "repaired box (ag_fs s) applied fs" "own_request env q1" "own_request env q2"
        "answered env 0 q1" "answered env 1 q2"
        "(r, s') = finish_run env u a applied (s\<lparr>ag_sent := [q1, q2], ag_fs := fs\<rparr>)"
proof -
  obtain r1 s1 where c1: "agent_chat env understand_prompt s = (r1, s1)" by force
  from agent_chat_cases [OF this] obtain q1 where q1: "own_request env q1" "s1 = s\<lparr>ag_sent := [q1]\<rparr>"
      "\<not> isl r1 \<longleftrightarrow> answered env 0 q1" using assms(2) by auto
  show thesis
  proof (cases "\<exists>u txt. r1 = Inr u \<and> read_file (ag_fs s) box ''calculator.py'' = Some (Inr txt)")
    case False
    then have "\<exists>e. r = Inl e \<and> s' = s1" using assms(1) c1 q1(2)
      by (auto simp: run_agent_task_def split: sum.splits option.splits)
    with q1 early show thesis by blast
  next
    case True
    then obtain u src where u: "r1 = Inr u" and src: "read_file (ag_fs s) box ''calculator.py'' = Some (Inr src)" by blast
    obtain r2 s2 where c2: "agent_chat env (analyze_prompt src) s1 = (r2, s2)" by force
    from agent_chat_cases [OF this] obtain q2 where q2: "own_request env q2" "s2 = s\<lparr>ag_sent := [q1, q2]\<rparr>"
        "\<not> isl r2 \<longleftrightarrow> answered env 1 q2" using q1(2) by auto
    show thesis
    proof (cases "\<exists>a applied fs. r2 = Inr a \<and> apply_fix box src (ag_fs s) = Some (Inr applied, fs)")
      case False
      then have "\<exists>e. r = Inl e \<and> s' = s2" using assms(1) c1 c2 u src q1(2) q2(2)
        by (auto simp: run_agent_task_def dest: apply_fix_Inl split: sum.splits option.splits prod.splits)
      with q1 q2 asked show thesis by blast
    next
      case True
      then obtain a applied fs where a: "r2 = Inr a" and f: "apply_fix box src (ag_fs s) = Some (Inr applied, fs)" by blast
      have "Some (r, s') = Some (finish_run env u a applied (s\<lparr>ag_sent := [q1, q2], ag_fs := fs\<rparr>))"
        using assms(1) c1 c2 u a src f q1(2) q2(2) by (simp add: run_agent_task_def)
      then have "(r, s') = finish_run env u a applied (s\<lparr>ag_sent := [q1, q2], ag_fs := fs\<rparr>)" by simp
      with fixed [OF apply_fix_repaired [OF f src] q1(1) q2(1)] q1(3) q2(3) u a show thesis by simp
    qed
  qed
qed

lemma finish_cases:
  assumes "(r, s') = finish_run env u a applied s"
  shows "ag_fs s' = snd (ge_pytest env (ag_fs s))
    \<and> (ag_sent s' = ag_sent s \<and> isl r \<or> (\<exists>q. own_request env q \<and> ag_sent s' = ag_sent s @ [q]
         \<and> (\<not> isl r \<longleftrightarrow> answered env (length (ag_sent s)) q)))
    \<and> (\<forall>rep. r = Inr rep \<longrightarrow> ar_applied rep = applied \<and> (\<exists>fs. run_tests env (ag_fs s) = (Inr (ar_tests rep), fs)))"
proof -
  obtain x fs where t: "run_tests env (ag_fs s) = (x, fs)" by force
  have fs: "fs = snd (ge_pytest env (ag_fs s))" using run_tests_cases [OF t] by simp
  show ?thesis
  proof (cases x)
    case (Inl e)
    then show ?thesis using assms fs by (simp add: finish_run_def t)
  next
    case (Inr tr)
    obtain y s2 where c: "agent_chat env (outcome_prompt (test_status tr)) (s\<lparr>ag_fs := fs\<rparr>) = (y, s2)" by force
    have y: "r = (case y of Inl e \<Rightarrow> Inl e | Inr m \<Rightarrow> Inr \<lparr>ar_understanding = u, ar_analysis = a, ar_applied = applied,
        ar_tests = tr, ar_summary = m\<rparr>)" "s' = s2"
      using assms by (cases y; simp add: finish_run_def t c Inr)+
    from agent_chat_cases [OF c] obtain q where "own_request env q" "s2 = s\<lparr>ag_fs := fs, ag_sent := ag_sent s @ [q]\<rparr>"
        "\<not> isl y \<longleftrightarrow> answered env (length (ag_sent s)) q" by auto
    with y fs t Inr show ?thesis by (cases y; cases q) auto
  qed
qed

text \<open>Answered chats and a test run that ends leave nothing to fail but the files.\<close>

lemma agent_chat_answered:
  assumes "\<forall>n q. answered env n q"
  shows "\<exists>t q. agent_chat env prompt s = (Inr t, s\<lparr>ag_sent := ag_sent s @ [q]\<rparr>)"
proof -
  obtain x s' where c: "agent_chat env prompt s = (x, s')" by force
  from agent_chat_cases [OF this] obtain q where "s' = s\<lparr>ag_sent := ag_sent s @ [q]\<rparr>" "\<not> isl x"
    using assms by (meson assms)
  then show ?thesis using c by (cases x; cases q) auto
qed

lemma run_completes:
  assumes chats: "\<forall>n q. answered env n q" and tests: "\<forall>fs. \<exists>code out err. ge_pytest env fs = (Inr (code, out, err), fs)"
    and src: "read_file (ag_fs s) box ''calculator.py'' = Some (Inr src)"
    and f: "apply_fix box src (ag_fs s) = Some (Inr applied, fs)"
  shows "\<exists>rep s'. run_agent_task env box s = Some (Inr rep, s') \<and> ar_applied rep = applied \<and> ag_fs s' = fs"
proof -
  obtain u q1 where c1: "agent_chat env understand_prompt s = (Inr u, s\<lparr>ag_sent := ag_sent s @ [q1]\<rparr>)"
    using agent_chat_answered [OF chats] by blast
  let ?s1 = "s\<lparr>ag_sent := ag_sent s @ [q1]\<rparr>"
  obtain a q2 where c2: "agent_chat env (analyze_prompt src) ?s1 = (Inr a, ?s1\<lparr>ag_sent := ag_sent ?s1 @ [q2]\<rparr>)"
    using agent_chat_answered [OF chats] by blast
  let ?s2 = "?s1\<lparr>ag_sent := ag_sent ?s1 @ [q2]\<rparr>"
  obtain t where t: "run_tests env fs = (Inr t, fs)" 
  proof -
    obtain code out err where "ge_pytest env fs = (Inr (code, out, err), fs)" using tests by blast
    then show thesis by (intro that) (simp add: run_tests_def)
  qed
  obtain m q3 where c3: "agent_chat env (outcome_prompt (test_status t)) (?s2\<lparr>ag_fs := fs\<rparr>) =
      (Inr m, ?s2\<lparr>ag_fs := fs\<rparr>\<lparr>ag_sent := ag_sent (?s2\<lparr>ag_fs := fs\<rparr>) @ [q3]\<rparr>)"
    using agent_chat_answered [OF chats] by blast
  have "run_agent_task env box s = Some (finish_run env u a applied (?s2\<lparr>ag_fs := fs\<rparr>))"
    unfolding run_agent_task_def c1 using src f c2 by simp
  moreover have "finish_run env u a applied (?s2\<lparr>ag_fs := fs\<rparr>) =
      (Inr \<lparr>ar_understanding = u, ar_analysis = a, ar_applied = applied, ar_tests = t, ar_summary = m\<rparr>,
       ?s2\<lparr>ag_fs := fs\<rparr>\<lparr>ag_sent := ag_sent (?s2\<lparr>ag_fs := fs\<rparr>) @ [q3]\<rparr>)"
    unfolding finish_run_def using t c3 by simp
  ultimately show ?thesis by simp
qed

lemma calculator_bug: "contains buggy_add calculator_py" "\<not> contains buggy_add repaired_py"
    "replace_first buggy_add fixed_add calculator_py = repaired_py"
  by code_simp+

section \<open>Properties\<close>

text \<open>
  C28. However a run of the coding agent ends, it has sent at most three chats, all of them as this agent
  in the one workflow of the run. Before the test run no file is touched until the first two chats were answered, and
  then only the file \<open>calculator.py\<close>, whose first buggy function is replaced when it is still there; a run that succeeds
  sent three answered chats and reports the result pytest gave on the files it left.
\<close>

theorem agent_run_safe:
  assumes "run_agent_task env box s = Some (r, s')" and "ag_sent s = []"
  shows "length (ag_sent s') \<le> 3 \<and> (\<forall>q \<in> set (ag_sent s'). own_request env q)
    \<and> (ag_fs s' = ag_fs s
       \<or> (2 \<le> length (ag_sent s') \<and> (\<forall>i < 2. answered env i (ag_sent s' ! i))
          \<and> (\<exists>applied fs. repaired box (ag_fs s) applied fs \<and> ag_fs s' = snd (ge_pytest env fs))))
    \<and> (\<forall>rep. r = Inr rep \<longrightarrow> length (ag_sent s') = 3 \<and> (\<forall>i < 3. answered env i (ag_sent s' ! i))
         \<and> (\<exists>fs out err. repaired box (ag_fs s) (ar_applied rep) fs \<and> ag_fs s' = snd (ge_pytest env fs)
              \<and> fst (ge_pytest env fs) = Inr (tr_returncode (ar_tests rep), out, err)
              \<and> (tr_passed (ar_tests rep) \<longleftrightarrow> tr_returncode (ar_tests rep) = 0)))"
  using assms
proof (cases rule: run_cases)
  case (fixed applied fs q1 q2 u a)
  note f = finish_cases [OF fixed(6)]
  have two: "answered env i ([q1, q2] ! i)" if "i < 2" for i using that fixed(4,5) by (auto simp: less_2_cases_iff)
  consider (stop) "ag_sent s' = [q1, q2]" "isl r"
    | (sent) q where "own_request env q" "ag_sent s' = [q1, q2, q]" "\<not> isl r \<longleftrightarrow> answered env 2 q"
    using f by (auto simp: numeral_2_eq_2)
  then show ?thesis
  proof cases
    case stop
    then show ?thesis using f fixed(1-3) two by auto
  next
    case sent
    have third: "answered env i ([q1, q2, q] ! i)" if "i < 3" "\<not> isl r" for i
      using that sent(3) fixed(4,5) by (auto simp: numeral_3_eq_3 numeral_2_eq_2 less_Suc_eq)
    have "\<exists>out err. fst (ge_pytest env fs) = Inr (tr_returncode (ar_tests rep), out, err)
        \<and> (tr_passed (ar_tests rep) \<longleftrightarrow> tr_returncode (ar_tests rep) = 0)" if "r = Inr rep" for rep
      using f that run_tests_cases by fastforce
    moreover have "ar_applied rep = applied" if "r = Inr rep" for rep using f that by blast
    moreover have "ag_fs s' = snd (ge_pytest env fs)" using f by simp
    moreover have "answered env i (ag_sent s' ! i)" if "i < 2" for i
      using two [OF that] that by (auto simp: sent(2) less_2_cases_iff)
    ultimately show ?thesis using sent fixed(1-3) third by (intro conjI) auto
  qed
qed auto

definition demo_env :: agent_env where
  "demo_env = \<lparr>ge_post = (\<lambda>n q. Inr (JDict [(''message'', JDict [(''content'', JStr '' ok '')])])),
     ge_pytest = (\<lambda>fs. (Inr (0, ''2 passed'', []), fs)), ge_model = ''m'', ge_hex = ''0a1b2c3d''\<rparr>"

definition demo_repo :: file_system where
  "demo_repo = \<lparr>fs_files = [([''box'', ''calculator.py''], calculator_py)], fs_dirs = [[], [''box'']], fs_links = []\<rparr>"

lemma demo_answered: "answered demo_env n q"
  by (simp add: answered_def demo_env_def answer_text_def py_item_def)

lemma demo_read: "read_file demo_repo [''box''] ''calculator.py'' = Some (Inr calculator_py)"
  by (simp add: read_file_def resolve_path_def read_text_def demo_repo_def links_of_def is_absolute_def path_parts_def realpath.simps)

lemma demo_write: "write_file [''box''] ''calculator.py'' x demo_repo =
    Some (Inr (), demo_repo\<lparr>fs_files := AList.update [''box'', ''calculator.py''] x (fs_files demo_repo)\<rparr>)"
  by (simp add: write_file_def resolve_path_def write_text_def demo_repo_def links_of_def is_absolute_def path_parts_def realpath.simps)

theorem agent_run_safe_witness:
  "\<exists>rep s'. run_agent_task demo_env [''box''] \<lparr>ag_fs = demo_repo, ag_sent = []\<rparr> = Some (Inr rep, s')
     \<and> ar_applied rep \<and> length (ag_sent s') = 3 \<and> (\<forall>q \<in> set (ag_sent s'). own_request demo_env q)"
proof -
  have "\<forall>fs. \<exists>code out err. ge_pytest demo_env fs = (Inr (code, out, err), fs)" by (simp add: demo_env_def)
  moreover have "apply_fix [''box''] calculator_py demo_repo = Some (Inr True,
      demo_repo\<lparr>fs_files := AList.update [''box'', ''calculator.py''] repaired_py (fs_files demo_repo)\<rparr>)"
    by (simp add: apply_fix_def calculator_bug demo_write)
  ultimately obtain rep s' where run: "run_agent_task demo_env [''box''] \<lparr>ag_fs = demo_repo, ag_sent = []\<rparr> = Some (Inr rep, s')"
      "ar_applied rep"
    using run_completes [of demo_env "\<lparr>ag_fs = demo_repo, ag_sent = []\<rparr>" "[''box'']" calculator_py True] demo_answered demo_read
    by auto
  from agent_run_safe [OF run(1)] run show ?thesis by auto
qed



end
