(* ===== verification/Serving.thy ===== *)
theory Serving
  imports FleetClient
begin

text \<open>
  The synchronous routes serving many callers at once. A request is what a client sends: path and body;
  it is read by the request model of its route and runs up to the await of the worker's answer. Then
  other requests may arrive and other answers may come back, in any order; the answer of a running
  request ends its route. Background compression and the queue are not part of these histories.
\<close>

section \<open>Requests\<close>

datatype parsed_request = Generate generate_request | Chat chat_request

definition not_found :: py_exc where
  "not_found = HTTPException 404 ''Not Found''"

definition parse_request :: "string \<times> json \<Rightarrow> parsed_request result" where
  "parse_request req =
     (if fst req = ''/api/v1/generate'' then map_sum id Generate (parse_generate (snd req))
      else if fst req = ''/api/v1/chat'' then map_sum id Chat (parse_chat (snd req))
      else Inl not_found)"

fun request_text :: "parsed_request \<Rightarrow> string" where
  "request_text (Generate rq) = rq_prompt rq"
| "request_text (Chat rq) = chat_text rq"

fun request_workflow :: "parsed_request \<Rightarrow> string option" where
  "request_workflow (Generate rq) = rq_workflow_id rq"
| "request_workflow (Chat rq) = rq_workflow_id rq"

text \<open>What arrives, with the random id, the ids and clocks of the item it may record, and the clocks of the balancer.\<close>

record arrival =
  av_request :: "string \<times> json"
  av_key :: "string option"
  av_uuid :: string
  av_stamp :: stamp
  av_now1 :: real
  av_now2 :: real

section \<open>Histories\<close>

text \<open>A request that waits for its worker: its kind, metadata and client.\<close>

record running_call =
  rc_request :: parsed_request
  rc_meta :: "json pydict"
  rc_client :: client

text \<open>\<open>sv_log\<close> lists, in the order of admission, the calls that were started.\<close>

record 's serving =
  sv_gateway :: "'s gateway"
  sv_running :: "running_call list"
  sv_log :: "running_call list"

datatype serve_event = Arrives arrival | Answers nat call_end

definition begin_request ::
  "gw_settings \<Rightarrow> arrival \<Rightarrow> 's gateway \<Rightarrow> running_call result \<times> 's gateway" where
  "begin_request cfg a g =
     (case parse_request (av_request a) of
        Inl e \<Rightarrow> (Inl e, g)
      | Inr p \<Rightarrow>
          (case (case p of
                   Generate rq \<Rightarrow> generate_begin cfg (av_uuid a) (av_stamp a) (av_now1 a) (av_now2 a) (av_key a) rq g
                 | Chat rq \<Rightarrow> chat_begin cfg (av_uuid a) (av_stamp a) (av_now1 a) (av_now2 a) (av_key a) rq g) of
             (Inl e, g') \<Rightarrow> (Inl e, g')
           | (Inr (m, w, body), g') \<Rightarrow> (Inr \<lparr>rc_request = p, rc_meta = m, rc_client = w\<rparr>, g')))"

definition end_request :: "call_end \<Rightarrow> running_call \<Rightarrow> 's gateway \<Rightarrow> json pydict result \<times> 's gateway" where
  "end_request c r g =
     (case rc_request r of
        Generate _ \<Rightarrow> generate_end c (rc_meta r) (rc_client r) g
      | Chat _ \<Rightarrow> chat_end c (rc_meta r) (rc_client r) g)"

fun serve_step :: "gw_settings \<Rightarrow> serve_event \<Rightarrow> 's serving \<Rightarrow> 's serving" where
  "serve_step cfg (Arrives a) s =
     (case begin_request cfg a (sv_gateway s) of
        (Inl e, g) \<Rightarrow> s\<lparr>sv_gateway := g\<rparr>
      | (Inr r, g) \<Rightarrow> s\<lparr>sv_gateway := g, sv_running := sv_running s @ [r], sv_log := sv_log s @ [r]\<rparr>)"
| "serve_step cfg (Answers i c) s =
     (if i < length (sv_running s)
      then s\<lparr>sv_gateway := snd (end_request c (sv_running s ! i) (sv_gateway s)),
             sv_running := take i (sv_running s) @ drop (Suc i) (sv_running s)\<rparr>
      else s)"

definition serve :: "gw_settings \<Rightarrow> serve_event list \<Rightarrow> 's gateway \<Rightarrow> 's serving" where
  "serve cfg es g = fold (serve_step cfg) es \<lparr>sv_gateway = g, sv_running = [], sv_log = []\<rparr>"

section \<open>Lemmas\<close>

abbreviation gw_store :: "'s gateway \<Rightarrow> context_store" where
  "gw_store g \<equiv> cm_store (gw_cm g)"

definition log_texts :: "string \<Rightarrow> running_call list \<Rightarrow> string list" where
  "log_texts v calls = map (request_text \<circ> rc_request) (filter (\<lambda>r. request_workflow (rc_request r) = Some v) calls)"

lemma log_texts_snoc:
  "log_texts v (calls @ [r]) = log_texts v calls @
     (if request_workflow (rc_request r) = Some v then [request_text (rc_request r)] else [])"
  by (simp add: log_texts_def)

text \<open>Both routes are the common beginning with their text.\<close>

lemma begin_request_Inr:
  assumes "lb_inv (gw_lb g)" "store_inv (gw_store g)" "items (gw_store g) (fresh_id (av_stamp a)) = None"
    and "begin_request cfg a g = (Inr r, g')"
  obtains it where "content it = request_text (rc_request r)" "token_count it = estimate_tokens (request_text (rc_request r))"
    "\<And>v. workflow_items (gw_store g') v = workflow_items (gw_store g) v
       @ (if request_workflow (rc_request r) = Some v \<and> v \<noteq> [] then [it] else [])"
    "\<And>v. request_workflow (rc_request r) = Some v \<Longrightarrow>
       cm_total_tokens (gw_cm g) v + estimate_tokens (request_text (rc_request r)) \<le> max_context_tokens (rc_client r)"
    "store_inv (gw_store g')" "lb_inv (gw_lb g')"
    "dom (items (gw_store g')) \<subseteq> insert (fresh_id (av_stamp a)) (dom (items (gw_store g)))"
proof -
  obtain p where p: "parse_request (av_request a) = Inr p" "rc_request r = p"
    using assms(4) by (auto simp: begin_request_def split: sum.splits prod.splits)
  show thesis
  proof (cases p)
    case (Generate rq)
    obtain m w where b: "route_begin cfg ''/generate'' (av_uuid a) (av_stamp a) (av_now1 a) (av_now2 a) (av_key a) rq (rq_prompt rq) g
        = (Inr (m, w), g')" "rc_client r = w"
      using assms(4) p(1) Generate
      by (auto simp: begin_request_def generate_begin_def with_body_def split: sum.splits prod.splits)
    have q: "request_text (rc_request r) = rq_prompt rq" "request_workflow (rc_request r) = rq_workflow_id rq"
      by (simp_all add: p(2) Generate)
    show thesis
      by (rule route_begin_admits [OF assms(1-3) b(1)], rule that, unfold q b(2)) (simp_all only:)
  next
    case (Chat rq)
    obtain m w where b: "route_begin cfg ''/chat'' (av_uuid a) (av_stamp a) (av_now1 a) (av_now2 a) (av_key a) rq (chat_text rq) g
        = (Inr (m, w), g')" "rc_client r = w"
      using assms(4) p(1) Chat
      by (auto simp: begin_request_def chat_begin_def with_body_def split: sum.splits prod.splits)
    have q: "request_text (rc_request r) = chat_text rq" "request_workflow (rc_request r) = rq_workflow_id rq"
      by (simp_all add: p(2) Chat)
    show thesis
      by (rule route_begin_admits [OF assms(1-3) b(1)], rule that, unfold q b(2)) (simp_all only:)
  qed
qed

lemma begin_request_Inl:
  assumes "lb_inv (gw_lb g)" "begin_request cfg a g = (Inl e, g')"
  shows "gw_cm g' = gw_cm g" "lb_inv (gw_lb g')"
proof -
  have "g' = g \<or> (\<exists>ep rq t e'. route_begin cfg ep (av_uuid a) (av_stamp a) (av_now1 a) (av_now2 a) (av_key a)
      (rq :: generate_request) t g = (Inl e', g'))
    \<or> (\<exists>ep rq t e'. route_begin cfg ep (av_uuid a) (av_stamp a) (av_now1 a) (av_now2 a) (av_key a)
      (rq :: chat_request) t g = (Inl e', g'))"
    using assms(2)
    by (auto simp: begin_request_def generate_begin_def chat_begin_def with_body_def
        split: sum.splits prod.splits parsed_request.splits)
  then show "gw_cm g' = gw_cm g" "lb_inv (gw_lb g')"
    using assms(1) by (auto dest: route_begin_refuses [OF assms(1)])
qed

lemma end_request_keeps:
  assumes "lb_inv (gw_lb g)"
  shows "gw_cm (snd (end_request c r g)) = gw_cm g" "lb_inv (gw_lb (snd (end_request c r g)))"
  using route_end_keeps [OF assms]
  by (simp_all add: end_request_def generate_end_def chat_end_def split: parsed_request.split)

text \<open>The ids the items of a history would get.\<close>

fun event_ids :: "serve_event \<Rightarrow> string list" where
  "event_ids (Arrives a) = [fresh_id (av_stamp a)]"
| "event_ids (Answers i c) = []"

definition tokens_of :: "string list \<Rightarrow> int" where
  "tokens_of ts = sum_by estimate_tokens ts"

definition serve_inv :: "'s gateway \<Rightarrow> string set \<Rightarrow> 's serving \<Rightarrow> bool" where
  "serve_inv g used s \<longleftrightarrow>
     lb_inv (gw_lb (sv_gateway s)) \<and> store_inv (gw_store (sv_gateway s))
     \<and> dom (items (gw_store (sv_gateway s))) \<subseteq> dom (items (gw_store g)) \<union> used
     \<and> (\<forall>v. v \<noteq> [] \<longrightarrow>
          map content (workflow_items (gw_store (sv_gateway s)) v) = map content (workflow_items (gw_store g) v) @ log_texts v (sv_log s)
          \<and> cm_total_tokens (gw_cm (sv_gateway s)) v = cm_total_tokens (gw_cm g) v + tokens_of (log_texts v (sv_log s))
          \<and> (\<forall>i < length (sv_log s). request_workflow (rc_request (sv_log s ! i)) = Some v \<longrightarrow>
               cm_total_tokens (gw_cm g) v + tokens_of (log_texts v (take (Suc i) (sv_log s)))
                 \<le> max_context_tokens (rc_client (sv_log s ! i))))"

lemma serve_inv_start: "lb_inv (gw_lb g) \<Longrightarrow> store_inv (gw_store g) \<Longrightarrow> serve_inv g {} \<lparr>sv_gateway = g, sv_running = [], sv_log = []\<rparr>"
  by (simp add: serve_inv_def log_texts_def tokens_of_def)

lemma serve_inv_same:
  assumes "serve_inv g used s" "gw_cm g' = gw_cm (sv_gateway s)" "lb_inv (gw_lb g')" "used \<subseteq> used'"
  shows "serve_inv g used' (s\<lparr>sv_gateway := g'\<rparr>)" "serve_inv g used' (s\<lparr>sv_gateway := g', sv_running := rs\<rparr>)"
  using assms unfolding serve_inv_def by auto

lemma serve_inv_admit:
  assumes "serve_inv g used s" "begin_request cfg a (sv_gateway s) = (Inr r, g')"
    and "fresh_id (av_stamp a) \<notin> used" "items (gw_store g) (fresh_id (av_stamp a)) = None"
  shows "serve_inv g (insert (fresh_id (av_stamp a)) used)
    (s\<lparr>sv_gateway := g', sv_running := sv_running s @ [r], sv_log := sv_log s @ [r]\<rparr>)"
proof -
  have inv: "lb_inv (gw_lb (sv_gateway s))" "store_inv (gw_store (sv_gateway s))"
    and dom: "dom (items (gw_store (sv_gateway s))) \<subseteq> dom (items (gw_store g)) \<union> used"
    using assms(1) by (simp_all add: serve_inv_def)
  have "items (gw_store (sv_gateway s)) (fresh_id (av_stamp a)) = None" using dom assms(3,4) by auto
  from begin_request_Inr [OF inv this assms(2)] obtain it where
    it: "content it = request_text (rc_request r)" "token_count it = estimate_tokens (request_text (rc_request r))"
    and list: "\<And>v. workflow_items (gw_store g') v = workflow_items (gw_store (sv_gateway s)) v
       @ (if request_workflow (rc_request r) = Some v \<and> v \<noteq> [] then [it] else [])"
    and fits: "\<And>v. request_workflow (rc_request r) = Some v \<Longrightarrow>
       cm_total_tokens (gw_cm (sv_gateway s)) v + estimate_tokens (request_text (rc_request r)) \<le> max_context_tokens (rc_client r)"
    and inv': "store_inv (gw_store g')" "lb_inv (gw_lb g')"
    and dom': "dom (items (gw_store g')) \<subseteq> insert (fresh_id (av_stamp a)) (dom (items (gw_store (sv_gateway s))))"
    by metis
  let ?l = "sv_log s"
  have total: "cm_total_tokens (gw_cm g') v = cm_total_tokens (gw_cm (sv_gateway s)) v
      + (if request_workflow (rc_request r) = Some v then estimate_tokens (request_text (rc_request r)) else 0)" if "v \<noteq> []" for v
    using list [of v] that it(2) by (simp add: cm_total_tokens_def total_eq)
  have old: "map content (workflow_items (gw_store (sv_gateway s)) v) = map content (workflow_items (gw_store g) v) @ log_texts v ?l"
    "cm_total_tokens (gw_cm (sv_gateway s)) v = cm_total_tokens (gw_cm g) v + tokens_of (log_texts v ?l)"
    "\<And>i. i < length ?l \<Longrightarrow> request_workflow (rc_request (?l ! i)) = Some v \<Longrightarrow>
       cm_total_tokens (gw_cm g) v + tokens_of (log_texts v (take (Suc i) ?l)) \<le> max_context_tokens (rc_client (?l ! i))"
    if "v \<noteq> []" for v
    using assms(1) that by (simp_all add: serve_inv_def)
  have "map content (workflow_items (gw_store g') v) = map content (workflow_items (gw_store g) v) @ log_texts v (?l @ [r])"
    if "v \<noteq> []" for v
    using old(1) [OF that] list [of v] that it(1) by (simp add: log_texts_snoc)
  moreover have "cm_total_tokens (gw_cm g') v = cm_total_tokens (gw_cm g) v + tokens_of (log_texts v (?l @ [r]))" if "v \<noteq> []" for v
    using old(2) [OF that] total [OF that] it(1) by (simp add: log_texts_snoc tokens_of_def)
  moreover have "cm_total_tokens (gw_cm g) v + tokens_of (log_texts v (take (Suc i) (?l @ [r]))) \<le> max_context_tokens (rc_client ((?l @ [r]) ! i))"
    if "v \<noteq> []" "i < length (?l @ [r])" "request_workflow (rc_request ((?l @ [r]) ! i)) = Some v" for v i
  proof (cases "i < length ?l")
    case True
    then show ?thesis using old(3) [OF that(1) True] that(3) by (simp add: nth_append)
  next
    case False
    then have "i = length ?l" using that(2) by simp
    then show ?thesis using fits [of v] old(2) [OF that(1)] that(3) it(1) by (simp add: log_texts_snoc tokens_of_def)
  qed
  moreover have "dom (items (gw_store g')) \<subseteq> dom (items (gw_store g)) \<union> insert (fresh_id (av_stamp a)) used"
    using dom dom' by blast
  ultimately show ?thesis using inv' unfolding serve_inv_def by simp
qed

lemma serve_step_inv:
  assumes "serve_inv g used s" "set (event_ids e) \<inter> used = {}" "\<forall>i \<in> set (event_ids e). items (gw_store g) i = None"
  shows "serve_inv g (used \<union> set (event_ids e)) (serve_step cfg e s)"
proof (cases e)
  case (Arrives a)
  obtain x g' where b: "begin_request cfg a (sv_gateway s) = (x, g')" by force
  have inv: "lb_inv (gw_lb (sv_gateway s))" using assms(1) by (simp add: serve_inv_def)
  show ?thesis
  proof (cases x)
    case (Inl err)
    then show ?thesis
      using serve_inv_same(1) [OF assms(1)] begin_request_Inl [OF inv] b by (simp add: Arrives subset_insertI)
  next
    case (Inr r)
    then show ?thesis using serve_inv_admit [OF assms(1), of cfg a r g'] b assms(2,3) by (simp add: Arrives)
  qed
next
  case (Answers i c)
  have inv: "lb_inv (gw_lb (sv_gateway s))" using assms(1) by (simp add: serve_inv_def)
  show ?thesis
    using serve_inv_same(2) [OF assms(1)] end_request_keeps [OF inv] assms(1) by (simp add: Answers)
qed

lemma serve_run_inv:
  assumes "lb_inv (gw_lb g)" "store_inv (gw_store g)" "distinct (concat (map event_ids es))"
    and "\<forall>i \<in> set (concat (map event_ids es)). items (gw_store g) i = None"
  shows "serve_inv g (set (concat (map event_ids es))) (serve cfg es g)"
  using assms(3,4)
proof (induction es rule: rev_induct)
  case Nil
  then show ?case using serve_inv_start [OF assms(1,2)] by (simp add: serve_def)
next
  case (snoc e es)
  then have "serve_inv g (set (concat (map event_ids es))) (serve cfg es g)" by simp
  from serve_step_inv [OF this, of e cfg] snoc.prems show ?case by (simp add: serve_def Int_commute)
qed

section \<open>Properties\<close>

text \<open>
  C9. The context of a workflow under any interleaving of requests and answers. It holds, after what it held before and
  in the order of admission, the text of every request of the workflow that was admitted, answered or not, and of no
  other; its tokens are those of these texts; and every worker that was given a request has room for
  all of the workflow admitted up to then.
\<close>

theorem serving_context_exact:
  assumes "lb_reachable (gw_lb g)" and "store_inv (gw_store g)" and "distinct (concat (map event_ids es))"
    and "\<forall>i \<in> set (concat (map event_ids es)). items (gw_store g) i = None" and "v \<noteq> []" and "s = serve cfg es g"
  shows "map content (workflow_items (gw_store (sv_gateway s)) v) =
      map content (workflow_items (gw_store g) v) @ log_texts v (sv_log s)
    \<and> cm_total_tokens (gw_cm (sv_gateway s)) v = cm_total_tokens (gw_cm g) v + tokens_of (log_texts v (sv_log s))
    \<and> (\<forall>i < length (sv_log s). request_workflow (rc_request (sv_log s ! i)) = Some v \<longrightarrow>
         cm_total_tokens (gw_cm g) v + tokens_of (log_texts v (take (Suc i) (sv_log s)))
           \<le> max_context_tokens (rc_client (sv_log s ! i)))"
  using serve_run_inv [OF lb_reachable_inv [OF assms(1)] assms(2-4), of cfg] assms(5) unfolding assms(6) serve_inv_def by blast

definition demo_arrival :: "string \<Rightarrow> string \<Rightarrow> arrival" where
  "demo_arrival i x = \<lparr>av_request = client_chat [message_json (''user'', x)] None [(''agent_id'', JStr ''a''), (''workflow_id'', JStr ''w'')],
     av_key = Some ''secret'', av_uuid = i, av_stamp = \<lparr>fresh_id = i, clock1 = 1, clock2 = 1\<rparr>, av_now1 = 1, av_now2 = 1\<rparr>"

definition demo_history :: "serve_event list" where
  "demo_history = [Arrives (demo_arrival ''m1'' ''one''), Arrives (demo_arrival ''m2'' ''two''),
     Answers 1 (demo_end (Raised ''timeout''))]"

lemma demo_log: "log_texts ''w'' (sv_log (serve demo_settings demo_history (demo_gateway [''a'']))) = [''one'', ''two'']"
  by code_simp

theorem serving_context_exact_witness:
  "map content (workflow_items (gw_store (sv_gateway (serve demo_settings demo_history (demo_gateway [''a''])))) ''w'') = [''one'', ''two'']"
proof -
  have "lb_reachable (gw_lb (demo_gateway [''a'']))" by (simp add: demo_gateway_def demo_world_def demo_reachable)
  moreover have "store_inv (gw_store (demo_gateway [''a'']))" by (simp add: demo_gateway_def demo_world_def demo_manager_inv)
  moreover have "distinct (concat (map event_ids demo_history))" by (simp add: demo_history_def demo_arrival_def)
  moreover have "\<forall>i \<in> set (concat (map event_ids demo_history)). items (gw_store (demo_gateway [''a''])) i = None"
    by code_simp
  moreover have "workflow_items (gw_store (demo_gateway [''a''])) ''w'' = []"
    by code_simp
  ultimately show ?thesis
    using serving_context_exact [of "demo_gateway [''a'']" demo_history "''w''" _ demo_settings, OF _ _ _ _ _ refl] demo_log by simp
qed

end
