(* ===== verification/SmokeTest.thy ===== *)
theory SmokeTest
  imports FleetClient
begin

text \<open>
  \<^verbatim>\<open>scripts/smoke_test.py\<close> against the gateway: the calls it makes, one after the other, the checks it applies
  to the responses, and its exit status. A route's value becomes a response with status 200, an
  \<open>HTTPException\<close> one with its status and detail, any other exception a 500. The text of \<^verbatim>\<open>/metrics\<close> is
  Prometheus's and an argument.
\<close>

section \<open>Calls and responses\<close>

record http_response =
  hs_status :: nat
  hs_body :: json

definition respond :: "json result \<Rightarrow> http_response" where
  "respond r =
     (case r of
        Inr j \<Rightarrow> \<lparr>hs_status = 200, hs_body = j\<rparr>
      | Inl (HTTPException st d) \<Rightarrow> \<lparr>hs_status = st, hs_body = JDict [(''detail'', JStr d)]\<rparr>
      | Inl e \<Rightarrow> \<lparr>hs_status = 500, hs_body = JStr ''Internal Server Error''\<rparr>)"

datatype smoke_call =
    GetHealth
  | PostGenerate "string option" json
  | GetWorkers "string option"
  | GetQueueDepth "string option"
  | GetMetrics
  | PostChat "string option" json
  | PostQueued "string option" json

text \<open>What one call meets: ids, clocks, probes, the worker's answer, the queue workers; or the client's timeout.\<close>

record 's smoke_env =
  se_uuid :: string
  se_stamp :: stamp
  se_now :: real
  se_probe :: "nat \<Rightarrow> probe_outcome"
  se_running :: int
  se_end :: call_end
  se_others :: "nat \<Rightarrow> 's \<Rightarrow> 's"
  se_timed_out :: bool

definition row_json :: "stats_row \<Rightarrow> json" where
  "row_json r = JDict [(''url'', JStr (row_url r)), (''healthy'', JBool (row_healthy r)), (''active_requests'', JInt (row_active r)),
     (''total_requests'', JInt (row_total r)), (''avg_latency_ms'', row_latency_ms r), (''failures'', JInt (row_failures r)),
     (''circuit_state'', JStr (row_circuit r))]"

definition health_json :: "health_report \<Rightarrow> json" where
  "health_json h = JDict [(''status'', JStr ''ok''), (''queue_depth'', JInt (int (hr_queue_depth h))),
     (''worker_count'', JInt (hr_worker_count h)), (''workers'', JList (map row_json (hr_workers h)))]"

text \<open>The two steps of a route that calls a worker, with nothing in between.\<close>

definition whole_call ::
  "(call_end \<Rightarrow> json pydict \<Rightarrow> client \<Rightarrow> 's gateway \<Rightarrow> json pydict result \<times> 's gateway) \<Rightarrow> call_end
     \<Rightarrow> (json pydict \<times> client \<times> json) result \<times> 's gateway \<Rightarrow> json result \<times> 's gateway" where
  "whole_call ending c p =
     (case p of
        (Inl e, g) \<Rightarrow> (Inl e, g)
      | (Inr (m, w, body), g) \<Rightarrow> map_prod (map_sum id JDict) id (ending c m w g))"

definition smoke_answer ::
  "'s redis \<Rightarrow> pool_config \<Rightarrow> gw_settings \<Rightarrow> ('s gateway \<Rightarrow> string) \<Rightarrow> 's smoke_env \<Rightarrow> smoke_call \<Rightarrow> 's gateway
     \<Rightarrow> json result \<times> 's gateway" where
  "smoke_answer rd pc cfg prom env call g =
     (case call of
        GetHealth \<Rightarrow> map_prod (map_sum id health_json) id (health rd pc (se_probe env) (se_running env) g)
      | GetWorkers key \<Rightarrow> map_prod (map_sum id (\<lambda>rs. JList (map row_json rs))) id (workers_route cfg (se_probe env) key g)
      | GetQueueDepth key \<Rightarrow>
          map_prod (map_sum id (\<lambda>d. JDict [(''queue_depth'', JInt (int d))])) id (queue_depth_route rd pc cfg key g)
      | GetMetrics \<Rightarrow> (Inr (JStr (prom g)), g)
      | PostGenerate key body \<Rightarrow>
          (case parse_generate body of
             Inl e \<Rightarrow> (Inl e, g)
           | Inr rq \<Rightarrow> whole_call generate_end (se_end env)
               (generate_begin cfg (se_uuid env) (se_stamp env) (se_now env) (se_now env) key rq g))
      | PostChat key body \<Rightarrow>
          (case parse_chat body of
             Inl e \<Rightarrow> (Inl e, g)
           | Inr rq \<Rightarrow> whole_call chat_end (se_end env)
               (chat_begin cfg (se_uuid env) (se_stamp env) (se_now env) (se_now env) key rq g))
      | PostQueued key body \<Rightarrow>
          (case parse_generate body of
             Inl e \<Rightarrow> (Inl e, g)
           | Inr rq \<Rightarrow>
               (case queued_begin rd pc cfg (se_uuid env) key rq g of
                  (Inl e, g') \<Rightarrow> (Inl e, g')
                | (Inr m, g') \<Rightarrow> map_prod (map_sum id JDict) id (queued_end rd pc (se_others env) m g'))))"

section \<open>The checks\<close>

text \<open>\<open>k in j\<close>\<close>

definition json_in :: "string \<Rightarrow> json \<Rightarrow> bool result" where
  "json_in k j =
     (case j of
        JDict d \<Rightarrow> Inr (map_of d k \<noteq> None)
      | JList xs \<Rightarrow> Inr (JStr k \<in> set xs)
      | JStr s \<Rightarrow> Inr (contains k s)
      | _ \<Rightarrow> Inl (TypeError ''argument is not iterable''))"

definition check_has :: "string \<Rightarrow> http_response \<Rightarrow> bool result" where
  "check_has k r = (if hs_status r = 200 then json_in k (hs_body r) else Inr False)"

definition check_status :: "nat \<Rightarrow> http_response \<Rightarrow> bool result" where
  "check_status n r = Inr (hs_status r = n)"

definition check_list :: "http_response \<Rightarrow> bool result" where
  "check_list r = Inr (hs_status r = 200 \<and> (case hs_body r of JList _ \<Rightarrow> True | _ \<Rightarrow> False))"

text \<open>A check: its name, its call, the test of the response, and whether a timeout is caught.\<close>

record smoke_check =
  sk_name :: string
  sk_call :: smoke_call
  sk_test :: "http_response \<Rightarrow> bool result"
  sk_catches :: bool

definition say_ok :: "string \<Rightarrow> json" where
  "say_ok model = JDict [(''prompt'', JStr ''Say OK.''), (''model'', JStr model)]"

definition say_ok_chat :: "string \<Rightarrow> json" where
  "say_ok_chat model = JDict [(''messages'', JList [message_json (''user'', ''Say OK.'')]), (''model'', JStr model)]"

definition wiring_checks :: "string \<Rightarrow> smoke_check list" where
  "wiring_checks key =
     [\<lparr>sk_name = ''GET /api/v1/health'', sk_call = GetHealth, sk_test = check_has ''queue_depth'', sk_catches = False\<rparr>,
      \<lparr>sk_name = ''POST /api/v1/generate rejects missing api key'',
        sk_call = PostGenerate None (JDict [(''prompt'', JStr ''hi'')]), sk_test = check_status 401, sk_catches = False\<rparr>,
      \<lparr>sk_name = ''GET /api/v1/workers rejects bad api key'', sk_call = GetWorkers (Some ''wrong-key''),
        sk_test = check_status 401, sk_catches = False\<rparr>,
      \<lparr>sk_name = ''GET /api/v1/workers'', sk_call = GetWorkers (Some key), sk_test = check_list, sk_catches = False\<rparr>,
      \<lparr>sk_name = ''GET /api/v1/queue/depth'', sk_call = GetQueueDepth (Some key), sk_test = check_has ''queue_depth'',
        sk_catches = False\<rparr>,
      \<lparr>sk_name = ''GET /metrics'', sk_call = GetMetrics, sk_test = check_has ''# HELP'', sk_catches = False\<rparr>]"

definition inference_checks :: "string \<Rightarrow> string \<Rightarrow> smoke_check list" where
  "inference_checks key model =
     [\<lparr>sk_name = ''POST /api/v1/generate'', sk_call = PostGenerate (Some key) (say_ok model),
        sk_test = check_has ''response'', sk_catches = True\<rparr>,
      \<lparr>sk_name = ''POST /api/v1/chat'', sk_call = PostChat (Some key) (say_ok_chat model), sk_test = check_status 200,
        sk_catches = True\<rparr>,
      \<lparr>sk_name = ''POST /api/v1/queued/generate'', sk_call = PostQueued (Some key) (say_ok model),
        sk_test = check_has ''request_id'', sk_catches = True\<rparr>]"

section \<open>The run\<close>

text \<open>One recorded line; the detail is \<open>status=...\<close> or \<open>timed out\<close> (\<open>None\<close>).\<close>

record smoke_line =
  sl_name :: string
  sl_ok :: bool
  sl_detail :: "nat option"

fun run_checks ::
  "'s redis \<Rightarrow> pool_config \<Rightarrow> gw_settings \<Rightarrow> ('s gateway \<Rightarrow> string) \<Rightarrow> ('s smoke_env \<times> smoke_check) list \<Rightarrow> 's gateway
     \<Rightarrow> smoke_line list result" where
  "run_checks rd pc cfg prom [] g = Inr []"
| "run_checks rd pc cfg prom ((env, ck) # cks) g =
     (case smoke_answer rd pc cfg prom env (sk_call ck) g of
        (answer, g') \<Rightarrow>
          if se_timed_out env \<and> \<not> sk_catches ck then Inl (ServiceError ''timed out'')
          else
            (case (if se_timed_out env then Inr False else sk_test ck (respond answer)) of
               Inl e \<Rightarrow> Inl e
             | Inr ok \<Rightarrow>
                 (case run_checks rd pc cfg prom cks g' of
                    Inl e \<Rightarrow> Inl e
                  | Inr ls \<Rightarrow>
                      Inr (\<lparr>sl_name = sk_name ck, sl_ok = ok,
                             sl_detail = (if se_timed_out env then None else Some (hs_status (respond answer)))\<rparr> # ls))))"

definition smoke_test ::
  "'s redis \<Rightarrow> pool_config \<Rightarrow> gw_settings \<Rightarrow> ('s gateway \<Rightarrow> string) \<Rightarrow> 's smoke_env list \<Rightarrow> string \<Rightarrow> string \<Rightarrow> bool
     \<Rightarrow> 's gateway \<Rightarrow> smoke_line list result" where
  "smoke_test rd pc cfg prom envs key model skip_inference g =
     run_checks rd pc cfg prom
       (zip envs (wiring_checks key @ (if skip_inference then [] else inference_checks key model))) g"

definition exit_status :: "smoke_line list \<Rightarrow> nat" where
  "exit_status ls = (if length (filter sl_ok ls) = length ls then 0 else 1)"

section \<open>Lemmas\<close>

lemma map_sum_Inr_iff: "map_sum f h x = Inr y \<longleftrightarrow> (\<exists>z. x = Inr z \<and> y = h z)"
  by (cases x) auto

lemma stats_total:
  assumes "lb_inv lb"
  obtains rows where "get_worker_stats lb = Inr rows"
  using stats_rows_total [of "workers lb" "breakers lb"] lb_inv_dom [OF assms] that by (auto simp: get_worker_stats_def)

text \<open>The reports of a gateway whose balancer is in order.\<close>

lemma health_ok:
  assumes "lb_inv (gw_lb g)" "\<forall>s. \<exists>d. pool_queue_depth rd pc s = (Inr d, s)"
  shows "\<exists>h g'. health rd pc probe n g = (Inr h, g') \<and> lb_inv (gw_lb g')"
proof -
  let ?g1 = "on_lb (health_check_all probe (gw_lb g)) g"
  have inv: "lb_inv (gw_lb ?g1)" using lb_inv_health [OF assms(1)] by simp
  obtain rows where "get_worker_stats (gw_lb ?g1) = Inr rows" by (rule stats_total [OF inv])
  moreover obtain d where "pool_queue_depth rd pc (w_redis (gw ?g1)) = (Inr d, w_redis (gw ?g1))" using assms(2) by blast
  ultimately show ?thesis using inv by (simp add: health_def Let_def)
qed

lemma workers_ok:
  assumes "lb_inv (gw_lb g)"
  shows "\<exists>r g'. workers_route cfg probe key g = (r, g') \<and> lb_inv (gw_lb g')
    \<and> (if key = Some (api_key cfg) then \<exists>rows. r = Inr rows else r = Inl unauthorized)"
proof (cases "key = Some (api_key cfg)")
  case True
  let ?g1 = "on_lb (health_check_all probe (gw_lb g)) g"
  have inv: "lb_inv (gw_lb ?g1)" using lb_inv_health [OF assms] by simp
  obtain rows where "get_worker_stats (gw_lb ?g1) = Inr rows" by (rule stats_total [OF inv])
  then show ?thesis using True inv by (simp add: workers_route_def verify_api_key_def Let_def)
next
  case False
  then show ?thesis using assms by (simp add: workers_route_def verify_api_key_def)
qed

lemma depth_ok:
  assumes "\<forall>s. \<exists>d. pool_queue_depth rd pc s = (Inr d, s)"
  shows "\<exists>r g'. queue_depth_route rd pc cfg key g = (r, g') \<and> gw_lb g' = gw_lb g
    \<and> (if key = Some (api_key cfg) then \<exists>d. r = Inr d else r = Inl unauthorized)"
proof -
  obtain d where "pool_queue_depth rd pc (w_redis (gw g)) = (Inr d, w_redis (gw g))" using assms by blast
  then show ?thesis by (simp add: queue_depth_route_def authed_def verify_api_key_def)
qed

lemma no_key_refused:
  "smoke_answer rd pc cfg prom env (PostGenerate None (JDict [(''prompt'', JStr x)])) g = (Inl unauthorized, g)"
  by (simp add: smoke_answer_def parse_generate_def parse_metadata_def opt_str_field_def str_field_def generate_begin_def
      route_begin_def verify_api_key_def with_body_def whole_call_def)

lemma respond_unauthorized [simp]: "hs_status (respond (Inl unauthorized)) = 401"
  by (simp add: respond_def unauthorized_def)

lemma respond_Inr [simp]: "respond (Inr j) = \<lparr>hs_status = 200, hs_body = j\<rparr>"
  by (simp add: respond_def)

lemma dict_merge_get: "map_of (dict_merge d e) k \<noteq> None \<longleftrightarrow> map_of d k \<noteq> None \<or> map_of e k \<noteq> None"
proof -
  have "map_of (fold (\<lambda>(k, v) acc. AList.update k v acc) e d) k \<noteq> None \<longleftrightarrow> map_of d k \<noteq> None \<or> map_of e k \<noteq> None"
    by (induction e arbitrary: d) (auto simp: update_conv)
  then show ?thesis by (simp add: dict_merge_def)
qed

text \<open>What an inference route answers with a value, its check accepts.\<close>

lemma route_end_reply:
  assumes "route_end ep c m w g = (Inr d, g')"
  shows "\<exists>reply. fst (finish_of c w) = Inr reply \<and> d = dict_merge m reply"
proof -
  obtain r lb where "stop_call c w (gw_lb g) = (r, lb)" by force
  then show ?thesis using assms stop_call_reply [of c w "gw_lb g"]
    by (auto simp: route_end_def split: sum.splits if_splits)
qed

lemma generate_reply_key: "generate_reply inc base l j = Inr d \<Longrightarrow> map_of d ''response'' \<noteq> None"
  by (auto simp: generate_reply_def split: sum.splits prod.splits)

lemma generate_end_reply:
  assumes "generate_end c m w g = (Inr d, g')"
  shows "map_of d ''response'' \<noteq> None"
proof -
  obtain reply where r: "fst (finish_of (c\<lparr>ce_chat := False\<rparr>) w) = Inr reply" "d = dict_merge m reply"
    using route_end_reply assms by (fastforce simp: generate_end_def)
  then have "map_of reply ''response'' \<noteq> None"
    using generate_reply_key
    by (auto simp: finish_of_def finish_generate_def finish_call_def Let_def split: http_outcome.splits sum.splits)
  then show ?thesis using dict_merge_get [of m reply] unfolding r(2) by blast
qed

lemma queued_reply:
  assumes "queued_begin rd pc cfg uuid key rq g = (Inr m, g1)" "queued_end rd pc others m g2 = (Inr d, g3)"
  shows "map_of d ''request_id'' \<noteq> None"
proof -
  have "map_of m ''request_id'' \<noteq> None"
    using assms(1)
    by (auto simp: queued_begin_def resolve_agent_metadata_def Let_def split: sum.splits prod.splits)
  moreover obtain e where "d = dict_merge m e"
    using assms(2) by (auto simp: queued_end_def split: sum.splits prod.splits option.splits json.splits list.splits)
  ultimately show ?thesis using dict_merge_get [of m e] by blast
qed

lemma inference_accepts:
  assumes "ck \<in> set (inference_checks key model)" "smoke_answer rd pc cfg prom env (sk_call ck) g = (Inr j, g')"
  shows "sk_test ck (respond (Inr j)) = Inr True"
proof -
  consider (gen) "ck = inference_checks key model ! 0" | (chat) "ck = inference_checks key model ! 1"
    | (queued) "ck = inference_checks key model ! 2"
    using assms(1) by (auto simp: inference_checks_def)
  then show ?thesis
  proof cases
    case gen
    then obtain c m w g1 d where "generate_end c m w g1 = (Inr d, g')" "j = JDict d"
      using assms(2) by (auto simp: inference_checks_def smoke_answer_def whole_call_def map_prod_def map_sum_Inr_iff split: sum.splits prod.splits)
    then show ?thesis using generate_end_reply by (simp add: gen inference_checks_def check_has_def json_in_def)
  next
    case chat
    then show ?thesis by (simp add: inference_checks_def check_status_def)
  next
    case queued
    then obtain rq m g1 g2 d where "queued_begin rd pc cfg (se_uuid env) (Some key) rq g = (Inr m, g1)"
        "queued_end rd pc (se_others env) m g1 = (Inr d, g2)" "j = JDict d"
      using assms(2) by (auto simp: inference_checks_def smoke_answer_def map_prod_def map_sum_Inr_iff split: sum.splits prod.splits)
    then show ?thesis using queued_reply by (simp add: queued inference_checks_def check_has_def json_in_def)
  qed
qed

text \<open>The first six lines.\<close>

lemma run_checks_Cons:
  assumes "smoke_answer rd pc cfg prom env (sk_call ck) g = (answer, g')" "\<not> se_timed_out env" "sk_test ck (respond answer) = Inr ok"
  shows "run_checks rd pc cfg prom ((env, ck) # cks) g =
    map_sum id ((#) \<lparr>sl_name = sk_name ck, sl_ok = ok, sl_detail = Some (hs_status (respond answer))\<rparr>)
      (run_checks rd pc cfg prom cks g')"
  using assms by (simp split: sum.split)

lemma wiring_lines:
  assumes inv: "lb_inv (gw_lb g)" and depth: "\<forall>s. \<exists>d. pool_queue_depth rd pc s = (Inr d, s)"
    and prom_text: "\<forall>g. contains ''# HELP'' (prom g)" and envs: "length envs = 6" "\<forall>e \<in> set envs. \<not> se_timed_out e"
  shows "\<exists>ls g'. (\<forall>cks. run_checks rd pc cfg prom (zip envs (wiring_checks key) @ cks) g =
      map_sum id ((@) ls) (run_checks rd pc cfg prom cks g'))
    \<and> map sl_ok ls = [True, True, api_key cfg \<noteq> ''wrong-key'', key = api_key cfg, key = api_key cfg, True]"
proof -
  obtain e1 e2 e3 e4 e5 e6 where e: "envs = [e1, e2, e3, e4, e5, e6]"
    using envs(1) by (auto simp: length_Suc_conv eval_nat_numeral)
  have live: "\<not> se_timed_out e1" "\<not> se_timed_out e2" "\<not> se_timed_out e3" "\<not> se_timed_out e4" "\<not> se_timed_out e5" "\<not> se_timed_out e6"
    using envs(2) by (simp_all add: e)
  obtain h g1 where h: "health rd pc (se_probe e1) (se_running e1) g = (Inr h, g1)" "lb_inv (gw_lb g1)"
    using health_ok [OF inv depth] by blast
  obtain r3 g3 where w3: "workers_route cfg (se_probe e3) (Some ''wrong-key'') g1 = (r3, g3)" "lb_inv (gw_lb g3)"
    "if Some ''wrong-key'' = Some (api_key cfg) then \<exists>rows. r3 = Inr rows else r3 = Inl unauthorized"
    using workers_ok [OF h(2)] by blast
  obtain r4 g4 where w4: "workers_route cfg (se_probe e4) (Some key) g3 = (r4, g4)" "lb_inv (gw_lb g4)"
    "if Some key = Some (api_key cfg) then \<exists>rows. r4 = Inr rows else r4 = Inl unauthorized"
    using workers_ok [OF w3(2)] by blast
  obtain r5 g5 where d5: "queue_depth_route rd pc cfg (Some key) g4 = (r5, g5)"
    "if Some key = Some (api_key cfg) then \<exists>d. r5 = Inr d else r5 = Inl unauthorized"
    using depth_ok [OF depth] by blast
  obtain c1 c2 c3 c4 c5 c6 where c: "wiring_checks key = [c1, c2, c3, c4, c5, c6]"
    and c1: "sk_call c1 = GetHealth" "sk_test c1 = check_has ''queue_depth''"
    and c2: "sk_call c2 = PostGenerate None (JDict [(''prompt'', JStr ''hi'')])" "sk_test c2 = check_status 401"
    and c3: "sk_call c3 = GetWorkers (Some ''wrong-key'')" "sk_test c3 = check_status 401"
    and c4: "sk_call c4 = GetWorkers (Some key)" "sk_test c4 = check_list"
    and c5: "sk_call c5 = GetQueueDepth (Some key)" "sk_test c5 = check_has ''queue_depth''"
    and c6: "sk_call c6 = GetMetrics" "sk_test c6 = check_has ''# HELP''"
    by (simp add: wiring_checks_def)
  have a1: "smoke_answer rd pc cfg prom e1 (sk_call c1) g = (Inr (health_json h), g1)"
    "sk_test c1 (respond (Inr (health_json h))) = Inr True"
    using h(1) by (simp_all add: c1 smoke_answer_def check_has_def json_in_def health_json_def)
  have a2: "smoke_answer rd pc cfg prom e2 (sk_call c2) g1 = (Inl unauthorized, g1)"
    "sk_test c2 (respond (Inl unauthorized)) = Inr True"
    by (simp_all add: c2 no_key_refused check_status_def)
  have a3: "smoke_answer rd pc cfg prom e3 (sk_call c3) g1 = (map_sum id (\<lambda>rs. JList (map row_json rs)) r3, g3)"
    "sk_test c3 (respond (map_sum id (\<lambda>rs. JList (map row_json rs)) r3)) = Inr (api_key cfg \<noteq> ''wrong-key'')"
    using w3(1,3) by (auto simp: c3 smoke_answer_def check_status_def split: if_splits)
  have a4: "smoke_answer rd pc cfg prom e4 (sk_call c4) g3 = (map_sum id (\<lambda>rs. JList (map row_json rs)) r4, g4)"
    "sk_test c4 (respond (map_sum id (\<lambda>rs. JList (map row_json rs)) r4)) = Inr (key = api_key cfg)"
    using w4(1,3) by (auto simp: c4 smoke_answer_def check_list_def split: if_splits)
  have a5: "smoke_answer rd pc cfg prom e5 (sk_call c5) g4 = (map_sum id (\<lambda>d. JDict [(''queue_depth'', JInt (int d))]) r5, g5)"
    "sk_test c5 (respond (map_sum id (\<lambda>d. JDict [(''queue_depth'', JInt (int d))]) r5)) = Inr (key = api_key cfg)"
    using d5 by (auto simp: c5 smoke_answer_def check_has_def json_in_def split: if_splits)
  have a6: "smoke_answer rd pc cfg prom e6 (sk_call c6) g5 = (Inr (JStr (prom g5)), g5)"
    "sk_test c6 (respond (Inr (JStr (prom g5)))) = Inr True"
    using prom_text by (simp_all add: c6 smoke_answer_def check_has_def json_in_def)
  note step = run_checks_Cons [OF a1(1) live(1) a1(2)] run_checks_Cons [OF a2(1) live(2) a2(2)]
    run_checks_Cons [OF a3(1) live(3) a3(2)] run_checks_Cons [OF a4(1) live(4) a4(2)]
    run_checks_Cons [OF a5(1) live(5) a5(2)] run_checks_Cons [OF a6(1) live(6) a6(2)]
  define ls where "ls =
    [\<lparr>sl_name = sk_name c1, sl_ok = True, sl_detail = Some (hs_status (respond (Inr (health_json h))))\<rparr>,
     \<lparr>sl_name = sk_name c2, sl_ok = True, sl_detail = Some (hs_status (respond (Inl unauthorized)))\<rparr>,
     \<lparr>sl_name = sk_name c3, sl_ok = (api_key cfg \<noteq> ''wrong-key''),
       sl_detail = Some (hs_status (respond (map_sum id (\<lambda>rs. JList (map row_json rs)) r3)))\<rparr>,
     \<lparr>sl_name = sk_name c4, sl_ok = (key = api_key cfg),
       sl_detail = Some (hs_status (respond (map_sum id (\<lambda>rs. JList (map row_json rs)) r4)))\<rparr>,
     \<lparr>sl_name = sk_name c5, sl_ok = (key = api_key cfg),
       sl_detail = Some (hs_status (respond (map_sum id (\<lambda>d. JDict [(''queue_depth'', JInt (int d))]) r5)))\<rparr>,
     \<lparr>sl_name = sk_name c6, sl_ok = True, sl_detail = Some (hs_status (respond (Inr (JStr (prom g5)))))\<rparr>]"
  have "run_checks rd pc cfg prom (zip envs (wiring_checks key) @ cks) g = map_sum id ((@) ls) (run_checks rd pc cfg prom cks g5)" for cks
    unfolding e c zip_Cons_Cons zip.simps(1) append_Cons append_Nil step ls_def
    by (cases "run_checks rd pc cfg prom cks g5") simp_all
  then show ?thesis by (intro exI [of _ ls] exI [of _ g5]) (simp add: ls_def)
qed

lemma run_checks_length: "run_checks rd pc cfg prom cks g = Inr ls \<Longrightarrow> length ls = length cks"
  by (induction rd pc cfg prom cks g arbitrary: ls rule: run_checks.induct) (auto split: prod.splits sum.splits if_splits)

lemma exit_zero: "exit_status ls = 0 \<longleftrightarrow> list_all sl_ok ls"
proof -
  have "length (filter sl_ok ls) = length ls \<longleftrightarrow> list_all sl_ok ls"
  proof (induction ls)
    case (Cons l ls)
    have "length (filter sl_ok ls) \<noteq> Suc (length ls)" by (metis Suc_n_not_le_n length_filter_le)
    with Cons show ?case by auto
  qed simp
  then show ?thesis by (simp add: exit_status_def)
qed

lemma lines_verdict:
  assumes "ls = first @ rest" and "length first = 6"
    and "map sl_ok first = [True, True, a \<noteq> w, k = a, k = a, True]"
  shows "map sl_ok (take 6 ls) = [True, True, a \<noteq> w, k = a, k = a, True]
    \<and> (exit_status ls = 0 \<longleftrightarrow> k = a \<and> a \<noteq> w \<and> list_all sl_ok (drop 6 ls))"
proof -
  have "list_all sl_ok first \<longleftrightarrow> list_all id (map sl_ok first)" by (simp add: list.pred_map comp_def)
  then have "list_all sl_ok first \<longleftrightarrow> k = a \<and> a \<noteq> w" unfolding assms(3) by auto
  then show ?thesis using assms by (simp add: exit_zero)
qed

section \<open>Properties\<close>

text \<open>
  C40. What a passing smoke test means. With Redis answering, the checks without inference always run to
  the end, and they pass exactly when the script was given the gateway's key and this key is not the
  one the script takes for a wrong one; the key checks of the routes and the reports themselves never fail.
  With inference, the run passes when these do and every inference line does, and
  an inference line accepts whatever its route answers with status 200.
\<close>

theorem smoke_test_exact:
  assumes "lb_reachable (gw_lb g)" and "\<forall>s. \<exists>d. pool_queue_depth rd pc s = (Inr d, s)"
    and "\<forall>g. contains ''# HELP'' (prom g)" and "length envs = (if skip_inference then 6 else 9)"
    and "\<forall>e \<in> set (take 6 envs). \<not> se_timed_out e"
    and "run = smoke_test rd pc cfg prom envs key model skip_inference g"
  shows "(skip_inference \<longrightarrow> \<not> isl run)
    \<and> (\<forall>ls. run = Inr ls \<longrightarrow> length ls = length envs
         \<and> map sl_ok (take 6 ls) = [True, True, api_key cfg \<noteq> ''wrong-key'', key = api_key cfg, key = api_key cfg, True]
         \<and> (exit_status ls = 0 \<longleftrightarrow> key = api_key cfg \<and> api_key cfg \<noteq> ''wrong-key'' \<and> list_all sl_ok (drop 6 ls)))
    \<and> (\<forall>ck \<in> set (inference_checks key model). \<forall>env g j g'.
         smoke_answer rd pc cfg prom env (sk_call ck) g = (Inr j, g') \<longrightarrow> sk_test ck (respond (Inr j)) = Inr True)"
proof -
  let ?more = "if skip_inference then [] else inference_checks key model"
  have six: "length (wiring_checks key) = 6" by (simp add: wiring_checks_def)
  have len: "length (take 6 envs) = 6" using assms(4) by simp
  have "run = run_checks rd pc cfg prom (zip (take 6 envs @ drop 6 envs) (wiring_checks key @ ?more)) g"
    by (simp add: assms(6) smoke_test_def)
  also have "zip (take 6 envs @ drop 6 envs) (wiring_checks key @ ?more) = zip (take 6 envs) (wiring_checks key) @ zip (drop 6 envs) ?more"
    by (rule zip_append) (simp only: len six)
  finally have run: "run = run_checks rd pc cfg prom (zip (take 6 envs) (wiring_checks key) @ zip (drop 6 envs) ?more) g" .
  from wiring_lines [OF lb_reachable_inv [OF assms(1)] assms(2,3) len assms(5), of cfg key] obtain first g' where first':
    "(\<forall>cks. run_checks rd pc cfg prom (zip (take 6 envs) (wiring_checks key) @ cks) g =
      map_sum id ((@) first) (run_checks rd pc cfg prom cks g'))
     \<and> map sl_ok first = [True, True, api_key cfg \<noteq> ''wrong-key'', key = api_key cfg, key = api_key cfg, True]"
    by (elim exE)
  note first = first' [THEN conjunct1, rule_format] first' [THEN conjunct2]
  have run': "run = map_sum id ((@) first) (run_checks rd pc cfg prom (zip (drop 6 envs) ?more) g')"
    unfolding run by (rule first(1))
  have "length (map sl_ok first) = 6" by (simp only: first(2) list.size)
  then have six': "length first = 6" by simp
  have three: "length (inference_checks key model) = 3" by (simp add: inference_checks_def)
  have lines: "length ls = length envs"
    "map sl_ok (take 6 ls) = [True, True, api_key cfg \<noteq> ''wrong-key'', key = api_key cfg, key = api_key cfg, True]
       \<and> (exit_status ls = 0 \<longleftrightarrow> key = api_key cfg \<and> api_key cfg \<noteq> ''wrong-key'' \<and> list_all sl_ok (drop 6 ls))"
    if ended: "run = Inr ls" for ls
  proof -
    obtain rest where rest: "run_checks rd pc cfg prom (zip (drop 6 envs) ?more) g' = Inr rest" "ls = first @ rest"
      using map_sum_Inr_iff [THEN iffD1, OF run' [symmetric, unfolded ended]] by blast
    show "length ls = length envs"
      using run_checks_length [OF rest(1)] assms(4) six' three by (simp add: rest(2) split: if_splits)
    show "map sl_ok (take 6 ls) = [True, True, api_key cfg \<noteq> ''wrong-key'', key = api_key cfg, key = api_key cfg, True]
       \<and> (exit_status ls = 0 \<longleftrightarrow> key = api_key cfg \<and> api_key cfg \<noteq> ''wrong-key'' \<and> list_all sl_ok (drop 6 ls))"
      by (rule lines_verdict [OF rest(2) six' first(2)])
  qed
  have total: "\<not> isl run" if "skip_inference" using run' that by simp
  show ?thesis using total lines inference_accepts by (intro conjI impI allI ballI) (assumption | rule conjI | simp only:)+
qed

definition demo_smoke :: "ref_state smoke_env" where
  "demo_smoke = \<lparr>se_uuid = ''u'', se_stamp = \<lparr>fresh_id = ''n'', clock1 = 7, clock2 = 7\<rparr>, se_now = 1, se_probe = (\<lambda>_. Status 200),
     se_running = 1, se_end = demo_end (Raised ''timeout''), se_others = (\<lambda>_ s. s), se_timed_out = False\<rparr>"

theorem smoke_test_exact_witness:
  "\<exists>ls. smoke_test ref_redis demo_pool demo_settings (\<lambda>_. ''# HELP x'') (replicate 6 demo_smoke) ''secret'' ''m'' True
      (demo_gateway [''a'']) = Inr ls \<and> exit_status ls = 0"
proof -
  let ?run = "smoke_test ref_redis demo_pool demo_settings (\<lambda>_. ''# HELP x'') (replicate 6 demo_smoke) ''secret'' ''m'' True
      (demo_gateway [''a''])"
  have "lb_reachable (gw_lb (demo_gateway [''a'']))" by (simp add: demo_gateway_def demo_world_def demo_reachable)
  moreover have "\<forall>s. \<exists>d. pool_queue_depth ref_redis demo_pool s = (Inr d, s)"
    by (simp add: pool_queue_depth_def depth_def ref_redis_def ret_def)
  moreover have "contains ''# HELP'' ''# HELP x''" by code_simp
  ultimately have claim: "\<not> isl ?run \<and> (\<forall>ls. ?run = Inr ls \<longrightarrow> length ls = 6 \<and> (exit_status ls = 0 \<longleftrightarrow> list_all sl_ok (drop 6 ls)))"
    using smoke_test_exact [of "demo_gateway [''a'']" ref_redis demo_pool "\<lambda>_. ''# HELP x''" "replicate 6 demo_smoke" True
        _ demo_settings "''secret''" "''m''", OF _ _ _ _ _ refl]
    by (simp add: demo_smoke_def demo_settings_def)
  then obtain ls where "?run = Inr ls" by (cases ?run) auto
  then show ?thesis using claim by (intro exI [of _ ls]) simp
qed

text \<open>
  The last check cannot see a failed job: the queued route answers 200 with the error as its body, the
  request id is in every body, and the line passes.
\<close>

lemma smoke_accepts_failed_job:
  assumes "queued_begin rd pc cfg (se_uuid env) (Some key) rq g = (Inr m, g1)" "parse_generate (say_ok model) = Inr rq"
    and "get_result rd pc (request_id_of m) 120 (se_others env) (w_redis (gw g1)) = (Inr (Some (JDict [(''error'', JStr e)])), s)"
    and "ck = inference_checks key model ! 2"
  shows "\<exists>j g'. smoke_answer rd pc cfg prom env (sk_call ck) g = (Inr j, g') \<and> sk_test ck (respond (Inr j)) = Inr True"
proof -
  have ck: "sk_call ck = PostQueued (Some key) (say_ok model)" "ck \<in> set (inference_checks key model)"
    by (simp_all add: assms(4) inference_checks_def)
  have "smoke_answer rd pc cfg prom env (sk_call ck) g =
      (Inr (JDict (dict_merge m [(''error'', JStr e)])), record_workflow_failure m ''/queued/generate'' (on_redis s g1))"
    using assms(1-3) by (simp add: ck(1) smoke_answer_def queued_end_def)
  with inference_accepts [OF ck(2) this] show ?thesis by blast
qed

end
