(* ===== verification/Routes.thy ===== *)
theory Routes
  imports Serving SmokeTest Lifespan
begin

text \<open>
  The HTTP surface: the route table of \<^verbatim>\<open>gateway/routes.py\<close> and \<^verbatim>\<open>gateway/main.py\<close>, the request each call
  of \<^verbatim>\<open>client/fleet_client.py\<close> sends, and what a request does to the gateway up to the first await. What
  FastAPI answers by itself (an unknown path, another method, its own pages) is \<open>Framework\<close>; it touches
  no state of the program. The way a URL becomes the path the server sees is an argument.
\<close>

section \<open>The route table\<close>

datatype http_method = GET | POST | DELETE

datatype route =
    HealthR | GenerateR | ChatR | WorkersR | QueuedR | QueueDepthR | RegisterR | RegistryR
  | DeregisterR string | RootR | MetricsR

definition api_prefix :: string where
  "api_prefix = ''/api/v1''"

definition fixed_routes :: "((http_method \<times> string) \<times> route) list" where
  "fixed_routes =
     [((GET, api_prefix @ ''/health''), HealthR), ((POST, api_prefix @ ''/generate''), GenerateR),
      ((POST, api_prefix @ ''/chat''), ChatR), ((GET, api_prefix @ ''/workers''), WorkersR),
      ((POST, api_prefix @ ''/queued/generate''), QueuedR), ((GET, api_prefix @ ''/queue/depth''), QueueDepthR),
      ((POST, api_prefix @ ''/registry/register''), RegisterR), ((GET, api_prefix @ ''/registry''), RegistryR),
      ((GET, ''/''), RootR), ((GET, ''/metrics''), MetricsR)]"

text \<open>\<open>/registry/{worker_id}\<close>: the parameter is one path segment.\<close>

definition registry_path :: "string \<Rightarrow> string" where
  "registry_path wid = api_prefix @ ''/registry/'' @ wid"

definition registry_segment :: "string \<Rightarrow> string option" where
  "registry_segment path =
     (let i = drop (length (registry_path [])) path
      in if prefix (registry_path []) path \<and> i \<noteq> [] \<and> CHR ''/'' \<notin> set i then Some i else None)"

definition find_route :: "http_method \<Rightarrow> string \<Rightarrow> route option" where
  "find_route m path =
     (case map_of fixed_routes (m, path) of
        Some r \<Rightarrow> Some r
      | None \<Rightarrow> (if m = DELETE then map_option DeregisterR (registry_segment path) else None))"

lemma registry_segment_path:
  "registry_segment (registry_path wid) = (if wid \<noteq> [] \<and> CHR ''/'' \<notin> set wid then Some wid else None)"
  by (simp add: registry_segment_def registry_path_def)

lemma find_deregister:
  "find_route DELETE (registry_path wid) = (if wid \<noteq> [] \<and> CHR ''/'' \<notin> set wid then Some (DeregisterR wid) else None)"
  by (simp add: find_route_def fixed_routes_def registry_segment_path)

text \<open>
  The path a client's URL reaches the server with. A path of ordinary characters arrives as it is; a
  question mark or a hash ends the path.
\<close>

definition plain_path :: "string \<Rightarrow> bool" where
  "plain_path p \<longleftrightarrow> list_all (\<lambda>c. 32 < code c \<and> code c < 127 \<and> c \<notin> {CHR ''?'', CHR ''#'', CHR ''%''}) p
     \<and> list_all (\<lambda>s. s \<noteq> ''.'' \<and> s \<noteq> ''..'') (str_split (CHR ''/'') p)"

definition url_laws :: "(string \<Rightarrow> string) \<Rightarrow> bool" where
  "url_laws url_path \<longleftrightarrow>
     (\<forall>p. plain_path p \<longrightarrow> url_path p = p)
   \<and> (\<forall>p q. url_path (p @ CHR ''?'' # q) = url_path p) \<and> (\<forall>p q. url_path (p @ CHR ''#'' # q) = url_path p)"

text \<open>An instance: cut at the first question mark or hash.\<close>

definition cut_url :: "string \<Rightarrow> string" where
  "cut_url p = takeWhile (\<lambda>c. c \<noteq> CHR ''?'' \<and> c \<noteq> CHR ''#'') p"

lemma cut_url_laws: "url_laws cut_url"
proof -
  have "cut_url p = p" if "plain_path p" for p
    using that by (auto simp: cut_url_def plain_path_def list_all_iff takeWhile_eq_all_conv)
  moreover have "cut_url (p @ c # q) = cut_url p" if "c = CHR ''?'' \<or> c = CHR ''#''" for p q c
    using that by (induction p) (auto simp: cut_url_def)
  ultimately show ?thesis by (simp add: url_laws_def)
qed

section \<open>What a request does\<close>

record http_request =
  hq_method :: http_method
  hq_path :: string
  hq_key :: "string option"
  hq_body :: json

text \<open>
  The environment of one request: ids, clocks, probes, the autoscaler's count, the text of the metrics
  page, and how the request models read a number and a flag (\<open>None\<close> refuses the value).
\<close>

record http_env =
  he_uuid :: string
  he_stamp :: stamp
  he_now1 :: real
  he_now2 :: real
  he_probe :: "nat \<Rightarrow> probe_outcome"
  he_running :: int
  he_clock :: json
  he_metrics :: string
  he_float :: "json \<Rightarrow> json option"
  he_bool :: "json \<Rightarrow> bool option"

definition float_field :: "(json \<Rightarrow> json option) \<Rightarrow> json pydict \<Rightarrow> string \<Rightarrow> json result" where
  "float_field fl d k =
     (case map_of d k of None \<Rightarrow> Inl unprocessable
      | Some v \<Rightarrow> (case fl v of None \<Rightarrow> Inl unprocessable | Some x \<Rightarrow> Inr x))"

definition opt_float_field :: "(json \<Rightarrow> json option) \<Rightarrow> json pydict \<Rightarrow> string \<Rightarrow> json result" where
  "opt_float_field fl d k =
     (case map_of d k of None \<Rightarrow> Inr JNull | Some JNull \<Rightarrow> Inr JNull
      | Some v \<Rightarrow> (case fl v of None \<Rightarrow> Inl unprocessable | Some x \<Rightarrow> Inr x))"

definition bool_field :: "(json \<Rightarrow> bool option) \<Rightarrow> json pydict \<Rightarrow> string \<Rightarrow> bool result" where
  "bool_field bl d k =
     (case map_of d k of None \<Rightarrow> Inr False
      | Some v \<Rightarrow> (case bl v of None \<Rightarrow> Inl unprocessable | Some b \<Rightarrow> Inr b))"

definition str_of_json :: "json \<Rightarrow> string result" where
  "str_of_json j = (case j of JStr s \<Rightarrow> Inr s | _ \<Rightarrow> Inl unprocessable)"

definition str_list_field :: "json pydict \<Rightarrow> string \<Rightarrow> string list result" where
  "str_list_field d k =
     (case map_of d k of None \<Rightarrow> Inr []
      | Some (JList js) \<Rightarrow> traverse str_of_json js
      | Some _ \<Rightarrow> Inl unprocessable)"

text \<open>\<open>WorkerRegistrationRequest\<close>\<close>

definition parse_registration ::
  "(json \<Rightarrow> json option) \<Rightarrow> (json \<Rightarrow> bool option) \<Rightarrow> json \<Rightarrow> registration_request result" where
  "parse_registration fl bl body =
     (case body of
        JDict d \<Rightarrow>
          (case (str_field d ''worker_id'', str_field d ''url'', opt_str_field d ''name'', float_field fl d ''ram_gb'',
                 bool_field bl d ''has_gpu'', opt_float_field fl d ''vram_gb'', str_list_field d ''models'') of
             (Inr i, Inr u, Inr n, Inr ram, Inr gpu, Inr vram, Inr ms) \<Rightarrow>
               Inr \<lparr>rr_worker_id = i, rr_url = u, rr_name = n, rr_ram_gb = ram, rr_has_gpu = gpu, rr_vram_gb = vram, rr_models = ms\<rparr>
           | _ \<Rightarrow> Inl unprocessable)
      | _ \<Rightarrow> Inl unprocessable)"

datatype http_step =
    Replied "json result"
  | AwaitsWorker parsed_request "json pydict" client json
  | AwaitsQueue "json pydict"
  | Framework

text \<open>A route that runs to its end, and the two kinds that stop at an await.\<close>

definition replied :: "('b \<Rightarrow> json) \<Rightarrow> 'b result \<times> 's gateway \<Rightarrow> http_step \<times> 's gateway" where
  "replied f p = (Replied (map_sum id f (fst p)), snd p)"

definition awaits_worker ::
  "parsed_request \<Rightarrow> (json pydict \<times> client \<times> json) result \<times> 's gateway \<Rightarrow> http_step \<times> 's gateway" where
  "awaits_worker rq p =
     (case p of (Inl e, g) \<Rightarrow> (Replied (Inl e), g) | (Inr (m, w, body), g) \<Rightarrow> (AwaitsWorker rq m w body, g))"

definition awaits_queue :: "json pydict result \<times> 's gateway \<Rightarrow> http_step \<times> 's gateway" where
  "awaits_queue p = (case p of (Inl e, g) \<Rightarrow> (Replied (Inl e), g) | (Inr m, g) \<Rightarrow> (AwaitsQueue m, g))"

text \<open>The body is read before the key is looked at: a request model is an argument of its route.\<close>

definition with_request :: "'r result \<Rightarrow> ('r \<Rightarrow> 's gateway \<Rightarrow> http_step \<times> 's gateway) \<Rightarrow> 's gateway \<Rightarrow> http_step \<times> 's gateway" where
  "with_request r f g = (case r of Inl e \<Rightarrow> (Replied (Inl e), g) | Inr rq \<Rightarrow> f rq g)"

definition http_begin ::
  "'s redis \<Rightarrow> pool_config \<Rightarrow> gw_settings \<Rightarrow> http_env \<Rightarrow> http_request \<Rightarrow> 's gateway \<Rightarrow> http_step \<times> 's gateway" where
  "http_begin rd pc cfg env rq g =
     (let key = hq_key rq; body = hq_body rq
      in case find_route (hq_method rq) (hq_path rq) of
           None \<Rightarrow> (Framework, g)
         | Some HealthR \<Rightarrow> replied health_json (health rd pc (he_probe env) (he_running env) g)
         | Some GenerateR \<Rightarrow>
             with_request (parse_generate body)
               (\<lambda>r g. awaits_worker (Generate r) (generate_begin cfg (he_uuid env) (he_stamp env) (he_now1 env) (he_now2 env) key r g)) g
         | Some ChatR \<Rightarrow>
             with_request (parse_chat body)
               (\<lambda>r g. awaits_worker (Chat r) (chat_begin cfg (he_uuid env) (he_stamp env) (he_now1 env) (he_now2 env) key r g)) g
         | Some WorkersR \<Rightarrow> replied (\<lambda>rs. JList (map row_json rs)) (workers_route cfg (he_probe env) key g)
         | Some QueuedR \<Rightarrow>
             with_request (parse_generate body) (\<lambda>r g. awaits_queue (queued_begin rd pc cfg (he_uuid env) key r g)) g
         | Some QueueDepthR \<Rightarrow>
             replied (\<lambda>d. JDict [(''queue_depth'', JInt (int d))]) (queue_depth_route rd pc cfg key g)
         | Some RegisterR \<Rightarrow>
             with_request (parse_registration (he_float env) (he_bool env) body)
               (\<lambda>r g. replied JDict (register_worker rd cfg (he_clock env) key r g)) g
         | Some RegistryR \<Rightarrow> replied (\<lambda>rs. JList (map JDict rs)) (list_registered_workers rd cfg (he_clock env) key g)
         | Some (DeregisterR i) \<Rightarrow> replied JDict (deregister_worker rd cfg key i g)
         | Some RootR \<Rightarrow> (Replied (Inr root_route), g)
         | Some MetricsR \<Rightarrow> (Replied (Inr (JStr (he_metrics env))), g))"

text \<open>The routes that look at the key.\<close>

fun key_checked :: "route \<Rightarrow> bool" where
  "key_checked HealthR = False"
| "key_checked RootR = False"
| "key_checked MetricsR = False"
| "key_checked _ = True"

section \<open>The client's side\<close>

text \<open>
  A \<open>FleetClient\<close>: its base URL, the key it sends with every request, its timeout, and whether it is
  still open. \<open>httpx\<close> raises on a closed client before anything is sent.
\<close>

record fleet_client =
  fc_base :: string
  fc_key :: string
  fc_timeout :: real
  fc_open :: bool

definition new_client :: "string option \<Rightarrow> string option \<Rightarrow> real option \<Rightarrow> fleet_client" where
  "new_client base key timeout =
     \<lparr>fc_base = (case base of None \<Rightarrow> ''http://localhost:8000'' | Some b \<Rightarrow> b),
      fc_key = (case key of None \<Rightarrow> ''dev-key'' | Some k \<Rightarrow> k),
      fc_timeout = (case timeout of None \<Rightarrow> 120 | Some t \<Rightarrow> t), fc_open = True\<rparr>"

definition client_close :: "fleet_client \<Rightarrow> fleet_client" where
  "client_close fc = fc\<lparr>fc_open := False\<rparr>"

text \<open>\<open>__aexit__\<close> closes whatever the block raised; its exception goes on.\<close>

definition client_block :: "(fleet_client \<Rightarrow> 'b result) \<Rightarrow> fleet_client \<Rightarrow> 'b result \<times> fleet_client" where
  "client_block body fc = (body fc, client_close fc)"

text \<open>The calls: \<open>url_path\<close> is what becomes of the URL's path on its way, \<open>receive\<close> the response.\<close>

definition client_send ::
  "(string \<Rightarrow> string) \<Rightarrow> fleet_client \<Rightarrow> http_method \<Rightarrow> string \<times> json \<Rightarrow> http_request result" where
  "client_send url_path fc m call =
     (if fc_open fc
      then Inr \<lparr>hq_method = m, hq_path = url_path (fst call), hq_key = Some (fc_key fc), hq_body = snd call\<rparr>
      else Inl (RuntimeError ''Cannot send a request, as the client has been closed.''))"

text \<open>\<open>raise_for_status\<close> raises on everything that is not a success.\<close>

definition client_receive :: "http_response \<Rightarrow> json result" where
  "client_receive r =
     (if 200 \<le> hs_status r \<and> hs_status r < 300 then Inr (hs_body r)
      else Inl (HTTPException (hs_status r) ''raise_for_status''))"

definition client_health :: "string \<times> json" where
  "client_health = (''/api/v1/health'', JNull)"

section \<open>Lemmas\<close>

lemma refused:
  assumes "key \<noteq> Some (gw_settings.api_key cfg)"
  shows "generate_begin cfg u st n1 n2 key grq g = (Inl unauthorized, g)"
    "chat_begin cfg u st n1 n2 key crq g = (Inl unauthorized, g)"
    "queued_begin rd pc cfg u key grq g = (Inl unauthorized, g)"
    "workers_route cfg probe key g = (Inl unauthorized, g)"
    "authed cfg key act g = (Inl unauthorized, g)"
  using assms
  by (simp_all add: generate_begin_def chat_begin_def route_begin_def queued_begin_def workers_route_def authed_def
      verify_api_key_def with_body_def)

lemma parse_fails [dest]:
  "parse_generate j = Inl e \<Longrightarrow> e = unprocessable" "parse_chat j = Inl e \<Longrightarrow> e = unprocessable"
  "parse_registration fl bl j = Inl e \<Longrightarrow> e = unprocessable"
  by (auto simp: parse_generate_def parse_chat_def parse_registration_def split: json.splits sum.splits prod.splits option.splits)

section \<open>Properties\<close>

text \<open>
  C17. Whatever request arrives, on whatever path and with whatever body, without the right key: a route that
  looks at the key answers 401, or 422 when the body does not fit, and changes nothing of the
  gateway, its queue or its registry. Only the health check changes anything without the key.
\<close>

theorem wrong_key_no_effect:
  assumes "hq_key rq \<noteq> Some (gw_settings.api_key cfg)"
  shows "(\<forall>r. find_route (hq_method rq) (hq_path rq) = Some r \<and> key_checked r \<longrightarrow>
      fst (http_begin rd pc cfg env rq g) \<in> {Replied (Inl unauthorized), Replied (Inl unprocessable)})
    \<and> (find_route (hq_method rq) (hq_path rq) \<noteq> Some HealthR \<longrightarrow> snd (http_begin rd pc cfg env rq g) = g)"
proof (cases "find_route (hq_method rq) (hq_path rq)")
  case None
  then show ?thesis by (simp add: http_begin_def)
next
  case (Some r)
  note [simp] = refused [OF assms] http_begin_def with_request_def replied_def awaits_worker_def awaits_queue_def
    queue_depth_route_def register_worker_def list_registered_workers_def deregister_worker_def Let_def
  show ?thesis
    using Some by (cases r) (auto split: sum.split)
qed

definition demo_delete :: http_request where
  "demo_delete = \<lparr>hq_method = DELETE, hq_path = registry_path ''mac'', hq_key = None, hq_body = JNull\<rparr>"

lemma demo_delete_route: "find_route (hq_method demo_delete) (hq_path demo_delete) = Some (DeregisterR ''mac'')"
  by (simp add: demo_delete_def find_deregister)

definition demo_http_env :: http_env where
  "demo_http_env = \<lparr>he_uuid = ''u'', he_stamp = \<lparr>fresh_id = ''n'', clock1 = 7, clock2 = 7\<rparr>, he_now1 = 1, he_now2 = 1,
     he_probe = (\<lambda>_. ProbeRaised), he_running = 1, he_clock = JFloat 15 1, he_metrics = [], he_float = (\<lambda>j. if wf_json j then Some j else None),
     he_bool = (\<lambda>_. None)\<rparr>"

theorem wrong_key_no_effect_witness:
  "snd (http_begin ref_redis (new_pool ''c'' 3600 30000 ''s'') demo_settings demo_http_env demo_delete (demo_gateway [''a''])) = demo_gateway [''a'']"
proof -
  have key: "hq_key demo_delete \<noteq> Some (gw_settings.api_key demo_settings)" by (simp add: demo_delete_def)
  from wrong_key_no_effect [OF key, THEN conjunct2] demo_delete_route show ?thesis by (simp only: option.inject route.distinct simp_thms)
qed



end
