(* ===== verification/WorkerAgent.thy ===== *)
theory WorkerAgent
  imports Routes Settings
begin

text \<open>
  \<^verbatim>\<open>scripts/worker_agent.py\<close>: the agent a contributing machine runs. It finds out what the machine
  has, keeps a stable id in a file, registers with the gateway, registers again at every heartbeat
  and deregisters when it is stopped. The operating system's answers (memory, GPU, addresses), the
  answer of the local Ollama and whether a request reaches the gateway are arguments; what a request
  does there is the gateway's own route. The command line is in \<open>CommandLine\<close>; printing is not modelled.
\<close>

section \<open>Detection\<close>

text \<open>\<open>s.split()\<close>\<close>

function ws_fields :: "string \<Rightarrow> string list" where
  "ws_fields s =
     (case dropWhile is_space s of
        [] \<Rightarrow> []
      | c # cs \<Rightarrow> (c # takeWhile (\<lambda>x. \<not> is_space x) cs) # ws_fields (dropWhile (\<lambda>x. \<not> is_space x) cs))"
  by pat_completeness auto
termination
proof (relation "measure length", simp)
  fix s :: string and c cs
  assume "dropWhile is_space s = c # cs"
  then have "length (c # cs) \<le> length s" by (metis length_dropWhile_le)
  then show "(dropWhile (\<lambda>x. \<not> is_space x) cs, s) \<in> measure length"
    using length_dropWhile_le [of "\<lambda>x. \<not> is_space x" cs] by simp
qed

declare ws_fields.simps [simp del]

text \<open>\<open>round(x, 1)\<close> of a quotient by a power of two, which a float holds exactly.\<close>

definition round1 :: "real \<Rightarrow> json" where
  "round1 x = JFloat (round_half_even (x * 10)) 1"

text \<open>What the platform offers: \<open>/proc/meminfo\<close>, \<open>sysctl\<close>, the Windows memory status.\<close>

record platform_info =
  pf_system :: string
  pf_machine :: string
  pf_meminfo :: "string list"
  pf_sysctl :: string
  pf_win_total :: int
  pf_nvidia :: "string result"

fun meminfo_total :: "string list \<Rightarrow> json result" where
  "meminfo_total [] = Inl (RuntimeError ''MemTotal not found in /proc/meminfo'')"
| "meminfo_total (l # ls) =
     (if prefix ''MemTotal:'' l then
        (case ws_fields l of
           _ # f # _ \<Rightarrow> (case py_int f of Inl e \<Rightarrow> Inl e | Inr kb \<Rightarrow> Inr (round1 (of_int kb / 1024 ^ 2)))
         | _ \<Rightarrow> Inl (IndexError ''list index out of range''))
      else meminfo_total ls)"

definition detect_ram_gb :: "platform_info \<Rightarrow> json result" where
  "detect_ram_gb pf =
     (if pf_system pf = ''Linux'' then meminfo_total (pf_meminfo pf)
      else if pf_system pf = ''Darwin'' then
        (case py_int (strip (pf_sysctl pf)) of Inl e \<Rightarrow> Inl e | Inr n \<Rightarrow> Inr (round1 (of_int n / 1024 ^ 3)))
      else if pf_system pf = ''Windows'' then Inr (round1 (of_int (pf_win_total pf) / 1024 ^ 3))
      else Inl (RuntimeError (''Don'' @ [CHR 0x27] @ ''t know how to detect RAM on platform '' @ py_repr (pf_system pf))))"

text \<open>
  \<open>nvidia-smi\<close> may be missing, fail or time out (\<open>ServiceError\<close>), print no line or no number: every
  one of these is caught.
\<close>

definition nvidia_mib :: "platform_info \<Rightarrow> int result" where
  "nvidia_mib pf =
     (case pf_nvidia pf of
        Inl e \<Rightarrow> Inl e
      | Inr out \<Rightarrow> (case splitlines (strip out) of
            [] \<Rightarrow> Inl (IndexError ''list index out of range'')
          | l # _ \<Rightarrow> py_int l))"

definition detect_gpu :: "platform_info \<Rightarrow> bool \<times> json" where
  "detect_gpu pf =
     (case nvidia_mib pf of
        Inr mib \<Rightarrow> (True, round1 (of_int mib / 1024))
      | Inl _ \<Rightarrow> (pf_system pf = ''Darwin'' \<and> pf_machine pf = ''arm64'', JNull))"

text \<open>The id: an override, else what the file holds, else a new one that is written to the file.\<close>

definition get_or_create_worker_id ::
  "string option \<Rightarrow> string \<Rightarrow> string \<Rightarrow> string option \<Rightarrow> string \<times> string option" where
  "get_or_create_worker_id override host hex file =
     (case override of
        Some (c # cs) \<Rightarrow> (c # cs, file)
      | _ \<Rightarrow>
          (let existing = (case file of None \<Rightarrow> [] | Some t \<Rightarrow> strip t);
               fresh = str_lower host @ ''-'' @ take 6 hex
           in if existing \<noteq> [] then (existing, file) else (fresh, Some fresh)))"

text \<open>\<open>m["name"] for m in data.get("models", []) if m.get("name")\<close>, over the decoded answer.\<close>

fun json_truthy :: "json \<Rightarrow> bool" where
  "json_truthy JNull = False"
| "json_truthy (JBool b) = b"
| "json_truthy (JInt i) = (i \<noteq> 0)"
| "json_truthy (JFloat m k) = (m \<noteq> 0)"
| "json_truthy (JStr s) = (s \<noteq> [])"
| "json_truthy (JList xs) = (xs \<noteq> [])"
| "json_truthy (JDict kvs) = (kvs \<noteq> [])"

fun model_names :: "json list \<Rightarrow> json list result" where
  "model_names [] = Inr []"
| "model_names (m # ms) =
     (case json_get m ''name'' JNull of
        Inl e \<Rightarrow> Inl e
      | Inr n \<Rightarrow> (case model_names ms of Inl e \<Rightarrow> Inl e
          | Inr ns \<Rightarrow> Inr (if json_truthy n then n # ns else ns)))"

definition detect_local_models :: "json result \<Rightarrow> json list result" where
  "detect_local_models answer =
     (case answer of
        Inl e \<Rightarrow> Inl e
      | Inr data \<Rightarrow> (case json_get data ''models'' (JList []) of
            Inl e \<Rightarrow> Inl e
          | Inr (JList ms) \<Rightarrow> model_names ms
          | Inr (JStr t) \<Rightarrow> model_names (map (\<lambda>c. JStr [c]) t)
          | Inr (JDict kvs) \<Rightarrow> model_names (map (\<lambda>(k, v). JStr k) kvs)
          | Inr j \<Rightarrow> Inl (TypeError (type_name j @ '' object is not iterable''))))"

definition last_field :: "char \<Rightarrow> string \<Rightarrow> string" where
  "last_field c s = last (str_split c s)"

text \<open>The address the unsent datagram would leave from; \<open>None\<close> stands for an \<open>OSError\<close>.\<close>

definition detect_lan_ip :: "string option \<Rightarrow> string" where
  "detect_lan_ip sockname = (case sockname of Some ip \<Rightarrow> ip | None \<Rightarrow> ''127.0.0.1'')"

definition default_worker_url :: "string \<Rightarrow> string \<Rightarrow> string" where
  "default_worker_url lan_ip ollama_url =
     (let port = (if CHR '':'' \<in> set (last_field (CHR ''/'') ollama_url)
                  then (case py_int (hd (str_split (CHR ''/'') (last_field (CHR '':'') ollama_url))) of
                          Inl _ \<Rightarrow> 11434 | Inr n \<Rightarrow> n)
                  else 11434)
      in ''http://'' @ lan_ip @ '':'' @ show_int port)"

section \<open>The payload\<close>

record agent_args =
  ar_gateway_key :: "string option"
  ar_ollama_url :: string
  ar_worker_url :: "string option"
  ar_name :: "string option"
  ar_worker_id :: "string option"
  ar_ram_gb :: "json option"
  ar_vram_gb :: "json option"
  ar_no_gpu :: bool
  ar_once :: bool
  ar_no_deregister :: bool

record agent_payload =
  pl_worker_id :: string
  pl_url :: string
  pl_name :: string
  pl_ram_gb :: json
  pl_has_gpu :: bool
  pl_vram_gb :: json
  pl_models :: "json list"

definition build_payload ::
  "agent_args \<Rightarrow> platform_info \<Rightarrow> json result \<Rightarrow> string \<Rightarrow> string \<Rightarrow> string \<Rightarrow> agent_payload result" where
  "build_payload ar pf answer wid addr nm =
     (case (case ar_ram_gb ar of Some r \<Rightarrow> Inr r | None \<Rightarrow> detect_ram_gb pf) of
        Inl e \<Rightarrow> Inl e
      | Inr ram \<Rightarrow>
          (let (gpu, vram) = (if ar_no_gpu ar then (False, JNull)
                              else case ar_vram_gb ar of Some v \<Rightarrow> (True, v) | None \<Rightarrow> detect_gpu pf);
               models = (case detect_local_models answer of Inl _ \<Rightarrow> [] | Inr ms \<Rightarrow> ms)
           in Inr \<lparr>pl_worker_id = wid, pl_url = addr, pl_name = nm, pl_ram_gb = ram, pl_has_gpu = gpu,
                pl_vram_gb = vram, pl_models = models\<rparr>))"

text \<open>The gateway's request model accepts a list of strings for \<open>models\<close> only (422 otherwise).\<close>

fun json_str :: "json \<Rightarrow> string option" where
  "json_str (JStr s) = Some s"
| "json_str _ = None"

definition request_of_payload :: "agent_payload \<Rightarrow> registration_request option" where
  "request_of_payload pl =
     (if list_all (\<lambda>m. json_str m \<noteq> None) (pl_models pl)
      then Some \<lparr>rr_worker_id = pl_worker_id pl, rr_url = pl_url pl, rr_name = Some (pl_name pl),
             rr_ram_gb = pl_ram_gb pl, rr_has_gpu = pl_has_gpu pl, rr_vram_gb = pl_vram_gb pl,
             rr_models = map (the \<circ> json_str) (pl_models pl)\<rparr>
      else None)"

section \<open>Registration\<close>

text \<open>\<open>reached\<close> tells whether the request arrives; \<open>now\<close> is the gateway's clock.\<close>

definition agent_register ::
  "'s redis \<Rightarrow> gw_settings \<Rightarrow> json \<Rightarrow> string option \<Rightarrow> bool \<Rightarrow> agent_payload \<Rightarrow> 's gateway \<Rightarrow> bool \<times> 's gateway" where
  "agent_register rd cfg now key reached pl g =
     (if \<not> reached then (False, g)
      else (case request_of_payload pl of
              None \<Rightarrow> (False, g)
            | Some rq \<Rightarrow> (case register_worker rd cfg now key rq g of (r, g') \<Rightarrow> (\<not> isl r, g'))))"

text \<open>
  The id is written into the URL as it is; \<open>url_path\<close> is what becomes of the URL's path on its way, and
  a path that no route takes changes nothing.
\<close>

definition agent_deregister ::
  "'s redis \<Rightarrow> gw_settings \<Rightarrow> (string \<Rightarrow> string) \<Rightarrow> string option \<Rightarrow> bool \<Rightarrow> string \<Rightarrow> 's gateway \<Rightarrow> 's gateway" where
  "agent_deregister rd cfg url_path key reached wid g =
     (if reached
      then (case find_route DELETE (url_path (registry_path wid)) of
              Some (DeregisterR i) \<Rightarrow> snd (deregister_worker rd cfg key i g)
            | _ \<Rightarrow> g)
      else g)"

record beat =
  be_platform :: platform_info
  be_answer :: "json result"
  be_now :: json
  be_reached :: bool

text \<open>Build the payload and register; an exception of \<open>build_payload\<close> goes up.\<close>

definition agent_beat ::
  "'s redis \<Rightarrow> gw_settings \<Rightarrow> agent_args \<Rightarrow> string \<Rightarrow> string \<Rightarrow> string \<Rightarrow> beat \<Rightarrow> 's gateway \<Rightarrow> bool result \<times> 's gateway" where
  "agent_beat rd cfg ar wid addr nm b g =
     (case build_payload ar (be_platform b) (be_answer b) wid addr nm of
        Inl e \<Rightarrow> (Inl e, g)
      | Inr pl \<Rightarrow> (case agent_register rd cfg (be_now b) (ar_gateway_key ar) (be_reached b) pl g of
                     (ok, g') \<Rightarrow> (Inr ok, g')))"

text \<open>The loop, one element per heartbeat until the stop signal.\<close>

fun heartbeats ::
  "'s redis \<Rightarrow> gw_settings \<Rightarrow> agent_args \<Rightarrow> string \<Rightarrow> string \<Rightarrow> string \<Rightarrow> beat list \<Rightarrow> 's gateway \<Rightarrow> unit result \<times> 's gateway" where
  "heartbeats rd cfg ar wid addr nm [] g = (Inr (), g)"
| "heartbeats rd cfg ar wid addr nm (b # bs) g =
     (case agent_beat rd cfg ar wid addr nm b g of
        (Inl e, g') \<Rightarrow> (Inl e, g')
      | (Inr _, g') \<Rightarrow> heartbeats rd cfg ar wid addr nm bs g')"

datatype agent_end = Exited nat | Stopped | Crashed py_exc

record agent_host =
  ah_name :: string
  ah_hex :: string
  ah_lan_ip :: "string option"

definition opt_or :: "string option \<Rightarrow> string \<Rightarrow> string" where
  "opt_or o' d = (case o' of Some (c # cs) \<Rightarrow> c # cs | _ \<Rightarrow> d)"

text \<open>\<open>run\<close>: the \<open>finally\<close> deregisters however the loop ends; a failure of the first beat comes before it.\<close>

definition agent_run ::
  "'s redis \<Rightarrow> gw_settings \<Rightarrow> (string \<Rightarrow> string) \<Rightarrow> agent_args \<Rightarrow> agent_host \<Rightarrow> beat \<Rightarrow> beat list \<Rightarrow> bool
     \<Rightarrow> string option \<times> 's gateway \<Rightarrow> agent_end \<times> (string option \<times> 's gateway)" where
  "agent_run rd cfg url_path ar ah b bs goodbye s =
     (let (wid, file) = get_or_create_worker_id (ar_worker_id ar) (ah_name ah) (ah_hex ah) (fst s);
          nm = opt_or (ar_name ar) (ah_name ah);
          addr = opt_or (ar_worker_url ar) (default_worker_url (detect_lan_ip (ah_lan_ip ah)) (ar_ollama_url ar))
      in case agent_beat rd cfg ar wid addr nm b (snd s) of
           (Inl e, g1) \<Rightarrow> (Crashed e, (file, g1))
         | (Inr ok, g1) \<Rightarrow>
             if ar_once ar then (Exited (if ok then 0 else 1), (file, g1))
             else (case heartbeats rd cfg ar wid addr nm bs g1 of
                     (r, g2) \<Rightarrow>
                       (case r of Inl e \<Rightarrow> Crashed e | Inr _ \<Rightarrow> Stopped,
                        (file, if ar_no_deregister ar then g2
                               else agent_deregister rd cfg url_path (ar_gateway_key ar) goodbye wid g2))))"

section \<open>The registry seen through heartbeats\<close>

text \<open>Every stored text is the JSON of a well-formed record, so that no default is filled in on reading.\<close>

definition registry_full :: "('s \<Rightarrow> string \<Rightarrow> string option) \<Rightarrow> 's \<Rightarrow> bool" where
  "registry_full kv s \<longleftrightarrow>
     (\<forall>i t. kv s (worker_key i) = Some t \<longrightarrow> (\<exists>r. wf_record r \<and> t = dumps (JDict (record_dict r))))"

definition profile :: "('s \<Rightarrow> string \<Rightarrow> string option) \<Rightarrow> 's \<Rightarrow> string \<Rightarrow> worker_record option" where
  "profile kv s i = stored_worker kv JNull s i"

lemma full_ok: "registry_full kv s \<Longrightarrow> registry_ok kv now s"
  unfolding registry_full_def registry_ok_def using load_dumped by metis

lemma full_profile: "registry_full kv s \<Longrightarrow> stored_worker kv now s i = profile kv s i"
  by (cases "kv s (worker_key i)")
    (force simp: profile_def stored_worker_def registry_full_def load_dumped simp del: dumps.simps)+

text \<open>What a heartbeat that arrives does to the profiles, and one that does not.\<close>

definition beat_record ::
  "agent_args \<Rightarrow> string \<Rightarrow> string \<Rightarrow> string \<Rightarrow> beat \<Rightarrow> worker_record option" where
  "beat_record ar wid addr nm b =
     (if \<not> be_reached b then None
      else (case build_payload ar (be_platform b) (be_answer b) wid addr nm of
              Inl e \<Rightarrow> None
            | Inr pl \<Rightarrow> map_option (record_of_request (be_now b)) (request_of_payload pl)))"

definition spec_beat ::
  "agent_args \<Rightarrow> string \<Rightarrow> string \<Rightarrow> string \<Rightarrow> beat \<Rightarrow> worker_record option \<Rightarrow> worker_record option" where
  "spec_beat ar wid addr nm b p =
     (case beat_record ar wid addr nm b of None \<Rightarrow> p | Some r \<Rightarrow> Some (joined p r))"

definition beat_ok :: "agent_args \<Rightarrow> string \<Rightarrow> string \<Rightarrow> string \<Rightarrow> beat \<Rightarrow> bool" where
  "beat_ok ar wid addr nm b \<longleftrightarrow>
     \<not> isl (build_payload ar (be_platform b) (be_answer b) wid addr nm)
     \<and> (case beat_record ar wid addr nm b of None \<Rightarrow> True | Some r \<Rightarrow> wf_record r)"

lemma request_of_payload_id: "request_of_payload pl = Some rq \<Longrightarrow> rr_worker_id rq = pl_worker_id pl"
  by (auto simp: request_of_payload_def split: if_splits)

lemma build_payload_id: "build_payload ar pf answer wid addr nm = Inr pl \<Longrightarrow> pl_worker_id pl = wid"
  by (auto simp: build_payload_def Let_def split: sum.splits option.splits prod.splits if_splits)

abbreviation gw_redis :: "'s gateway \<Rightarrow> 's" where
  "gw_redis g \<equiv> w_redis (gw g)"

lemma full_update:
  assumes "registry_full kv s" "wf_record r" "kv s' = (kv s)(worker_key i \<mapsto> dumps (JDict (record_dict r)))"
  shows "registry_full kv s'" "profile kv s' i = Some r" "j \<noteq> i \<Longrightarrow> profile kv s' j = profile kv s j"
proof -
  show "registry_full kv s'"
    unfolding registry_full_def assms(3) using assms(1,2) unfolding registry_full_def
    by (simp del: dumps.simps) blast
  show "profile kv s' i = Some r"
    by (simp add: profile_def stored_worker_def assms(3) load_dumped [OF assms(2)] del: dumps.simps)
  show "j \<noteq> i \<Longrightarrow> profile kv s' j = profile kv s j"
    by (simp add: profile_def stored_worker_def assms(3))
qed

lemma agent_beat_spec:
  assumes "keyspace_laws rd kv members" "registry_full kv (gw_redis g)" "beat_ok ar wid addr nm b"
    and "ar_gateway_key ar = Some (gw_settings.api_key cfg)"
  shows "\<exists>ok g'. agent_beat rd cfg ar wid addr nm b g = (Inr ok, g') \<and> registry_full kv (gw_redis g')
    \<and> profile kv (gw_redis g') wid = spec_beat ar wid addr nm b (profile kv (gw_redis g) wid)
    \<and> (\<forall>j. j \<noteq> wid \<longrightarrow> profile kv (gw_redis g') j = profile kv (gw_redis g) j)
    \<and> (ok \<longleftrightarrow> beat_record ar wid addr nm b \<noteq> None) \<and> gw_lb g' = gw_lb g \<and> gw_cm g' = gw_cm g"
proof -
  obtain pl where pl: "build_payload ar (be_platform b) (be_answer b) wid addr nm = Inr pl"
    using assms(3) by (cases "build_payload ar (be_platform b) (be_answer b) wid addr nm") (auto simp: beat_ok_def)
  show ?thesis
  proof (cases "beat_record ar wid addr nm b")
    case None
    then show ?thesis
      using assms(2) pl
      by (auto simp: agent_beat_def agent_register_def beat_record_def spec_beat_def split: option.split)
  next
    case (Some r)
    then obtain rq where rq: "request_of_payload pl = Some rq" "r = record_of_request (be_now b) rq" "be_reached b"
      using pl by (auto simp: beat_record_def split: if_splits)
    have wid: "rr_worker_id rq = wid" using request_of_payload_id [OF rq(1)] build_payload_id [OF pl] by simp
    let ?p = "profile kv (gw_redis g) wid"
    have ok: "registry_ok kv (be_now b) (gw_redis g)" by (rule full_ok [OF assms(2)])
    have p: "stored_worker kv (be_now b) (gw_redis g) wid = ?p" by (rule full_profile [OF assms(2)])
    have wf: "wf_record (joined ?p r)"
      using wf_joined [OF ok, of r wid] assms(3) Some by (simp add: beat_ok_def p)
    obtain s' where s': "register rd (be_now b) wid r (gw_redis g) = (Inr (joined ?p r), s')"
        "kv s' = (kv (gw_redis g))(worker_key wid \<mapsto> dumps (JDict (record_dict (joined ?p r))))"
      using register_effect [OF assms(1) ok, of wid r] unfolding p by blast
    have "agent_beat rd cfg ar wid addr nm b g = (Inr True, on_redis s' g)"
      using rq wid s'(1) assms(4)
      by (simp add: agent_beat_def pl agent_register_def register_worker_def authed_def verify_api_key_def bind_def ret_def)
    then show ?thesis
      using full_update [OF assms(2) wf s'(2)] Some
      by (intro exI [of _ True] exI [of _ "on_redis s' g"]) (simp add: spec_beat_def)
  qed
qed

lemma heartbeats_spec:
  assumes "keyspace_laws rd kv members" "ar_gateway_key ar = Some (gw_settings.api_key cfg)"
  shows "registry_full kv (gw_redis g) \<Longrightarrow> list_all (beat_ok ar wid addr nm) bs \<Longrightarrow>
    \<exists>g'. heartbeats rd cfg ar wid addr nm bs g = (Inr (), g') \<and> registry_full kv (gw_redis g')
    \<and> profile kv (gw_redis g') wid = fold (spec_beat ar wid addr nm) bs (profile kv (gw_redis g) wid)
    \<and> (\<forall>j. j \<noteq> wid \<longrightarrow> profile kv (gw_redis g') j = profile kv (gw_redis g) j)
    \<and> gw_lb g' = gw_lb g \<and> gw_cm g' = gw_cm g"
proof (induction bs arbitrary: g)
  case Nil
  then show ?case by simp
next
  case (Cons b bs)
  obtain ok g1 where g1: "agent_beat rd cfg ar wid addr nm b g = (Inr ok, g1)" "registry_full kv (gw_redis g1)"
      "profile kv (gw_redis g1) wid = spec_beat ar wid addr nm b (profile kv (gw_redis g) wid)"
      "\<forall>j. j \<noteq> wid \<longrightarrow> profile kv (gw_redis g1) j = profile kv (gw_redis g) j"
      "gw_lb g1 = gw_lb g" "gw_cm g1 = gw_cm g"
    using agent_beat_spec [OF assms(1) Cons.prems(1) _ assms(2), of wid addr nm b] Cons.prems(2) by auto
  from Cons.IH [OF g1(2)] Cons.prems(2) g1 show ?case by auto
qed

lemma agent_deregister_route:
  assumes "keyspace_laws rd kv members" "key = Some (gw_settings.api_key cfg)"
    and "find_route DELETE (url_path (registry_path wid)) = Some (DeregisterR i)"
  shows "profile kv (gw_redis (agent_deregister rd cfg url_path key True wid g)) j =
      (if j = i then None else profile kv (gw_redis g) j)"
    "i \<notin> members (gw_redis (agent_deregister rd cfg url_path key True wid g)) workers_set_key"
    "gw_lb (agent_deregister rd cfg url_path key True wid g) = gw_lb g" "gw_cm (agent_deregister rd cfg url_path key True wid g) = gw_cm g"
proof -
  obtain s' where s': "deregister rd i (gw_redis g) = (Inr (kv (gw_redis g) (worker_key i) \<noteq> None), s')"
      "kv s' = (kv (gw_redis g))(worker_key i := None)"
      "members s' = (members (gw_redis g))(workers_set_key := members (gw_redis g) workers_set_key - {i})"
    using deregister_effect [OF assms(1)] by blast
  have run: "agent_deregister rd cfg url_path key True wid g = on_redis s' g"
    using s'(1) assms(2)
    by (simp add: agent_deregister_def assms(3) deregister_worker_def authed_def verify_api_key_def bind_def ret_def raise_def)
  show "profile kv (gw_redis (agent_deregister rd cfg url_path key True wid g)) j =
      (if j = i then None else profile kv (gw_redis g) j)"
    by (simp add: run profile_def stored_worker_def s'(2))
  show "i \<notin> members (gw_redis (agent_deregister rd cfg url_path key True wid g)) workers_set_key"
    by (simp add: run s'(3))
  show "gw_lb (agent_deregister rd cfg url_path key True wid g) = gw_lb g"
    "gw_cm (agent_deregister rd cfg url_path key True wid g) = gw_cm g"
    by (simp_all add: run)
qed

lemma url_find_deregister:
  assumes "url_laws url_path" "plain_path (registry_path wid)" "wid \<noteq> []"
  shows "find_route DELETE (url_path (registry_path wid)) = (if CHR ''/'' \<in> set wid then None else Some (DeregisterR wid))"
    "c \<in> {CHR ''?'', CHR ''#''} \<Longrightarrow> url_path (registry_path (wid @ c # t)) = url_path (registry_path wid)"
proof -
  have "url_path (registry_path wid) = registry_path wid" using assms(1,2) by (simp add: url_laws_def)
  then show "find_route DELETE (url_path (registry_path wid)) = (if CHR ''/'' \<in> set wid then None else Some (DeregisterR wid))"
    using assms(3) by (simp add: find_deregister)
  have "registry_path (wid @ c # t) = registry_path wid @ c # t" by (simp add: registry_path_def)
  then show "c \<in> {CHR ''?'', CHR ''#''} \<Longrightarrow> url_path (registry_path (wid @ c # t)) = url_path (registry_path wid)"
    using assms(1) by (auto simp: url_laws_def)
qed

lemma agent_deregister_unrouted:
  "find_route DELETE (url_path (registry_path wid)) = None \<Longrightarrow> agent_deregister rd cfg url_path key reached wid g = g"
  by (simp add: agent_deregister_def)

lemma worker_id_nonempty: "get_or_create_worker_id ov host hex file = (wid, file') \<Longrightarrow> wid \<noteq> []"
  by (auto simp: get_or_create_worker_id_def Let_def split: if_splits option.splits list.splits)

section \<open>Lemmas on texts\<close>

lemma space_code: "is_space c \<Longrightarrow> code c \<le> 32 \<or> code c = 133 \<or> code c = 160"
  by (auto simp: is_space_def)

lemma hd_lower_space: "is_space (lower_char c) \<longleftrightarrow> is_space c"
proof (cases "lower_char c = c")
  case False
  then have c: "(65 \<le> code c \<and> code c \<le> 90) \<or> (192 \<le> code c \<and> code c \<le> 222 \<and> code c \<noteq> 215)"
    unfolding lower_char_def by argo
  then have "lower_char c = char_of (code c + 32)" by (simp only: lower_char_def if_True)
  then have "code (lower_char c) = (code c + 32) mod 256" by simp
  then have "code (lower_char c) = code c + 32" using c by (simp only:) (intro mod_less, linarith)
  then have "\<not> is_space (lower_char c)" "\<not> is_space c"
    using c(1) space_code [of c] space_code [of "lower_char c"] by linarith+
  then show ?thesis by simp
qed simp

lemma fresh_id_clean:
  assumes "host = [] \<or> \<not> is_space (hd host)" "hex \<noteq> []" "\<forall>c \<in> set hex. \<not> is_space c"
  shows "strip (str_lower host @ ''-'' @ take 6 hex) = str_lower host @ ''-'' @ take 6 hex"
proof (rule strip_clean)
  show "\<not> is_space (hd (str_lower host @ ''-'' @ take 6 hex))"
  proof (cases host)
    case Nil
    then show ?thesis by (simp add: str_lower_def is_space_def)
  next
    case (Cons c cs)
    then show ?thesis using assms(1) by (simp add: str_lower_def hd_lower_space)
  qed
  have "take 6 hex \<noteq> []" using assms(2) by simp
  then have "last (str_lower host @ ''-'' @ take 6 hex) \<in> set (take 6 hex)" by simp
  then show "\<not> is_space (last (str_lower host @ ''-'' @ take 6 hex))" using assms(3) in_set_takeD by fastforce
qed simp

lemma last_field_append: "c \<notin> set t \<Longrightarrow> last_field c (s @ c # t) = t"
proof (induction s)
  case Nil
  then show ?case by (simp add: last_field_def str_split_plain)
next
  case (Cons x s)
  have "last (str_split c (x # s @ c # t)) = last (str_split c (s @ c # t))"
  proof (cases "x = c")
    case False
    obtain f fs where f: "str_split c (s @ c # t) = f # fs" by (metis list.exhaust str_split_nonempty)
    have "length (str_split c (s @ c # t)) \<noteq> 1"
    proof
      assume "length (str_split c (s @ c # t)) = 1"
      then have "str_split c (s @ c # t) = [f]" using f by simp
      then have "c \<notin> set (s @ c # t)" using str_join_split [of c "s @ c # t"] str_split_no_sep [of f c "s @ c # t"] by simp
      then show False by simp
    qed
    with f False show ?thesis by simp
  qed simp
  with Cons show ?case by (simp add: last_field_def)
qed

lemma show_int_clean: "0 \<le> p \<Longrightarrow> CHR '':'' \<notin> set (show_int p) \<and> CHR ''/'' \<notin> set (show_int p)"
  using show_nat_digits [of _ "nat p"] by (fastforce simp: show_int_def)

section \<open>Properties\<close>

text \<open>
  C13. The life of a machine in the registry: through any sequence of heartbeats, lost or delivered,
  its profile is the last one delivered with the registration time of the first, no other machine's
  profile changes, the stop signal removes it unless the agent was told not to, the request is
  lost or the id has a slash, and nothing of this reaches the balancer or the context.
\<close>

theorem agent_lifecycle:
  assumes "keyspace_laws rd kv members" and "registry_full kv (gw_redis g)"
    and "ar_gateway_key ar = Some (gw_settings.api_key cfg)" and "\<not> ar_once ar"
    and "get_or_create_worker_id (ar_worker_id ar) (ah_name ah) (ah_hex ah) file = (wid, file')"
    and "nm = opt_or (ar_name ar) (ah_name ah)"
    and "addr = opt_or (ar_worker_url ar) (default_worker_url (detect_lan_ip (ah_lan_ip ah)) (ar_ollama_url ar))"
    and "list_all (beat_ok ar wid addr nm) (b # bs)" and "url_laws url_path" and "plain_path (registry_path wid)"
    and "gone \<longleftrightarrow> \<not> ar_no_deregister ar \<and> goodbye \<and> CHR ''/'' \<notin> set wid"
  shows "\<exists>g'. agent_run rd cfg url_path ar ah b bs goodbye (file, g) = (Stopped, (file', g'))
    \<and> profile kv (gw_redis g') wid = (if gone then None
         else fold (spec_beat ar wid addr nm) (b # bs) (profile kv (gw_redis g) wid))
    \<and> (\<forall>j. j \<noteq> wid \<longrightarrow> profile kv (gw_redis g') j = profile kv (gw_redis g) j)
    \<and> (gone \<longrightarrow> wid \<notin> members (gw_redis g') workers_set_key)
    \<and> gw_lb g' = gw_lb g \<and> gw_cm g' = gw_cm g"
proof -
  obtain ok g1 where g1: "agent_beat rd cfg ar wid addr nm b g = (Inr ok, g1)" "registry_full kv (gw_redis g1)"
      "profile kv (gw_redis g1) wid = spec_beat ar wid addr nm b (profile kv (gw_redis g) wid)"
      "\<forall>j. j \<noteq> wid \<longrightarrow> profile kv (gw_redis g1) j = profile kv (gw_redis g) j"
      "gw_lb g1 = gw_lb g" "gw_cm g1 = gw_cm g"
    using agent_beat_spec [OF assms(1,2) _ assms(3), of wid addr nm b] assms(8) by auto
  obtain g2 where g2: "heartbeats rd cfg ar wid addr nm bs g1 = (Inr (), g2)" "registry_full kv (gw_redis g2)"
      "profile kv (gw_redis g2) wid = fold (spec_beat ar wid addr nm) bs (profile kv (gw_redis g1) wid)"
      "\<forall>j. j \<noteq> wid \<longrightarrow> profile kv (gw_redis g2) j = profile kv (gw_redis g1) j"
      "gw_lb g2 = gw_lb g1" "gw_cm g2 = gw_cm g1"
    using heartbeats_spec [OF assms(1,3) g1(2), of wid addr nm bs] assms(8) by auto
  let ?g = "if ar_no_deregister ar then g2 else agent_deregister rd cfg url_path (ar_gateway_key ar) goodbye wid g2"
  have run: "agent_run rd cfg url_path ar ah b bs goodbye (file, g) = (Stopped, (file', ?g))"
    using assms(4) g1(1) g2(1) by (simp add: agent_run_def assms(5) Let_def flip: assms(6,7))
  show ?thesis
  proof (cases gone)
    case False
    then have "?g = g2"
      using assms(11) url_find_deregister(1) [OF assms(9,10) worker_id_nonempty [OF assms(5)]]
      by (auto simp: agent_deregister_def)
    with False run g1 g2 show ?thesis by (intro exI [of _ g2]) auto
  next
    case True
    then have "?g = agent_deregister rd cfg url_path (ar_gateway_key ar) True wid g2" using assms(11) by simp
    moreover have "find_route DELETE (url_path (registry_path wid)) = Some (DeregisterR wid)"
      using True assms(11) url_find_deregister(1) [OF assms(9,10) worker_id_nonempty [OF assms(5)]] by simp
    ultimately show ?thesis
      using True run g1 g2 agent_deregister_route [OF assms(1,3), of url_path wid wid g2] by (intro exI [of _ ?g]) simp
  qed
qed

definition demo_args :: agent_args where
  "demo_args = \<lparr>ar_gateway_key = Some ''secret'', ar_ollama_url = ''http://localhost:11434'', ar_worker_url = None,
     ar_name = None, ar_worker_id = None, ar_ram_gb = Some (JFloat 160 1), ar_vram_gb = None, ar_no_gpu = True,
     ar_once = False, ar_no_deregister = False\<rparr>"

definition demo_host :: agent_host where
  "demo_host = \<lparr>ah_name = ''mac'', ah_hex = ''abcdef01'', ah_lan_ip = Some ''10.0.0.7''\<rparr>"

definition demo_beat :: "bool \<Rightarrow> json \<Rightarrow> beat" where
  "demo_beat reached now = \<lparr>be_platform = \<lparr>pf_system = ''Linux'', pf_machine = ''x86'', pf_meminfo = [], pf_sysctl = [],
     pf_win_total = 0, pf_nvidia = Inl (ServiceError [])\<rparr>, be_answer = Inr (JDict []), be_now = now, be_reached = reached\<rparr>"

lemma demo_beat_ok: "beat_ok demo_args wid addr nm (demo_beat reached (JFloat 15 1))"
  by (simp add: beat_ok_def beat_record_def build_payload_def demo_args_def demo_beat_def detect_local_models_def
      json_get_def dict_get_def request_of_payload_def wf_record_def record_dict_def record_of_request_def Let_def)

theorem agent_lifecycle_witness:
  "\<exists>g' wid. agent_run ref_redis demo_settings cut_url demo_args demo_host (demo_beat True (JFloat 15 1))
      [demo_beat False (JFloat 15 1), demo_beat True (JFloat 15 1)] True (None, demo_gateway [''a''])
      = (Stopped, (Some wid, g')) \<and> profile ref_kv (gw_redis g') wid = None"
proof -
  let ?wid = "str_lower ''mac'' @ ''-'' @ take 6 ''abcdef01''"
  have full: "registry_full ref_kv (gw_redis (demo_gateway [''a'']))"
    by (simp add: registry_full_def demo_gateway_def demo_world_def demo_stream_def ref_empty_def)
  have wid: "get_or_create_worker_id (ar_worker_id demo_args) (ah_name demo_host) (ah_hex demo_host) None = (?wid, Some ?wid)"
    by (simp add: get_or_create_worker_id_def demo_args_def demo_host_def Let_def)
  have beats: "list_all (beat_ok demo_args w addr nm) [demo_beat True (JFloat 15 1), demo_beat False (JFloat 15 1),
      demo_beat True (JFloat 15 1)]" for w addr nm
    by (simp only: list.pred_inject demo_beat_ok simp_thms)
  have key: "ar_gateway_key demo_args = Some (gw_settings.api_key demo_settings)" and once: "\<not> ar_once demo_args"
    and gone: "True \<longleftrightarrow> \<not> ar_no_deregister demo_args \<and> True \<and> CHR ''/'' \<notin> set ?wid"
    and path: "plain_path (registry_path ?wid)"
    by (simp_all add: demo_args_def demo_settings_def plain_path_def registry_path_def api_prefix_def str_lower_def lower_char_def)
  from agent_lifecycle [OF ref_keyspace_laws full key once wid refl refl beats cut_url_laws path gone]
  show ?thesis unfolding if_True by (elim exE conjE) (intro exI conjI)
qed

text \<open>
  C36. An id is written into the URL that deregisters it. An id without a slash, a question mark or a hash
  removes exactly its machine. One with a slash removes nothing, and one with a question mark or a
  hash removes the machine whose id is the part before it, and stays.
\<close>

theorem deregister_by_url:
  assumes "keyspace_laws rd kv members" and "key = Some (gw_settings.api_key cfg)"
    and "url_laws url_path" and "plain_path (registry_path wid)" and "wid \<noteq> []" and "c \<in> {CHR ''?'', CHR ''#''}"
  shows "profile kv (gw_redis (agent_deregister rd cfg url_path key True wid g)) =
      (if CHR ''/'' \<in> set wid then profile kv (gw_redis g) else (profile kv (gw_redis g))(wid := None))
    \<and> profile kv (gw_redis (agent_deregister rd cfg url_path key True (wid @ c # t) g)) =
      (if CHR ''/'' \<in> set wid then profile kv (gw_redis g) else (profile kv (gw_redis g))(wid := None))"
proof -
  have find: "find_route DELETE (url_path (registry_path i)) = (if CHR ''/'' \<in> set wid then None else Some (DeregisterR wid))"
    if "i \<in> {wid, wid @ c # t}" for i
  proof -
    have "url_path (registry_path i) = url_path (registry_path wid)"
      using that url_find_deregister(2) [OF assms(3-5) assms(6)] by (metis insertE singletonD)
    then show ?thesis by (simp only: url_find_deregister(1) [OF assms(3-5)])
  qed
  have "profile kv (gw_redis (agent_deregister rd cfg url_path key True i g)) =
      (if CHR ''/'' \<in> set wid then profile kv (gw_redis g) else (profile kv (gw_redis g))(wid := None))"
    if "i \<in> {wid, wid @ c # t}" for i
  proof (cases "CHR ''/'' \<in> set wid")
    case True
    then show ?thesis using find [OF that] by (simp add: agent_deregister_unrouted)
  next
    case False
    then have "find_route DELETE (url_path (registry_path i)) = Some (DeregisterR wid)" using find [OF that] by simp
    from agent_deregister_route(1) [where url_path = url_path, OF assms(1,2) this] show ?thesis
      unfolding if_not_P [OF False] by (intro ext) (simp only: fun_upd_apply)
  qed
  then show ?thesis by simp
qed

theorem deregister_by_url_witness:
  "profile ref_kv (gw_redis (agent_deregister ref_redis demo_settings cut_url (Some ''secret'') True ''mac?2'' (demo_gateway [''a'']))) =
     (profile ref_kv (gw_redis (demo_gateway [''a''])))(''mac'' := None)"
proof -
  have path: "plain_path (registry_path ''mac'')" by (simp add: plain_path_def registry_path_def api_prefix_def)
  have key: "Some ''secret'' = Some (gw_settings.api_key demo_settings)" by (simp add: demo_settings_def)
  have parts: "''mac'' \<noteq> []" "CHR ''?'' \<in> {CHR ''?'', CHR ''#''}" "CHR ''/'' \<notin> set ''mac''" "''mac'' @ CHR ''?'' # ''2'' = ''mac?2''"
    by simp_all
  from deregister_by_url [OF ref_keyspace_laws key cut_url_laws path parts(1,2), where g = "demo_gateway [''a'']" and t = "''2''", THEN conjunct2]
  show ?thesis unfolding parts(4) if_not_P [OF parts(3)] .
qed

text \<open>
  A machine keeps its identity: without an override the id of the first run is the id of every
  later run, whatever the host is called then, and an id that is in the file already is used as it
  is; an override leaves the file alone.
\<close>

theorem worker_id_stable:
  assumes "host = [] \<or> \<not> is_space (hd host)" and "hex \<noteq> []" and "\<forall>c \<in> set hex. \<not> is_space c"
    and "get_or_create_worker_id None host hex file = (wid, file')"
  shows "get_or_create_worker_id None host' hex' file' = (wid, file') \<and> wid \<noteq> [] \<and> strip wid = wid
    \<and> (\<forall>o'. o' \<noteq> [] \<longrightarrow> get_or_create_worker_id (Some o') host' hex' file' = (o', file'))"
proof -
  let ?fresh = "str_lower host @ ''-'' @ take 6 hex"
  have wid: "wid \<noteq> []" "strip wid = wid" "file' \<noteq> None" "strip (the file') = wid"
    using assms(4) fresh_id_clean [OF assms(1-3)]
    by (auto simp: get_or_create_worker_id_def Let_def split: if_splits option.splits)
  then have "get_or_create_worker_id None host' hex' file' = (wid, file')"
    by (auto simp: get_or_create_worker_id_def Let_def)
  moreover have "get_or_create_worker_id (Some o') host' hex' file' = (o', file')" if "o' \<noteq> []" for o'
    using that by (cases o') (simp_all add: get_or_create_worker_id_def)
  ultimately show ?thesis using wid by simp
qed

theorem worker_id_stable_witness:
  "get_or_create_worker_id None ''other'' ''ffffff'' (Some ''mac-abcdef'') = (''mac-abcdef'', Some ''mac-abcdef'')"
proof -
  have "get_or_create_worker_id None ''Mac'' ''abcdef01'' None = (''mac-abcdef'', Some ''mac-abcdef'')"
    by code_simp
  from worker_id_stable [OF _ _ _ this, THEN conjunct1] show ?thesis by (simp add: is_space_def)
qed

text \<open>
  The port of the address a machine advertises is the one of its Ollama URL, unless that URL ends
  in a slash: then the port is silently the default one.
\<close>

theorem trailing_slash_loses_port:
  assumes "0 \<le> p"
  shows "default_worker_url ip (h @ '':'' @ show_int p @ ''/'') = ''http://'' @ ip @ '':'' @ show_int 11434
    \<and> (CHR ''/'' \<notin> set h \<longrightarrow> default_worker_url ip (''http://'' @ h @ '':'' @ show_int p) = ''http://'' @ ip @ '':'' @ show_int p)"
proof (intro conjI impI)
  note d = show_int_clean [OF assms]
  have "last_field (CHR ''/'') ((h @ '':'' @ show_int p) @ CHR ''/'' # []) = []" by (rule last_field_append) simp
  then show "default_worker_url ip (h @ '':'' @ show_int p @ ''/'') = ''http://'' @ ip @ '':'' @ show_int 11434"
    by (simp add: default_worker_url_def Let_def)
  assume h: "CHR ''/'' \<notin> set h"
  have "last_field (CHR ''/'') (''http:/'' @ CHR ''/'' # (h @ '':'' @ show_int p)) = h @ '':'' @ show_int p"
    using h d by (intro last_field_append) simp
  moreover have "last_field (CHR '':'') ((''http://'' @ h) @ CHR '':'' # show_int p) = show_int p"
    using d by (intro last_field_append) simp
  moreover have "hd (str_split (CHR ''/'') (show_int p)) = show_int p" using d by (simp add: str_split_plain)
  ultimately show "default_worker_url ip (''http://'' @ h @ '':'' @ show_int p) = ''http://'' @ ip @ '':'' @ show_int p"
    by (simp add: default_worker_url_def Let_def py_int_show)
qed

theorem trailing_slash_loses_port_witness:
  "default_worker_url ''10.0.0.7'' (''localhost'' @ '':'' @ show_int 9999 @ ''/'') = ''http://'' @ ''10.0.0.7'' @ '':'' @ show_int 11434"
  by (rule trailing_slash_loses_port [THEN conjunct1]) simp

end
