(* ===== verification/Benchmarks.thy ===== *)
theory Benchmarks
  imports LoadBalancer
begin

text \<open>
  The computations of the measuring scripts: the percentile both \<^verbatim>\<open>scripts/benchmark.py\<close> and
  \<^verbatim>\<open>scripts/simulate.py\<close> report, the agents of the simulator with its report, and the routing
  experiment \<^verbatim>\<open>benchmarks/experiments/context_aware_routing.py\<close>, which runs the real balancer on three
  workers of different capacity. Random numbers, clocks and the answers of the gateway are arguments;
  printing is not modelled. Floats are reals.
\<close>

section \<open>Percentiles\<close>

text \<open>\<open>xs[i]\<close>, and \<open>int\<close> of a float, which truncates.\<close>

definition py_index :: "'a list \<Rightarrow> int \<Rightarrow> 'a result" where
  "py_index xs i =
     (let j = (if i < 0 then i + int (length xs) else i)
      in if 0 \<le> j \<and> j < int (length xs) then Inr (xs ! nat j) else Inl (IndexError ''list index out of range''))"

definition py_trunc :: "real \<Rightarrow> int" where
  "py_trunc x = (if 0 \<le> x then \<lfloor>x\<rfloor> else \<lceil>x\<rceil>)"

definition percentile :: "real list \<Rightarrow> real \<Rightarrow> real result" where
  "percentile xs pct =
     (if xs = [] then Inr 0
      else if length xs = 1 then py_index xs 0
      else
        (let rank = (pct / 100) * of_int (int (length xs) - 1);
             lo = py_trunc rank;
             hi = min (lo + 1) (int (length xs) - 1);
             frac = rank - of_int lo
         in case py_index xs lo of
              Inl e \<Rightarrow> Inl e
            | Inr a \<Rightarrow> (case py_index xs hi of Inl e \<Rightarrow> Inl e | Inr b \<Rightarrow> Inr (a + (b - a) * frac))))"

section \<open>The load benchmark\<close>

text \<open>\<open>one_request\<close>: the status of the answer, or \<open>None\<close> when the request raises.\<close>

definition one_request :: "real \<Rightarrow> nat option \<Rightarrow> real \<times> bool \<times> nat" where
  "one_request elapsed answer =
     (case answer of Some st \<Rightarrow> (elapsed, st = 200, st) | None \<Rightarrow> (elapsed, False, 0))"

text \<open>\<open>collections.Counter\<close>\<close>

definition py_counter :: "nat list \<Rightarrow> (nat \<times> nat) list" where
  "py_counter xs = fold (\<lambda>x d. AList.update x (case map_of d x of None \<Rightarrow> 1 | Some n \<Rightarrow> n + 1) d) xs []"

definition py_mean :: "real list \<Rightarrow> real" where
  "py_mean xs = sum_list xs / real (length xs)"

record latency_report =
  lr_mean :: real
  lr_p50 :: "real result"
  lr_p95 :: "real result"
  lr_p99 :: "real result"
  lr_min :: real
  lr_max :: real

record bench_report =
  bn_ok :: nat
  bn_failed :: int
  bn_throughput :: "real result"
  bn_latency :: "latency_report option"
  bn_codes :: "(nat \<times> nat) list option"

definition bench_report_of :: "nat \<Rightarrow> real \<Rightarrow> (real \<times> bool \<times> nat) list \<Rightarrow> bench_report" where
  "bench_report_of n wall results =
     (let statuses = map (\<lambda>(elapsed, ok, st). st) results;
          latencies = sort (map fst (filter (\<lambda>(elapsed, ok, st). ok) results));
          ok_count = length latencies;
          fail_count = int n - int ok_count
      in \<lparr>bn_ok = ok_count, bn_failed = fail_count,
           bn_throughput = (if wall = 0 then Inl ZeroDivisionError else Inr (real n / wall)),
           bn_latency =
             (if ok_count \<noteq> 0
              then Some \<lparr>lr_mean = py_mean latencies, lr_p50 = percentile latencies 50, lr_p95 = percentile latencies 95,
                     lr_p99 = percentile latencies 99, lr_min = hd latencies, lr_max = last latencies\<rparr>
              else None),
           bn_codes = (if fail_count \<noteq> 0 then Some (py_counter statuses) else None)\<rparr>)"

section \<open>The simulator\<close>

record workload_profile =
  wp_name :: string
  prompt_lengths :: "nat \<times> nat"
  think_time :: "real \<times> real"
  requests_per_burst :: "nat \<times> nat"

definition profiles :: "workload_profile list" where
  "profiles =
     [\<lparr>wp_name = ''coding'', prompt_lengths = (60, 200), think_time = (2 / 10, 8 / 10), requests_per_burst = (3, 6)\<rparr>,
      \<lparr>wp_name = ''research'', prompt_lengths = (300, 700), think_time = (15 / 10, 3), requests_per_burst = (2, 3)\<rparr>,
      \<lparr>wp_name = ''batch'', prompt_lengths = (20, 60), think_time = (0, 2 / 10), requests_per_burst = (5, 10)\<rparr>]"

text \<open>\<open>len\<close> is the random length.\<close>

definition make_prompt :: "nat \<Rightarrow> string" where
  "make_prompt len = take len (''Summarize the following in one sentence: '' @ concat (replicate 60 ''context data. ''))"

definition assign_workloads :: "nat \<Rightarrow> string \<Rightarrow> (nat \<Rightarrow> string) \<Rightarrow> string list" where
  "assign_workloads n workload choice =
     (if workload \<noteq> ''mixed'' then replicate n workload else map choice [0..<n])"

record request_result =
  res_workload :: string
  res_latency :: real
  res_ok :: bool
  res_status :: nat

text \<open>
  One agent: a burst is the list of its requests, each with the clock read before it, the latency
  and whether it was answered; the first component of a burst is the clock the outer loop reads.
\<close>

type_synonym request_sample = "real \<times> real \<times> bool"

fun run_burst :: "string \<Rightarrow> real \<Rightarrow> request_sample list \<Rightarrow> request_result list" where
  "run_burst w end_time [] = []"
| "run_burst w end_time ((now, latency, ok) # rs) =
     (if end_time \<le> now then []
      else \<lparr>res_workload = w, res_latency = latency, res_ok = ok, res_status = (if ok then 200 else 0)\<rparr>
           # run_burst w end_time rs)"

fun run_agent :: "string \<Rightarrow> real \<Rightarrow> (real \<times> request_sample list) list \<Rightarrow> request_result list" where
  "run_agent w end_time [] = []"
| "run_agent w end_time ((now, burst) # bursts) =
     (if now < end_time then run_burst w end_time burst @ run_agent w end_time bursts else [])"

record workload_row =
  row_name :: string
  row_requests :: nat
  row_failed :: nat
  row_p50 :: "real result"

record sim_report =
  rep_total :: nat
  rep_failed :: nat
  rep_throughput :: "real result"
  rep_percentiles :: "real result list"
  rep_latencies :: "real list"
  rep_rows :: "workload_row list"

definition percentile_ms :: "real list \<Rightarrow> real \<Rightarrow> real result" where
  "percentile_ms xs p = (case percentile xs p of Inl e \<Rightarrow> Inl e | Inr v \<Rightarrow> Inr (v * 1000))"

definition workload_row_of :: "request_result list \<Rightarrow> string \<Rightarrow> workload_row option" where
  "workload_row_of rs name =
     (let subset = sort (map res_latency (filter (\<lambda>r. res_workload r = name \<and> res_ok r) rs));
          failed = length (filter (\<lambda>r. res_workload r = name \<and> \<not> res_ok r) rs)
      in if subset = [] \<and> failed = 0 then None
         else Some \<lparr>row_name = name, row_requests = length subset + failed, row_failed = failed,
                row_p50 = (if subset = [] then Inr 0 else percentile_ms subset 50)\<rparr>)"

definition sim_report_of :: "real \<Rightarrow> request_result list \<Rightarrow> sim_report" where
  "sim_report_of wall rs =
     (let all_latencies = sort (map res_latency (filter res_ok rs))
      in \<lparr>rep_total = length rs, rep_failed = length (filter (\<lambda>r. \<not> res_ok r) rs),
           rep_throughput = (if wall = 0 then Inl ZeroDivisionError else Inr (real (length rs) / wall)),
           rep_percentiles = (if all_latencies \<noteq> [] then map (percentile_ms all_latencies) [50, 95, 99] else []),
           rep_latencies = all_latencies,
           rep_rows = List.map_filter (workload_row_of rs) (map wp_name profiles)\<rparr>)"

section \<open>The routing experiment\<close>

record scenario =
  sc_name :: string
  sc_context_tokens :: int
  sc_expected :: "string list"

definition heterogeneous_fleet :: "lb_config \<Rightarrow> balancer" where
  "heterogeneous_fleet cfg =
     update_client 2 (\<lambda>w. w\<lparr>stats := (stats w)\<lparr>active_requests := 50\<rparr>\<rparr>)
       (update_client 2 (\<lambda>w. w\<lparr>max_context_tokens := 32768\<rparr>)
         (update_client 1 (\<lambda>w. w\<lparr>max_context_tokens := 8192\<rparr>)
           (update_client 0 (\<lambda>w. w\<lparr>max_context_tokens := 32768\<rparr>)
             (new_balancer cfg [''http://worker-a'', ''http://worker-b'', ''http://worker-c'']))))"

definition scenarios :: "scenario list" where
  "scenarios =
     [\<lparr>sc_name = ''small request (100 tokens)'', sc_context_tokens = 100,
        sc_expected = [''http://worker-a'', ''http://worker-b'', ''http://worker-c'']\<rparr>,
      \<lparr>sc_name = ''medium request (16000 tokens)'', sc_context_tokens = 16000,
        sc_expected = [''http://worker-a'', ''http://worker-c'']\<rparr>,
      \<lparr>sc_name = ''oversized request (100000 tokens)'', sc_context_tokens = 100000, sc_expected = []\<rparr>]"

record routing_result =
  rt_scenario :: string
  rt_tokens :: int
  rt_eligible :: "string list"
  rt_expected :: "string list"
  rt_matches :: bool
  rt_picked :: "string option"
  rt_rejected :: bool

fun is_no_capacity :: "py_exc \<Rightarrow> bool" where
  "is_no_capacity (NoCapacityError _) = True"
| "is_no_capacity _ = False"

text \<open>One scenario on a fresh fleet; only \<open>NoCapacityError\<close> is caught.\<close>

definition run_scenario :: "lb_config \<Rightarrow> real \<Rightarrow> scenario \<Rightarrow> routing_result result" where
  "run_scenario cfg now sc =
     (case available_workers now (Some (sc_context_tokens sc)) (heterogeneous_fleet cfg) of
        (Inl e, lb) \<Rightarrow> Inl e
      | (Inr ws, lb) \<Rightarrow>
          (let eligible = map curl ws;
               row = (\<lambda>p r. \<lparr>rt_scenario = sc_name sc, rt_tokens = sc_context_tokens sc, rt_eligible = eligible,
                        rt_expected = sc_expected sc, rt_matches = (eligible = sc_expected sc),
                        rt_picked = p, rt_rejected = r\<rparr>)
           in case fst (pick_worker (strategy cfg) now now (Some (sc_context_tokens sc)) lb) of
                Inr w \<Rightarrow> Inr (row (Some (curl w)) False)
              | Inl e \<Rightarrow> if is_no_capacity e then Inr (row None True) else Inl e))"

fun run_scenarios :: "lb_config \<Rightarrow> real \<Rightarrow> scenario list \<Rightarrow> routing_result list result" where
  "run_scenarios cfg now [] = Inr []"
| "run_scenarios cfg now (sc # scs) =
     (case run_scenario cfg now sc of
        Inl e \<Rightarrow> Inl e
      | Inr r \<Rightarrow> (case run_scenarios cfg now scs of Inl e \<Rightarrow> Inl e | Inr rs \<Rightarrow> Inr (r # rs)))"

definition routing_experiment :: "lb_config \<Rightarrow> real \<Rightarrow> routing_result list result" where
  "routing_experiment cfg now = run_scenarios cfg now scenarios"

section \<open>Lemmas\<close>

lemma map_of_counter:
  "map_of (fold (\<lambda>x d. AList.update x (case map_of d x of None \<Rightarrow> 1 | Some n \<Rightarrow> n + 1) d) xs d) k =
     (if k \<in> set xs \<or> map_of d k \<noteq> None then Some ((case map_of d k of None \<Rightarrow> 0 | Some n \<Rightarrow> n) + count_list xs k) else None)"
  by (induction xs arbitrary: d) (auto simp: update_conv split: option.splits)

lemma map_of_py_counter: "map_of (py_counter xs) k = (if k \<in> set xs then Some (count_list xs k) else None)"
  by (simp add: py_counter_def map_of_counter)

lemma py_counter_get: "(case map_of (py_counter xs) k of None \<Rightarrow> 0 | Some n \<Rightarrow> n) = count_list xs k"
  by (simp add: map_of_py_counter count_list_0_iff)

lemma one_request_ok:
  "length (filter (\<lambda>(elapsed, ok, st). ok) (map (\<lambda>(elapsed, a). one_request elapsed a) as)) =
     length (filter (\<lambda>(elapsed, a). a = Some 200) as)"
  by (induction as) (auto simp: one_request_def split: option.splits)

lemma one_request_codes:
  "k \<noteq> 0 \<Longrightarrow> count_list (map (\<lambda>(elapsed, ok, st). st) (map (\<lambda>(elapsed, a). one_request elapsed a) as)) k =
     length (filter (\<lambda>(elapsed, a). a = Some k) as)"
  by (induction as) (auto simp: one_request_def split: option.splits)

lemma py_mean_between:
  assumes "sorted xs" "xs \<noteq> []"
  shows "hd xs \<le> py_mean xs \<and> py_mean xs \<le> last xs"
proof -
  have b: "hd xs \<le> x \<and> x \<le> last xs" if "x \<in> set xs" for x
    using that assms by (auto simp: in_set_conv_nth hd_conv_nth last_conv_nth intro!: sorted_nth_mono)
  have "real (length ys) * hd xs \<le> sum_list ys \<and> sum_list ys \<le> real (length ys) * last xs" if "set ys \<subseteq> set xs" for ys
    using that
  proof (induction ys)
    case (Cons y ys)
    then show ?case using b [of y] by (simp add: algebra_simps)
  qed simp
  from this [of xs] assms(2) show ?thesis
    by (simp add: py_mean_def pos_le_divide_eq pos_divide_le_eq mult.commute)
qed

text \<open>Linear interpolation between the elements around a real position.\<close>

definition interp :: "real list \<Rightarrow> real \<Rightarrow> real" where
  "interp xs r =
     (let i = nat \<lfloor>r\<rfloor>; j = min (i + 1) (length xs - 1)
      in xs ! i + (xs ! j - xs ! i) * (r - real i))"

lemma percentile_interp:
  assumes "2 \<le> length xs" "0 \<le> pct" "pct \<le> 100"
  shows "percentile xs pct = Inr (interp xs (pct / 100 * real (length xs - 1)))"
proof -
  let ?r = "pct / 100 * real (length xs - 1)"
  have r: "0 \<le> ?r" "?r \<le> real (length xs - 1)"
    using assms mult_right_mono [of "pct / 100" 1 "real (length xs - 1)"] by simp_all
  have n: "of_int (int (length xs) - 1) = real (length xs - 1)" using assms(1) by (simp add: of_nat_diff)
  define i where "i = nat \<lfloor>?r\<rfloor>"
  have i: "\<lfloor>?r\<rfloor> = int i" using r(1) by (simp add: i_def)
  have "i \<le> length xs - 1" using r(2) unfolding i_def by (simp add: nat_le_iff floor_le_iff)
  then have il: "i < length xs" using assms(1) by simp
  have j: "min (int i + 1) (int (length xs) - 1) = int (min (i + 1) (length xs - 1))" using assms(1) by (simp add: of_nat_diff)
  have idx: "py_index xs (int k) = Inr (xs ! k)" if "k < length xs" for k using that by (simp add: py_index_def)
  have jl: "min (i + 1) (length xs - 1) < length xs" using assms(1) by simp
  have "xs \<noteq> []" "length xs \<noteq> 1" using assms(1) by auto
  then show ?thesis
    unfolding percentile_def Let_def n py_trunc_def using r(1)
    by (simp only: if_False if_True i j idx [OF il] idx [OF jl] sum.case of_int_of_nat_eq)
      (simp add: interp_def i_def Let_def)
qed

lemma interp_between:
  assumes "sorted xs" "0 \<le> r" "r \<le> real (length xs - 1)" "xs \<noteq> []"
  shows "xs ! nat \<lfloor>r\<rfloor> \<le> interp xs r \<and> interp xs r \<le> xs ! min (nat \<lfloor>r\<rfloor> + 1) (length xs - 1)"
proof -
  let ?i = "nat \<lfloor>r\<rfloor>" and ?j = "min (nat \<lfloor>r\<rfloor> + 1) (length xs - 1)"
  have "?i \<le> length xs - 1" using assms(3) by (simp add: nat_le_iff floor_le_iff)
  then have le: "xs ! ?i \<le> xs ! ?j"
    using assms(1,4) by (intro sorted_nth_mono) (simp_all add: min_less_iff_disj)
  have f: "0 \<le> r - real ?i" "r - real ?i \<le> 1" using assms(2) by (simp_all add: of_nat_floor) linarith
  have "0 \<le> (xs ! ?j - xs ! ?i) * (r - real ?i)" using le f by simp
  moreover have "(xs ! ?j - xs ! ?i) * (r - real ?i) \<le> xs ! ?j - xs ! ?i"
    using mult_left_mono [OF f(2), of "xs ! ?j - xs ! ?i"] le by simp
  ultimately show ?thesis by (simp add: interp_def Let_def)
qed

lemma interp_mono:
  assumes "sorted xs" "0 \<le> r" "r \<le> r'" "r' \<le> real (length xs - 1)" "xs \<noteq> []"
  shows "interp xs r \<le> interp xs r'"
proof -
  let ?i = "nat \<lfloor>r\<rfloor>" and ?i' = "nat \<lfloor>r'\<rfloor>"
  have ii: "?i \<le> ?i'" using assms(3) by (intro nat_mono floor_mono)
  have "?i' \<le> length xs - 1" using assms(4) by (simp add: nat_le_iff floor_le_iff)
  show ?thesis
  proof (cases "?i = ?i'")
    case True
    have "xs ! ?i \<le> xs ! min (?i + 1) (length xs - 1)"
      using assms(1,5) \<open>?i' \<le> length xs - 1\<close> True by (intro sorted_nth_mono) (simp_all add: min_less_iff_disj)
    then show ?thesis unfolding interp_def Let_def True [symmetric] using assms(3) by (simp add: mult_left_mono)
  next
    case False
    have "interp xs r \<le> xs ! min (?i + 1) (length xs - 1)" using interp_between [of xs r] assms by simp
    also have "\<dots> \<le> xs ! ?i'" using assms(1,5) ii False \<open>?i' \<le> length xs - 1\<close> by (intro sorted_nth_mono) simp_all
    also have "\<dots> \<le> interp xs r'" using interp_between [of xs r'] assms by simp
    finally show ?thesis .
  qed
qed

text \<open>The workers of the experiment, in the order of their URLs.\<close>

lemma fleet_inv: "0 < cb_threshold cfg \<Longrightarrow> lb_inv (heterogeneous_fleet cfg)"
  unfolding heterogeneous_fleet_def by (intro lb_inv_update_client lb_inv_new) simp_all

lemma fleet_workers:
  "map (\<lambda>w. (curl w, max_context_tokens w, is_healthy (stats w))) (workers (heterogeneous_fleet cfg)) =
     [(''http://worker-a'', 32768, True), (''http://worker-b'', 8192, True), (''http://worker-c'', 32768, True)]"
  by (simp add: heterogeneous_fleet_def update_client_def new_balancer_def make_client_def new_client_def new_stats_def)

lemma fleet_open: "w \<in> set (workers (heterogeneous_fleet cfg)) \<Longrightarrow> \<not> blocked now (breakers (heterogeneous_fleet cfg)) (curl w)"
  by (auto simp: heterogeneous_fleet_def update_client_def new_balancer_def make_client_def new_client_def new_stats_def
      blocked_def make_breaker_def new_breaker_def is_open_def)

lemma fleet_eligible:
  "map curl (eligible_workers now (Some n) (heterogeneous_fleet cfg)) =
     map fst (filter (\<lambda>(u, c, h). h \<and> n \<le> c)
       (map (\<lambda>w. (curl w, max_context_tokens w, is_healthy (stats w))) (workers (heterogeneous_fleet cfg))))"
proof -
  have "eligible_workers now (Some n) (heterogeneous_fleet cfg) =
      filter (\<lambda>w. is_healthy (stats w) \<and> n \<le> max_context_tokens w) (workers (heterogeneous_fleet cfg))"
    unfolding eligible_workers_def by (rule filter_cong) (auto simp: eligible_def fleet_open)
  then show ?thesis by (simp add: filter_map comp_def)
qed

lemma available_after:
  assumes "lb_inv lb"
  shows "available_workers now ctx lb = (Inr (eligible_workers now ctx lb), after_listing now lb)"
  using available_workers_eq [OF assms, of now ctx] by (simp add: after_listing_def eligible_workers_def)

lemma eligible_after: "eligible_workers now ctx (after_listing now lb) = eligible_workers now ctx lb"
proof -
  have "eligible now ctx (after_listing now lb) = eligible now ctx lb"
    by (rule ext) (simp add: eligible_def after_listing_def blocked_asked)
  then show ?thesis by (simp only: eligible_workers_def after_listing_sel)
qed

text \<open>One scenario answers with what is expected.\<close>

lemma run_scenario_eq:
  assumes "0 < cb_threshold cfg"
    and us: "us = map fst (filter (\<lambda>(u, c :: int, h). h \<and> sc_context_tokens sc \<le> c)
      [(''http://worker-a'', 32768, True), (''http://worker-b'', 8192, True), (''http://worker-c'', 32768, True)])"
  shows "\<exists>r. run_scenario cfg now sc = Inr r \<and> rt_eligible r = us \<and> rt_matches r = (us = sc_expected sc)
    \<and> (us = [] \<longrightarrow> rt_rejected r \<and> rt_picked r = None)
    \<and> (us \<noteq> [] \<longrightarrow> \<not> rt_rejected r \<and> (\<exists>u \<in> set us. rt_picked r = Some u))"
proof -
  let ?lb = "heterogeneous_fleet cfg" and ?n = "sc_context_tokens sc"
  have inv: "lb_inv ?lb" by (rule fleet_inv [OF assms(1)])
  have inv1: "lb_inv (after_listing now ?lb)"
    using lb_inv_asked [OF inv] by (simp add: after_listing_def)
  have el: "map curl (eligible_workers now (Some ?n) ?lb) = us" unfolding fleet_eligible fleet_workers us ..
  note av = available_after [OF inv, of now "Some ?n"]
  note pick = pick_worker_eq [OF inv1, of "strategy cfg" now now "Some ?n", unfolded eligible_after]
  show ?thesis
  proof (cases "us = []")
    case True
    then have e: "eligible_workers now (Some ?n) ?lb = []" using el by simp
    have "eligible_workers now None (after_listing now (after_listing now ?lb)) = workers ?lb"
    proof -
      have "\<forall>w \<in> set (workers ?lb). is_healthy (stats w)"
        by (auto simp: heterogeneous_fleet_def update_client_def new_balancer_def make_client_def new_client_def new_stats_def)
      then have "eligible_workers now None ?lb = workers ?lb"
        unfolding eligible_workers_def by (intro filter_True) (simp add: eligible_def fleet_open)
      then show ?thesis by (simp only: eligible_after)
    qed
    moreover have "workers ?lb \<noteq> []" using fleet_workers [of cfg] by auto
    ultimately have "fst (pick_worker (strategy cfg) now now (Some ?n) (after_listing now ?lb)) = Inl (no_capacity ?n)"
      unfolding pick Let_def by (simp add: e)
    then show ?thesis using True el by (simp add: run_scenario_def av e no_capacity_def Let_def)
  next
    case False
    then have e: "eligible_workers now (Some ?n) ?lb \<noteq> []" using el by auto
    obtain w where w: "fst (pick_worker (strategy cfg) now now (Some ?n) (after_listing now ?lb)) = Inr w"
        "w \<in> set (eligible_workers now (Some ?n) ?lb)"
      unfolding pick Let_def using e choose_worker_in [OF e] by (simp add: case_prod_beta)
    then have "curl w \<in> set us" using el by auto
    then show ?thesis using False el w(1) by (simp add: run_scenario_def av Let_def)
  qed
qed

lemma percentile_ordered:
  assumes "sorted xs" and "xs \<noteq> []" and "0 \<le> p" and "p \<le> q" and "q \<le> 100"
  shows "\<exists>a b. percentile xs p = Inr a \<and> percentile xs q = Inr b \<and> hd xs \<le> a \<and> a \<le> b \<and> b \<le> last xs
    \<and> (p = 0 \<longrightarrow> a = hd xs) \<and> (q = 100 \<longrightarrow> b = last xs)"
proof (cases "2 \<le> length xs")
  case False
  then obtain x where "xs = [x]" using assms(2) by (cases xs) (auto simp: Suc_le_eq)
  then show ?thesis by (simp add: percentile_def py_index_def)
next
  case two: True
  let ?r = "\<lambda>p. p / 100 * real (length xs - 1)"
  note ne = assms(2)
  have r: "0 \<le> ?r p" "?r p \<le> ?r q" "?r q \<le> ?r 100"
    using assms(3-5) mult_right_mono [of "q / 100" 1 "real (length xs - 1)"]
    by (simp_all add: mult_right_mono divide_right_mono)
  have ends: "interp xs (?r 0) = hd xs" "interp xs (?r 100) = last xs"
    using ne by (simp_all add: interp_def Let_def hd_conv_nth last_conv_nth)
  have "hd xs \<le> interp xs (?r p)" using interp_mono [OF assms(1), of "?r 0" "?r p"] r ne ends(1) by simp
  moreover have "interp xs (?r p) \<le> interp xs (?r q)" using interp_mono [OF assms(1) r(1,2) _ ne] r(3) by simp
  moreover have "interp xs (?r q) \<le> last xs"
    using interp_mono [OF assms(1), of "?r q" "?r 100"] r ne ends(2) by simp
  moreover have "percentile xs p = Inr (interp xs (?r p))" "percentile xs q = Inr (interp xs (?r q))"
    using assms two by (intro percentile_interp; simp)+
  ultimately show ?thesis using ends by (intro exI [of _ "interp xs (?r p)"] exI [of _ "interp xs (?r q)"]) auto
qed

lemma percentiles_grow:
  assumes "sorted xs" "xs \<noteq> []"
  shows "\<exists>p50 p95 p99. percentile xs 50 = Inr p50 \<and> percentile xs 95 = Inr p95 \<and> percentile xs 99 = Inr p99
    \<and> hd xs \<le> p50 \<and> p50 \<le> p95 \<and> p95 \<le> p99 \<and> p99 \<le> last xs"
  using percentile_ordered [OF assms, of 50 95] percentile_ordered [OF assms, of 95 99] by auto

section \<open>Properties\<close>

text \<open>
  A percentile of a non-empty sorted list of latencies is total for percentages from 0 to 100, lies between the
  smallest and the largest value, is the smallest at 0 and the largest at 100, and grows with the
  percentage.
\<close>

theorem percentile_bounds:
  assumes "sorted xs" and "xs \<noteq> []" and "0 \<le> p" and "p \<le> q" and "q \<le> 100"
  shows "\<exists>a b. percentile xs p = Inr a \<and> percentile xs q = Inr b \<and> hd xs \<le> a \<and> a \<le> b \<and> b \<le> last xs
    \<and> (p = 0 \<longrightarrow> a = hd xs) \<and> (q = 100 \<longrightarrow> b = last xs)"
  by (rule percentile_ordered [OF assms])

theorem percentile_bounds_witness:
  "\<exists>a b. percentile [1, 2, 4] 50 = Inr a \<and> percentile [1, 2, 4] 100 = Inr b \<and> a \<le> b \<and> b = 4"
  using percentile_bounds [of "[1, 2, 4]" 50 100] by auto

text \<open>
  The report of the load benchmark is consistent when every request has a result: successes and
  failures add up to the requests, every status is counted as often as it occurred, the mean and the
  three percentiles lie between the smallest and the largest latency, and the percentiles grow.
\<close>

theorem benchmark_report_consistent:
  assumes "length answers = n" and "rep = bench_report_of n wall (map (\<lambda>(elapsed, a). one_request elapsed a) answers)"
  shows "int (bn_ok rep) + bn_failed rep = int n \<and> bn_ok rep = length (filter (\<lambda>(elapsed, a). a = Some 200) answers)
    \<and> (bn_failed rep = 0 \<longleftrightarrow> (\<forall>(elapsed, a) \<in> set answers. a = Some 200))
    \<and> (\<forall>counts st. bn_codes rep = Some counts \<and> st \<noteq> 0 \<longrightarrow>
         (case map_of counts st of None \<Rightarrow> 0 | Some k \<Rightarrow> k) = length (filter (\<lambda>(elapsed, a). a = Some st) answers))
    \<and> (\<forall>l. bn_latency rep = Some l \<longrightarrow>
         lr_min l \<le> lr_mean l \<and> lr_mean l \<le> lr_max l
         \<and> (\<exists>p50 p95 p99. lr_p50 l = Inr p50 \<and> lr_p95 l = Inr p95 \<and> lr_p99 l = Inr p99
              \<and> lr_min l \<le> p50 \<and> p50 \<le> p95 \<and> p95 \<le> p99 \<and> p99 \<le> lr_max l))"
proof -
  let ?rs = "map (\<lambda>(elapsed, a). one_request elapsed a) answers"
  let ?ls = "sort (map fst (filter (\<lambda>(elapsed, ok, st). ok) ?rs))"
  let ?ok = "length (filter (\<lambda>(elapsed, a). a = Some 200) answers)"
  have ok: "length ?ls = ?ok" by (simp only: length_sort length_map one_request_ok)
  have parts: "bn_ok rep = ?ok" "bn_failed rep = int n - int ?ok"
      "bn_codes rep = (if int n - int ?ok \<noteq> 0 then Some (py_counter (map (\<lambda>(elapsed, ok, st). st) ?rs)) else None)"
      "bn_latency rep = (if ?ok \<noteq> 0
              then Some \<lparr>lr_mean = py_mean ?ls, lr_p50 = percentile ?ls 50, lr_p95 = percentile ?ls 95,
                     lr_p99 = percentile ?ls 99, lr_min = hd ?ls, lr_max = last ?ls\<rparr> else None)"
    unfolding assms(2) bench_report_of_def Let_def ok by simp_all
  have all: "?ok = n \<longleftrightarrow> (\<forall>(elapsed, a) \<in> set answers. a = Some 200)"
    using assms(1) filter_id_conv [of "\<lambda>(elapsed, a). a = Some 200" answers] length_filter_less [of _ answers]
    by (metis (no_types, lifting) filter_id_conv length_filter_less nat_neq_iff)
  have "(case map_of counts st of None \<Rightarrow> 0 | Some k \<Rightarrow> k) = length (filter (\<lambda>(elapsed, a). a = Some st) answers)"
    if "bn_codes rep = Some counts" "st \<noteq> 0" for counts st
  proof -
    have c: "counts = py_counter (map (\<lambda>(elapsed, ok, st). st) ?rs)" using that(1) parts(3)
      by (metis option.distinct(1) option.inject)
    show ?thesis unfolding c py_counter_get by (rule one_request_codes [OF that(2)])
  qed
  moreover have "lr_min l \<le> lr_mean l \<and> lr_mean l \<le> lr_max l
         \<and> (\<exists>p50 p95 p99. lr_p50 l = Inr p50 \<and> lr_p95 l = Inr p95 \<and> lr_p99 l = Inr p99
              \<and> lr_min l \<le> p50 \<and> p50 \<le> p95 \<and> p95 \<le> p99 \<and> p99 \<le> lr_max l)"
    if l: "bn_latency rep = Some l" for l
  proof -
    have ne: "?ls \<noteq> []" using l parts(4) ok by (metis list.size(3) option.distinct(1))
    have "l = \<lparr>lr_mean = py_mean ?ls, lr_p50 = percentile ?ls 50, lr_p95 = percentile ?ls 95,
        lr_p99 = percentile ?ls 99, lr_min = hd ?ls, lr_max = last ?ls\<rparr>"
      using l parts(4) by (simp split: if_splits)
    with py_mean_between [OF sorted_sort ne] percentiles_grow [OF sorted_sort ne] show ?thesis by simp
  qed
  moreover have "bn_failed rep = 0 \<longleftrightarrow> (\<forall>(elapsed, a) \<in> set answers. a = Some 200)"
    unfolding all [symmetric] parts(2) by linarith
  ultimately show ?thesis using parts(1,2) by (intro conjI allI impI) simp_all
qed

theorem benchmark_report_consistent_witness:
  "bn_failed (bench_report_of 2 1 (map (\<lambda>(elapsed, a). one_request elapsed a) [(1, Some 200), (2, None)])) = 1"
  using benchmark_report_consistent [of "[(1, Some 200), (2, None)]" 2 _ 1, OF _ refl] by simp

text \<open>
  The routing experiment succeeds with the code as it is, under every strategy and whatever the
  clock says: in each scenario the eligible workers are the expected ones, the busy worker among them,
  a request is routed to one of them, and only the oversized request is rejected for lack of capacity.
\<close>

theorem routing_experiment_succeeds:
  assumes "0 < cb_threshold cfg"
  shows "\<exists>rs. routing_experiment cfg now = Inr rs \<and> map rt_eligible rs = map sc_expected scenarios
    \<and> list_all rt_matches rs \<and> map rt_rejected rs = [False, False, True]
    \<and> list_all (\<lambda>r. case rt_picked r of None \<Rightarrow> rt_rejected r | Some u \<Rightarrow> u \<in> set (rt_eligible r)) rs"
proof -
  obtain s1 s2 s3 where sc: "scenarios = [s1, s2, s3]" "sc_context_tokens s1 = 100" "sc_context_tokens s2 = 16000"
      "sc_context_tokens s3 = 100000" "sc_expected s1 = [''http://worker-a'', ''http://worker-b'', ''http://worker-c'']"
      "sc_expected s2 = [''http://worker-a'', ''http://worker-c'']" "sc_expected s3 = []"
    by (simp add: scenarios_def)
  obtain r1 where r1: "run_scenario cfg now s1 = Inr r1" "rt_eligible r1 = sc_expected s1" "rt_matches r1"
      "\<not> rt_rejected r1" "\<exists>u \<in> set (sc_expected s1). rt_picked r1 = Some u"
    using run_scenario_eq [OF assms refl, of now s1] by (auto simp: sc)
  obtain r2 where r2: "run_scenario cfg now s2 = Inr r2" "rt_eligible r2 = sc_expected s2" "rt_matches r2"
      "\<not> rt_rejected r2" "\<exists>u \<in> set (sc_expected s2). rt_picked r2 = Some u"
    using run_scenario_eq [OF assms refl, of now s2] by (auto simp: sc)
  obtain r3 where r3: "run_scenario cfg now s3 = Inr r3" "rt_eligible r3 = sc_expected s3" "rt_matches r3"
      "rt_rejected r3" "rt_picked r3 = None"
    using run_scenario_eq [OF assms refl, of now s3] by (auto simp: sc)
  have "routing_experiment cfg now = Inr [r1, r2, r3]"
    by (simp add: routing_experiment_def sc(1) r1(1) r2(1) r3(1))
  then show ?thesis using r1 r2 r3 by (intro exI [of _ "[r1, r2, r3]"]) (auto simp: sc(1))
qed

theorem routing_experiment_succeeds_witness:
  "\<exists>rs. routing_experiment demo_config 0 = Inr rs \<and> map rt_rejected rs = [False, False, True]"
  using routing_experiment_succeeds [of demo_config 0] by (auto simp: demo_config_def)

lemma row_counts:
  "sum_by row_requests (List.map_filter (workload_row_of rs) names) =
     sum_by (\<lambda>n. length (filter (\<lambda>r. res_workload r = n) rs)) names"
  "sum_by row_failed (List.map_filter (workload_row_of rs) names) =
     sum_by (\<lambda>n. length (filter (\<lambda>r. res_workload r = n \<and> \<not> res_ok r) rs)) names"
proof -
  have split: "length (filter (\<lambda>r. res_workload r = n) rs) =
      length (filter (\<lambda>r. res_workload r = n \<and> res_ok r) rs) + length (filter (\<lambda>r. res_workload r = n \<and> \<not> res_ok r) rs)" for n
    by (induction rs) auto
  have z: "length (filter (\<lambda>r. res_workload r = n \<and> res_ok r) rs) = 0"
    if "sort (map res_latency (filter (\<lambda>r. res_workload r = n \<and> res_ok r) rs)) = []" for n
    using arg_cong [OF that, of length] by simp
  show "sum_by row_requests (List.map_filter (workload_row_of rs) names) =
     sum_by (\<lambda>n. length (filter (\<lambda>r. res_workload r = n) rs)) names"
    by (induction names) (auto simp: workload_row_of_def Let_def split dest: z)
  show "sum_by row_failed (List.map_filter (workload_row_of rs) names) =
     sum_by (\<lambda>n. length (filter (\<lambda>r. res_workload r = n \<and> \<not> res_ok r) rs)) names"
    by (induction names) (auto simp: workload_row_of_def Let_def)
qed

lemma sum_by_workload:
  "distinct names \<Longrightarrow> (\<forall>r \<in> set rs. res_workload r \<in> set names) \<Longrightarrow>
   sum_by (\<lambda>n. length (filter (\<lambda>r. res_workload r = n \<and> P r) rs)) names = length (filter P rs)"
proof (induction rs)
  case (Cons r rs)
  have "sum_by (\<lambda>n. if res_workload r = n then 1 else 0) names = (1 :: nat)"
    using Cons.prems by (simp add: sum_list_map_eq_sum_count count_list_distinct) 
  moreover have "length (filter (\<lambda>q. res_workload q = n \<and> P q) (r # rs)) =
      (if P r then if res_workload r = n then 1 else 0 else 0) + length (filter (\<lambda>q. res_workload q = n \<and> P q) rs)" for n
    by simp
  ultimately show ?case
    using Cons.IH Cons.prems by (simp only: sum_list_addf) simp
qed simp

text \<open>
  The rows account for every request: when every request belongs to one of the workloads, the
  requests and the failures of the rows add up to the totals.
\<close>

lemma simulation_accounts:
  assumes "\<forall>r \<in> set rs. res_workload r \<in> set (map wp_name profiles)"
  shows "sum_by row_requests (rep_rows (sim_report_of wall rs)) = rep_total (sim_report_of wall rs)
    \<and> sum_by row_failed (rep_rows (sim_report_of wall rs)) = rep_failed (sim_report_of wall rs)
    \<and> rep_total (sim_report_of wall rs) = rep_failed (sim_report_of wall rs) + length (rep_latencies (sim_report_of wall rs))
    \<and> sorted (rep_latencies (sim_report_of wall rs))"
proof -
  have d: "distinct (map wp_name profiles)" by (simp add: profiles_def)
  note all = sum_by_workload [OF d assms, of "\<lambda>_. True"]
  note bad = sum_by_workload [OF d assms, of "\<lambda>r. \<not> res_ok r"]
  have "length rs = length (filter (\<lambda>r. \<not> res_ok r) rs) + length (filter res_ok rs)"
    using sum_length_filter_compl [of res_ok rs] by simp
  with all bad show ?thesis by (simp add: sim_report_of_def row_counts Let_def)
qed

end
