(* ===== verification/Experiments.thy ===== *)
theory Experiments
  imports ContextSelection OllamaClient Benchmarks
begin

text \<open>
  The experiments over context selection and load: \<^verbatim>\<open>benchmarks/experiments/context_budgeting.py\<close>
  (the full history against a budgeted one), \<^verbatim>\<open>scripts/benchmark_context_selection.py\<close> (the policies on a
  synthetic workflow) and \<^verbatim>\<open>benchmarks/experiments/agent_bursts.py\<close> (the simulator at two scales).
  The content of \<open>calculator.py\<close>, the draws of the random generator, the ids and clocks of new items,
  the answers of the model and the wall clock are arguments; printing is not modelled.
\<close>

section \<open>Experiment 1: context budgeting\<close>

definition filler_topics :: "string list" where
  "filler_topics =
     [''What'' @ apostrophe # ''s a good pasta recipe for tonight?'',
      ''How do I center a div in CSS?'',
      ''What'' @ apostrophe # ''s the capital of France?'',
      ''Can you explain how photosynthesis works?'',
      ''What'' @ apostrophe # ''s the difference between TCP and UDP?'',
      ''Recommend a good sci-fi book.'',
      ''How do I fix a leaky faucet?'',
      ''What'' @ apostrophe # ''s the best way to learn a new language?'',
      ''Explain the offside rule in soccer.'',
      ''What'' @ apostrophe # ''s a good workout routine for beginners?'',
      ''How does compound interest work?'',
      ''What'' @ apostrophe # ''s the weather usually like in autumn?'',
      ''Can you summarize the plot of Hamlet?'',
      ''How do airplanes stay in the air?'',
      ''What'' @ apostrophe # ''s a good beginner recipe for bread?'',
      ''Explain how vaccines work.'',
      ''What'' @ apostrophe # ''s the tallest mountain in the world?'',
      ''How do I organize a small bookshelf?'',
      ''What'' @ apostrophe # ''s a good stretch routine after running?'',
      ''Explain how a refrigerator keeps things cold.'']"

definition task_prompt :: string where
  "task_prompt = ''Fix the failing test in calculator.py. In one short sentence, what exactly is wrong with the add function?''"

definition success_keywords :: "string list" where
  "success_keywords = [''subtract'', ''minus'', ''- b'', ''wrong operator'', ''should add'', ''incorrectly'']"

definition filler_content :: "string \<Rightarrow> string" where
  "filler_content topic =
     ''User: '' @ topic @ newline @ ''Assistant: [a normal, unrelated response about '' @ topic @ '']''"

text \<open>\<open>st i\<close> is what the default factories supply for the \<open>i\<close>-th item; \<open>created_at\<close> is overwritten.\<close>

definition filler_item :: "(nat \<Rightarrow> stamp) \<Rightarrow> string \<Rightarrow> nat \<times> string \<Rightarrow> context_item" where
  "filler_item st wid x =
     (new_item (st (fst x)) CONVERSATION (filler_content (snd x)))
       \<lparr>importance := 2 / 10, relevance := 15 / 100, workflow_id := Some wid, created_at := real (fst x)\<rparr>"

definition file_item :: "(nat \<Rightarrow> stamp) \<Rightarrow> string \<Rightarrow> string \<Rightarrow> context_item" where
  "file_item st wid calculator =
     (new_item (st (length filler_topics)) FILE (''calculator.py:'' @ newline @ calculator))
       \<lparr>importance := 9 / 10, relevance := 9 / 10, workflow_id := Some wid, source := Some ''calculator.py'',
         created_at := real (length filler_topics)\<rparr>"

definition build_context_pool :: "(nat \<Rightarrow> stamp) \<Rightarrow> string \<Rightarrow> string \<Rightarrow> context_item list" where
  "build_context_pool st calculator wid =
     map (filler_item st wid) (enumerate 0 filler_topics) @ [file_item st wid calculator]"

definition task_succeeded :: "string \<Rightarrow> bool" where
  "task_succeeded response_text = list_ex (\<lambda>k. contains k (str_lower response_text)) success_keywords"

record strategy_row =
  st_policy :: string
  st_budget :: int
  st_selected :: nat
  st_total :: nat
  st_estimated :: int
  st_actual :: json
  st_latency :: json
  st_response :: json
  st_success :: bool

definition strategy_prompt :: "selection_result \<Rightarrow> string" where
  "strategy_prompt sel = str_join (newline @ newline) (map content (selected sel)) @ newline @ newline @ task_prompt"

text \<open>
  One strategy on a worker: the exchange with it, its latency and the latency the experiment
  measures. The keyword check needs a text; on another JSON value \<open>lower\<close> raises.
\<close>

definition run_strategy ::
  "(json \<Rightarrow> py_exc option) \<Rightarrow> (string \<Rightarrow> real \<times> http_outcome) \<Rightarrow> real \<Rightarrow> string \<Rightarrow> int \<Rightarrow> context_item list \<Rightarrow> client
     \<Rightarrow> strategy_row result \<times> client" where
  "run_strategy inc exchange latency pol budget its w =
     (case select_context its budget pol None of
        Inl e \<Rightarrow> (Inl e, w)
      | Inr sel \<Rightarrow>
          (let (inner, answer) = exchange (strategy_prompt sel)
           in case finish_generate inc inner answer (begin_call w) of
                (Inl e, w1) \<Rightarrow> (Inl e, w1)
              | (Inr reply, w1) \<Rightarrow>
                  (case dict_item reply ''prompt_tokens'' of
                     Inl e \<Rightarrow> (Inl e, w1)
                   | Inr actual \<Rightarrow>
                       (case dict_item reply ''response'' of
                          Inr (JStr t) \<Rightarrow>
                            (Inr \<lparr>st_policy = pol, st_budget = budget, st_selected = length (selected sel),
                               st_total = length its, st_estimated = selected_tokens sel, st_actual = actual,
                               st_latency = decimal2 (round_half_even (latency * 100)),
                               st_response = JStr t, st_success = task_succeeded t\<rparr>, w1)
                        | Inr j \<Rightarrow> (Inl (AttributeError (apostrophe # type_name j @ apostrophe # '' object has no attribute ''
                            @ apostrophe # ''lower'' @ [apostrophe])), w1)
                        | Inl e \<Rightarrow> (Inl e, w1)))))"

definition budgeting_experiment ::
  "(json \<Rightarrow> py_exc option) \<Rightarrow> (string \<Rightarrow> real \<times> http_outcome) \<Rightarrow> real \<Rightarrow> real \<Rightarrow> int \<Rightarrow> context_item list \<Rightarrow> client
     \<Rightarrow> strategy_row list result \<times> client" where
  "budgeting_experiment inc exchange latency1 latency2 budget its w =
     (case run_strategy inc exchange latency1 ''full'' 1000000 its w of
        (Inl e, w1) \<Rightarrow> (Inl e, w1)
      | (Inr r1, w1) \<Rightarrow>
          (case run_strategy inc exchange latency2 ''hybrid'' budget its w1 of
             (Inl e, w2) \<Rightarrow> (Inl e, w2)
           | (Inr r2, w2) \<Rightarrow> (Inr [r1, r2], w2)))"

section \<open>The selection benchmark\<close>

text \<open>The draws of one step: the kind, the size among the sizes of that kind, two uniform numbers.\<close>

datatype step_kind = StepTurn | StepTool | StepError

record draw =
  dr_kind :: step_kind
  dr_size :: nat
  dr_importance :: real
  dr_relevance :: real

fun step_type :: "step_kind \<Rightarrow> context_type" where
  "step_type StepTurn = CONVERSATION"
| "step_type StepTool = TOOL_RESULT"
| "step_type StepError = ERROR"

definition step_sizes :: "step_kind \<Rightarrow> nat list" where
  "step_sizes k = (if k \<noteq> StepTool then [200, 400, 800] else [800, 2000, 8000])"

definition synthetic_item :: "(nat \<Rightarrow> stamp) \<Rightarrow> nat \<times> draw \<Rightarrow> context_item" where
  "synthetic_item st x =
     (new_item (st (fst x + 1)) (step_type (dr_kind (snd x)))
        (replicate (step_sizes (dr_kind (snd x)) ! (dr_size (snd x) mod 3)) (CHR ''x'')))
       \<lparr>importance := (if dr_kind (snd x) = StepError then 85 / 100 else dr_importance (snd x)),
         relevance := dr_relevance (snd x), source := Some (''step_'' @ show_nat (fst x)),
         created_at := real (fst x + 1)\<rparr>"

definition task_item :: "(nat \<Rightarrow> stamp) \<Rightarrow> context_item" where
  "task_item st =
     (new_item (st 0) INSTRUCTION (concat (replicate 5 ''Fix the failing authentication tests.'')))
       \<lparr>importance := 1, relevance := 9 / 10, source := Some ''user_task'', created_at := 0\<rparr>"

definition build_synthetic_workflow :: "(nat \<Rightarrow> stamp) \<Rightarrow> draw list \<Rightarrow> context_item list" where
  "build_synthetic_workflow st draws = task_item st # map (synthetic_item st) (enumerate 0 draws)"

record policy_row =
  pr_policy :: string
  pr_selected :: int
  pr_saved :: int
  pr_items :: nat
  pr_importance :: real

definition policy_row_of :: "context_item list \<Rightarrow> int \<Rightarrow> string \<Rightarrow> policy_row result" where
  "policy_row_of its budget p =
     (case select_context its budget p None of
        Inl e \<Rightarrow> Inl e
      | Inr r \<Rightarrow>
          Inr \<lparr>pr_policy = p, pr_selected = selected_tokens r, pr_saved = tokens_saved r,
             pr_items = length (selected r),
             pr_importance = (if selected r \<noteq> [] then sum_by importance (selected r) / real (length (selected r)) else 0)\<rparr>)"

definition selection_benchmark :: "(nat \<Rightarrow> stamp) \<Rightarrow> draw list \<Rightarrow> int \<Rightarrow> policy_row list result" where
  "selection_benchmark st draws budget =
     traverse (policy_row_of (build_synthetic_workflow st draws) budget) policies"

section \<open>Experiment 6: agent bursts\<close>

record burst_row =
  br_agents :: nat
  br_requests :: nat
  br_failed :: nat
  br_throughput :: real
  br_p50 :: "real result"
  br_p95 :: "real result"
  br_p99 :: "real result"

definition burst_percentile :: "real list \<Rightarrow> real \<Rightarrow> real result" where
  "burst_percentile xs p = (if xs = [] then Inr 0 else map_sum (\<lambda>e. e) (\<lambda>v. v * 1000) (percentile xs p))"

text \<open>\<open>rs\<close> are the results the agents added, \<open>wall\<close> the time all of them took.\<close>

definition run_scale :: "nat \<Rightarrow> request_result list \<Rightarrow> real \<Rightarrow> burst_row" where
  "run_scale agents rs wall =
     (let latencies = sort (map res_latency (filter res_ok rs))
      in \<lparr>br_agents = agents, br_requests = length rs, br_failed = length (filter (\<lambda>r. \<not> res_ok r) rs),
           br_throughput = (if wall > 0 then real (length rs) / wall else 0),
           br_p50 = burst_percentile latencies 50, br_p95 = burst_percentile latencies 95,
           br_p99 = burst_percentile latencies 99\<rparr>)"

section \<open>Lemmas\<close>

text \<open>Constructed items are well formed whatever their other fields are.\<close>

lemma filler_wf: "wf_item (filler_item st wid x)"
  by (simp add: wf_item_def filler_item_def new_item_def)

lemma file_wf: "wf_item (file_item st wid c)"
  by (simp add: wf_item_def file_item_def new_item_def)

lemma synthetic_wf: "i \<in> set (build_synthetic_workflow st draws) \<Longrightarrow> wf_item i"
  by (auto simp: build_synthetic_workflow_def task_item_def synthetic_item_def wf_item_def new_item_def)

lemma pool_wf: "i \<in> set (build_context_pool st c wid) \<Longrightarrow> wf_item i"
  by (auto simp: build_context_pool_def filler_wf file_wf)

lemma topic_length: "x \<in> set (enumerate n filler_topics) \<Longrightarrow> 26 \<le> length (snd x) \<and> length (snd x) \<le> 48"
proof -
  have "list_all (\<lambda>t. 26 \<le> length t \<and> length t \<le> 48) filler_topics"
    by (simp add: filler_topics_def)
  moreover assume "x \<in> set (enumerate n filler_topics)"
  then have "snd x \<in> set filler_topics" by (metis in_set_zip enumerate_eq_zip surjective_pairing nth_mem)
  ultimately show ?thesis by (simp add: list_all_iff)
qed

lemma filler_tokens:
  assumes "x \<in> set (enumerate n filler_topics)"
  shows "26 \<le> token_count (filler_item st wid x) \<and> token_count (filler_item st wid x) \<le> 40"
proof -
  have "length (filler_content (snd x)) = 55 + 2 * length (snd x)"
    by (simp add: filler_content_def newline_def)
  then have "token_count (filler_item st wid x) = max 1 ((55 + 2 * int (length (snd x))) div 4)"
    by (simp add: filler_item_def new_item_def estimate_tokens_def)
  moreover have "26 \<le> (55 + 2 * n) div 4 \<and> (55 + 2 * n) div 4 \<le> 40" if "26 \<le> n" "n \<le> 48" for n :: int
    using that by presburger
  ultimately show ?thesis using topic_length [OF assms] by fastforce
qed

text \<open>A short file beats every filler under the hybrid policy.\<close>

lemma hybrid_priority:
  assumes "i \<in> set its" "wf_item i"
  shows "\<exists>r. 0 \<le> r \<and> r \<le> 1 \<and> priority ''hybrid'' None its i
    = (4 / 10 * relevance i + 3 / 10 * r + 3 / 10 * importance i) / real_of_int (token_count i)"
  using recency_scores_range [OF assms(1)] wf_item_pos [OF assms(2)]
  by (auto simp: priority_def weights_used_def hybrid_key_def dict_item_def hybrid_score_def default_weights_def py_true_div_def)

lemma file_first:
  assumes "length c \<le> 130" "x \<in> set (enumerate 0 filler_topics)"
  shows "priority ''hybrid'' None (build_context_pool st c wid) (filler_item st wid x)
    < priority ''hybrid'' None (build_context_pool st c wid) (file_item st wid c)"
proof -
  let ?its = "build_context_pool st c wid" and ?i = "filler_item st wid x" and ?f = "file_item st wid c"
  have ts: "26 \<le> token_count ?i" "1 \<le> token_count ?f" "token_count ?f \<le> 36"
    using filler_tokens [OF assms(2)] assms(1) wf_item_pos [OF file_wf]
    by (simp_all add: file_item_def new_item_def estimate_tokens_def newline_def)
  then have ti: "26 \<le> real_of_int (token_count ?i)" and tf: "0 < real_of_int (token_count ?f)"
      "real_of_int (token_count ?f) \<le> 36" by linarith+
  obtain r where r: "0 \<le> r" "r \<le> 1" "priority ''hybrid'' None ?its ?i
      = (4 / 10 * relevance ?i + 3 / 10 * r + 3 / 10 * importance ?i) / real_of_int (token_count ?i)"
    using hybrid_priority [OF _ filler_wf, of st wid x ?its] assms(2) by (auto simp: build_context_pool_def)
  obtain q where q: "0 \<le> q" "q \<le> 1" "priority ''hybrid'' None ?its ?f
      = (4 / 10 * relevance ?f + 3 / 10 * q + 3 / 10 * importance ?f) / real_of_int (token_count ?f)"
    using hybrid_priority [OF _ file_wf, of st wid c ?its] by (auto simp: build_context_pool_def)
  have "priority ''hybrid'' None ?its ?i \<le> (42 / 100) / 26"
    unfolding r(3) using r(1,2)
    by (intro frac_le ti) (simp_all add: filler_item_def new_item_def)
  also have "\<dots> < (63 / 100) / 36" by simp
  also have "\<dots> \<le> priority ''hybrid'' None ?its ?f"
    unfolding q(3) using q(1,2)
    by (intro frac_le tf) (simp_all add: file_item_def new_item_def)
  finally show ?thesis .
qed

lemma file_selected:
  assumes "length c \<le> 130" "token_count (file_item st wid c) \<le> budget"
    and "select_context (build_context_pool st c wid) budget ''hybrid'' None = Inr h"
  shows "file_item st wid c \<in> set (selected h)"
proof (rule ccontr)
  let ?its = "build_context_pool st c wid" and ?f = "file_item st wid c"
  assume out: "?f \<notin> set (selected h)"
  obtain ord where o: "mset ord = mset ?its" "selected h = fst (pack ord budget)" "discarded h = snd (pack ord budget)"
    using select_context_packing [OF assms(3)] unfolding packing_of_def by blast
  have "mset (selected h) + mset (discarded h) = mset ?its" using pack_mset [of ord budget] o by simp
  then have un: "set (selected h) \<union> set (discarded h) = set ?its" by (metis set_mset_mset set_mset_union)
  moreover have "?f \<in> set ?its" by (simp add: build_context_pool_def)
  ultimately have d: "?f \<in> set (discarded h)" using out by blast
  have "filter (\<lambda>i. priority ''hybrid'' None ?its ?f \<le> priority ''hybrid'' None ?its i) (selected h) = []"
  proof (rule filter_False, rule ballI)
    fix i assume i: "i \<in> set (selected h)"
    then have "i \<in> set ?its" "i \<noteq> ?f" using un out by auto
    then obtain x where "x \<in> set (enumerate 0 filler_topics)" "i = filler_item st wid x"
      by (auto simp: build_context_pool_def)
    with file_first [OF assms(1), of x st wid]
    show "\<not> priority ''hybrid'' None ?its ?f \<le> priority ''hybrid'' None ?its i" by simp
  qed
  with select_context_priority [OF assms(3) _ d] have "budget < token_count ?f"
    using pool_wf wf_item_pos by force
  with assms(2) show False by simp
qed

lemma pool_tokens:
  "sum_by token_count (build_context_pool st c wid) \<le> 800 + token_count (file_item st wid c)"
proof -
  have "sum_by token_count (map (filler_item st wid) xs) \<le> 40 * int (length xs)"
    if "set xs \<subseteq> set (enumerate 0 filler_topics)" for xs
    using that by (induction xs) (use filler_tokens [of _ 0 st wid] in force)+
  from this [of "enumerate 0 filler_topics"] show ?thesis
    by (simp add: build_context_pool_def filler_topics_def del: enumerate_simps)
qed

lemma run_strategy_Inr:
  "run_strategy inc exchange latency pol budget its w = (Inr row, w') \<Longrightarrow>
   \<exists>sel. select_context its budget pol None = Inr sel \<and> st_selected row = length (selected sel) \<and> st_total row = length its
     \<and> st_estimated row = selected_tokens sel
     \<and> (\<exists>t. st_response row = JStr t \<and> st_success row = task_succeeded t)"
  by (auto simp: run_strategy_def Let_def split: sum.splits prod.splits json.splits)

lemma str_join_parts: "x \<in> set xs \<Longrightarrow> \<exists>a b. str_join sep xs = a @ x @ b"
proof (induction sep xs rule: str_join.induct)
  case (3 sep y z zs)
  show ?case
  proof (cases "x = y")
    case True
    then show ?thesis by (intro exI [of _ "[]"] exI [of _ "sep @ str_join sep (z # zs)"]) simp
  next
    case False
    with 3 obtain a b where "str_join sep (z # zs) = a @ x @ b" by auto
    then show ?thesis by (intro exI [of _ "y @ sep @ a"] exI [of _ b]) simp
  qed
qed (auto intro: exI [of _ "[]"])

lemma prompt_contains:
  assumes "i \<in> set (selected sel)" "content i = u @ c"
  shows "contains c (strategy_prompt sel)"
proof -
  have "content i \<in> set (map content (selected sel))" using assms(1) by simp
  from str_join_parts [OF this, of "newline @ newline"] assms(2) obtain a b where
    "strategy_prompt sel = (a @ u) @ c @ b @ newline @ newline @ task_prompt"
    by (auto simp: strategy_prompt_def)
  then show ?thesis unfolding contains_sublist sublist_def by blast
qed

lemma select_totals:
  assumes "select_context its budget p None = Inr r" "\<And>i. i \<in> set its \<Longrightarrow> wf_item i"
  shows "selected_tokens r \<le> max 0 budget" "selected_tokens r + tokens_saved r = sum_by token_count its"
    "selected_tokens r \<le> sum_by token_count its" "set (selected r) \<subseteq> set its" "length (selected r) \<le> length its"
    "sum_by token_count its \<le> budget \<Longrightarrow> mset (selected r) = mset its"
proof -
  obtain ord where o: "mset ord = mset its" "selected r = fst (pack ord budget)" "discarded r = snd (pack ord budget)"
      "candidate_tokens r = sum_by token_count its" "selected_tokens r = sum_by token_count (selected r)"
    using select_context_packing [OF assms(1)] unfolding packing_of_def by blast
  have so: "set ord = set its" using o(1) by (rule mset_eq_setD)
  have pos: "0 \<le> token_count i" if "i \<in> set ord" for i using wf_item_pos [OF assms(2)] that so by fastforce
  have m: "mset (selected r) + mset (discarded r) = mset its" using pack_mset [of ord budget] o by simp
  show sub: "set (selected r) \<subseteq> set its" using m by (metis set_mset_mset set_mset_union Un_upper1)
  show "length (selected r) \<le> length its" using arg_cong [OF m, of size] by simp
  have "fst (pack xs b) = []" if "\<And>i. i \<in> set xs \<Longrightarrow> 1 \<le> token_count i" "b < 0" for xs b
    using that by (induction xs b rule: pack.induct) (force simp: case_prod_beta Let_def)+
  moreover have "1 \<le> token_count i" if "i \<in> set ord" for i using wf_item_pos [OF assms(2)] that so by blast
  ultimately show "selected_tokens r \<le> max 0 budget"
    using pack_budget [of budget ord] o(2,5) by (cases "0 \<le> budget") auto
  show "selected_tokens r + tokens_saved r = sum_by token_count its" by (simp add: tokens_saved_def o(4))
  have "0 \<le> sum_by token_count (discarded r)"
    using pos so m by (intro sum_by_nonneg) (metis UnI2 set_mset_mset set_mset_union)
  moreover have "sum_by token_count its = sum_by token_count (selected r) + sum_by token_count (discarded r)"
    using sum_by_mset [of "selected r @ discarded r" its token_count] m by simp
  ultimately show "selected_tokens r \<le> sum_by token_count its" by (simp add: o(5))
  show "mset (selected r) = mset its" if "sum_by token_count its \<le> budget"
    using pack_all [of ord budget] pos that sum_by_mset [OF o(1), of token_count] o(1,2) by simp
qed

section \<open>Properties\<close>

text \<open>
  Experiment 1 measures what it claims, whatever the model answers: the full strategy sends the
  whole pool, the hybrid one stays within the budget and never sends more, and with a short
  \<open>calculator.py\<close>, the only relevant item, its whole text is still in the prompt of the hybrid
  strategy.
\<close>

theorem budgeting_experiment_sound:
  assumes "length c \<le> 130" and "36 \<le> budget" and "its = build_context_pool st c wid"
    and "budgeting_experiment inc exchange l1 l2 budget its w = (Inr rows, w')"
  shows "\<exists>full hybrid sel. rows = [full, hybrid] \<and> st_selected full = length its \<and> st_estimated full = sum_by token_count its
    \<and> st_estimated hybrid \<le> budget \<and> st_estimated hybrid \<le> st_estimated full
    \<and> select_context its budget ''hybrid'' None = Inr sel \<and> st_selected hybrid = length (selected sel)
    \<and> contains c (strategy_prompt sel)"
proof -
  obtain full w1 hybrid where rows: "rows = [full, hybrid]" "run_strategy inc exchange l1 ''full'' 1000000 its w = (Inr full, w1)"
      "run_strategy inc exchange l2 ''hybrid'' budget its w1 = (Inr hybrid, w')"
    using assms(4) by (auto simp: budgeting_experiment_def split: sum.splits prod.splits)
  obtain f where f: "select_context its 1000000 ''full'' None = Inr f" "st_selected full = length (selected f)"
      "st_estimated full = selected_tokens f" using run_strategy_Inr [OF rows(2)] by blast
  obtain h where h: "select_context its budget ''hybrid'' None = Inr h" "st_selected hybrid = length (selected h)"
      "st_estimated hybrid = selected_tokens h" using run_strategy_Inr [OF rows(3)] by blast
  have wf: "wf_item i" if "i \<in> set its" for i using pool_wf that assms(3) by blast
  have ft: "token_count (file_item st wid c) \<le> 36"
    using assms(1) by (simp add: file_item_def new_item_def estimate_tokens_def newline_def)
  then have small: "sum_by token_count its \<le> 1000000" using pool_tokens [of st c wid] assms(3) by simp
  note m = select_totals(6) [OF f(1) wf small]
  have full: "length (selected f) = length its" "selected_tokens f = sum_by token_count its"
    using mset_eq_length [OF m] sum_by_mset [OF m, of token_count] select_context_packing [OF f(1)]
    by (auto simp: packing_of_def)
  have "file_item st wid c \<in> set (selected h)"
    using file_selected [OF assms(1) _ h(1) [unfolded assms(3)]] ft assms(2) by simp
  then have "contains c (strategy_prompt h)"
    by (rule prompt_contains [where u = "''calculator.py:'' @ newline"]) (simp add: file_item_def new_item_def)
  moreover have "st_estimated hybrid \<le> budget" "st_estimated hybrid \<le> st_estimated full"
    using select_totals(1,3) [OF h(1) wf] assms(2) by (simp_all add: h(3) f(3) full(2))
  ultimately show ?thesis using rows(1) f h full by (intro exI [of _ full] exI [of _ hybrid] exI [of _ h]) simp
qed

text \<open>The toy repository's own file, and a model that answers every prompt.\<close>

definition demo_calculator :: string where
  "demo_calculator = ''def add(a, b):'' @ newline @ ''    return a - b'' @ newline @ newline @ newline
     @ ''def subtract(a, b):'' @ newline @ ''    return a - b'' @ newline"

definition demo_stamps :: "nat \<Rightarrow> stamp" where
  "demo_stamps n = \<lparr>fresh_id = replicate n (CHR ''i''), clock1 = 100, clock2 = 100\<rparr>"

definition demo_answer :: json where
  "demo_answer = JDict [(''message'', JDict [(''content'', JStr ''It should add'')]), (''prompt_eval_count'', JInt 5)]"

lemma demo_strategy:
  assumes "select_context its budget p None = Inr sel"
  shows "\<exists>row w'. run_strategy (\<lambda>_. None) (\<lambda>_. (1, Body demo_answer)) 1 p budget its w = (Inr row, w')"
  using assms
  by (simp add: run_strategy_def demo_answer_def finish_generate_def finish_call_def generate_reply_def token_counts_def
      json_get_def dict_get_def dict_item_def Let_def)

theorem budgeting_experiment_sound_witness:
  "\<exists>full hybrid w'. budgeting_experiment (\<lambda>_. None) (\<lambda>_. (1, Body demo_answer)) 1 1 400
      (build_context_pool demo_stamps demo_calculator ''experiment-1'') (new_client 0 ''http://x'' 120 None 8192)
    = (Inr [full, hybrid], w') \<and> st_estimated hybrid \<le> 400"
proof -
  let ?its = "build_context_pool demo_stamps demo_calculator ''experiment-1''" and ?w = "new_client 0 ''http://x'' 120 None 8192"
  have nz: "token_count i \<noteq> 0" if "i \<in> set ?its" for i using wf_item_pos [OF pool_wf [OF that]] by simp
  have sel: "\<exists>sel. select_context ?its b p None = Inr sel" if "p \<in> set policies" for b p
    using select_context_total [OF that nz] by blast
  obtain full w1 where r1: "run_strategy (\<lambda>_. None) (\<lambda>_. (1, Body demo_answer)) 1 ''full'' 1000000 ?its ?w = (Inr full, w1)"
    using sel [of "''full''" 1000000] demo_strategy by (force simp: policies_def)
  obtain hybrid w2 where r2: "run_strategy (\<lambda>_. None) (\<lambda>_. (1, Body demo_answer)) 1 ''hybrid'' 400 ?its w1 = (Inr hybrid, w2)"
    using sel [of "''hybrid''" 400] demo_strategy by (force simp: policies_def)
  have run: "budgeting_experiment (\<lambda>_. None) (\<lambda>_. (1, Body demo_answer)) 1 1 400 ?its ?w = (Inr [full, hybrid], w2)"
    by (simp add: budgeting_experiment_def r1 r2)
  have "length demo_calculator \<le> 130" by (simp add: demo_calculator_def newline_def)
  from budgeting_experiment_sound [OF this _ refl run] have "st_estimated hybrid \<le> 400" by simp
  with run show ?thesis by blast
qed

text \<open>
  The selection benchmark answers for every policy, whatever the random draws: each row stays
  within the budget, the selected and the saved tokens add up to the tokens of the workflow, and the
  average importance is one.
\<close>

theorem selection_benchmark_sound:
  assumes "\<forall>d \<in> set draws. 0 \<le> dr_importance d \<and> dr_importance d \<le> 1"
  shows "\<exists>rows. selection_benchmark st draws budget = Inr rows \<and> map pr_policy rows = policies
    \<and> (\<forall>row \<in> set rows. pr_selected row \<le> max 0 budget
         \<and> pr_selected row + pr_saved row = sum_by token_count (build_synthetic_workflow st draws)
         \<and> pr_items row \<le> length draws + 1 \<and> 0 \<le> pr_importance row \<and> pr_importance row \<le> 1)"
proof -
  let ?its = "build_synthetic_workflow st draws"
  have imp: "0 \<le> importance i \<and> importance i \<le> 1" if "i \<in> set ?its" for i
  proof -
    have "\<forall>x \<in> set (enumerate 0 draws). snd x \<in> set draws"
      by (metis in_set_zip enumerate_eq_zip surjective_pairing nth_mem)
    then show ?thesis
      using that assms by (auto simp: build_synthetic_workflow_def task_item_def synthetic_item_def new_item_def)
  qed
  have nz: "token_count i \<noteq> 0" if "i \<in> set ?its" for i using wf_item_pos [OF synthetic_wf [OF that]] by simp
  have avg: "0 \<le> sum_by importance xs \<and> sum_by importance xs \<le> real (length xs)" if "set xs \<subseteq> set ?its" for xs
    using that imp by (induction xs) force+
  have row: "\<exists>row. policy_row_of ?its budget p = Inr row \<and> pr_policy row = p \<and> pr_selected row \<le> max 0 budget
         \<and> pr_selected row + pr_saved row = sum_by token_count ?its
         \<and> pr_items row \<le> length draws + 1 \<and> 0 \<le> pr_importance row \<and> pr_importance row \<le> 1" (is "\<exists>row. ?P p row")
    if p: "p \<in> set policies" for p
  proof -
    obtain r where r: "select_context ?its budget p None = Inr r" using select_context_total [OF p nz] by blast
    note t = select_totals [OF r synthetic_wf]
    have "length (selected r) \<le> length draws + 1" using t(5) by (simp add: build_synthetic_workflow_def)
    moreover have "0 \<le> sum_by importance (selected r)" "sum_by importance (selected r) \<le> real (length (selected r))"
      using avg [OF t(4)] by simp_all
    ultimately show ?thesis using t(1,2) by (simp add: policy_row_of_def r divide_le_eq)
  qed
  then obtain g where g: "?P p (g p)" if "p \<in> set policies" for p by metis
  then have "selection_benchmark st draws budget = Inr (map g policies)"
    unfolding selection_benchmark_def by (intro traverse_Inr) simp
  moreover have "map pr_policy (map g policies) = policies" using g by (simp add: map_idI)
  ultimately show ?thesis using g by (intro exI [of _ "map g policies"]) auto
qed

theorem selection_benchmark_sound_witness:
  "\<exists>rows. selection_benchmark demo_stamps [\<lparr>dr_kind = StepTool, dr_size = 2, dr_importance = 1 / 2, dr_relevance = 1 / 2\<rparr>] 100
      = Inr rows \<and> map pr_policy rows = policies"
proof -
  have "\<forall>d \<in> set [\<lparr>dr_kind = StepTool, dr_size = 2, dr_importance = 1 / 2, dr_relevance = 1 / 2\<rparr>].
      0 \<le> dr_importance d \<and> dr_importance d \<le> 1" by simp
  from selection_benchmark_sound [OF this, of demo_stamps 100] show ?thesis by (elim exE conjE) (intro exI conjI)
qed

text \<open>
  The row of a burst: the failed and the answered requests add up, and the three percentiles grow,
  also when nothing was answered.
\<close>

lemma run_scale_row:
  "\<exists>p50 p95 p99. br_p50 (run_scale n rs wall) = Inr p50 \<and> br_p95 (run_scale n rs wall) = Inr p95
     \<and> br_p99 (run_scale n rs wall) = Inr p99 \<and> p50 \<le> p95 \<and> p95 \<le> p99
     \<and> br_failed (run_scale n rs wall) + length (filter res_ok rs) = br_requests (run_scale n rs wall)"
proof -
  let ?ls = "sort (map res_latency (filter res_ok rs))"
  have "\<exists>p50 p95 p99. burst_percentile ?ls 50 = Inr p50 \<and> burst_percentile ?ls 95 = Inr p95
      \<and> burst_percentile ?ls 99 = Inr p99 \<and> p50 \<le> p95 \<and> p95 \<le> p99"
  proof (cases "?ls = []")
    case False
    from percentiles_grow [OF sorted_sort this] show ?thesis using False by (auto simp: burst_percentile_def)
  qed (simp add: burst_percentile_def)
  then show ?thesis using sum_length_filter_compl [of res_ok rs] by (simp add: run_scale_def Let_def)
qed

end
