(* ===== verification/LoadRun.thy ===== *)
theory LoadRun
  imports Experiments FleetClient "HOL-Library.Sublist"
begin

text \<open>
  The concurrency of the measuring scripts. \<^verbatim>\<open>scripts/benchmark.py\<close> fires its requests as tasks that wait
  for a semaphore, first come first served; \<^verbatim>\<open>scripts/simulate.py\<close> and
  \<^verbatim>\<open>benchmarks/experiments/agent_bursts.py\<close> run agents concurrently that append to one list of results;
  \<^verbatim>\<open>benchmarks/runner.py\<close> runs the experiments one after the other. The answers of the gateway, the
  random draws and the clocks are arguments.
\<close>

section \<open>The semaphore of the load benchmark\<close>

text \<open>
  \<open>sm_value\<close> is the free capacity, \<open>sm_waiting\<close> the tasks that have not entered, in the order in which
  \<open>gather\<close> created them.
\<close>

record load_state =
  sm_value :: nat
  sm_waiting :: "nat list"
  sm_running :: "nat list"
  sm_results :: "nat \<rightharpoonup> real \<times> bool \<times> nat"

definition load_start :: "nat \<Rightarrow> nat \<Rightarrow> load_state" where
  "load_start concurrency n =
     \<lparr>sm_value = concurrency, sm_waiting = [0..<n], sm_running = [], sm_results = Map.empty\<rparr>"

definition enter :: "load_state \<Rightarrow> load_state" where
  "enter s = s\<lparr>sm_value := sm_value s - 1, sm_waiting := tl (sm_waiting s),
     sm_running := sm_running s @ [hd (sm_waiting s)]\<rparr>"

definition leave :: "(nat \<Rightarrow> real \<times> nat option) \<Rightarrow> nat \<Rightarrow> load_state \<Rightarrow> load_state" where
  "leave answer i s = s\<lparr>sm_value := sm_value s + 1, sm_running := remove1 i (sm_running s),
     sm_results := (sm_results s)(i \<mapsto> one_request (fst (answer i)) (snd (answer i)))\<rparr>"

inductive load_step :: "(nat \<Rightarrow> real \<times> nat option) \<Rightarrow> load_state \<Rightarrow> load_state \<Rightarrow> bool" for answer where
  enters: "0 < sm_value s \<Longrightarrow> sm_waiting s \<noteq> [] \<Longrightarrow> load_step answer s (enter s)"
| leaves: "i \<in> set (sm_running s) \<Longrightarrow> load_step answer s (leave answer i s)"

inductive_cases load_stepE: "load_step answer s s'"

text \<open>\<open>gather\<close> returns, in the order of the tasks, when all of them have a result.\<close>

definition gathered :: "nat \<Rightarrow> load_state \<Rightarrow> (real \<times> bool \<times> nat) list option" where
  "gathered n s = those (map (sm_results s) [0..<n])"

text \<open>\<open>asyncio.Semaphore\<close> refuses a negative value.\<close>

definition semaphore :: "int \<Rightarrow> nat result" where
  "semaphore c = (if c < 0 then Inl (ValueError ''Semaphore initial value must be >= 0'') else Inr (nat c))"

definition bench_payload :: "string \<Rightarrow> string \<Rightarrow> json" where
  "bench_payload prompt model = JDict [(''prompt'', JStr prompt), (''model'', JStr model)]"

definition bench_url :: "string \<Rightarrow> string \<Rightarrow> string" where
  "bench_url base endpoint = rstrip_char (CHR ''/'') base @ endpoint"

section \<open>The agents of the simulator\<close>

definition start_delay :: "nat \<Rightarrow> real \<Rightarrow> real" where
  "start_delay i rate = (if rate \<noteq> 0 then real i / rate else 0)"

definition sim_agent_id :: "string \<Rightarrow> nat \<Rightarrow> string" where
  "sim_agent_id w i = w @ ''-agent-'' @ show_nat i"

definition sim_workflow_id :: "string \<Rightarrow> nat \<Rightarrow> string \<Rightarrow> string" where
  "sim_workflow_id w i hex = ''wf-'' @ sim_agent_id w i @ ''-'' @ take 6 hex"

definition sim_request :: "string \<Rightarrow> nat \<Rightarrow> string \<Rightarrow> string \<Rightarrow> nat \<Rightarrow> string \<times> json" where
  "sim_request w i hex model len =
     client_chat [message_json (''user'', make_prompt len)] (Some model)
       [(''agent_id'', JStr (sim_agent_id w i)), (''workflow_id'', JStr (sim_workflow_id w i hex))]"

text \<open>\<open>bursts i\<close> are the samples of the \<open>i\<close>-th agent; the result is one list of results per agent.\<close>

definition sim_agents ::
  "real \<Rightarrow> string list \<Rightarrow> (nat \<Rightarrow> (real \<times> request_sample list) list) \<Rightarrow> request_result list list" where
  "sim_agents end_time workloads bursts = map (\<lambda>(i, w). run_agent w end_time (bursts i)) (enumerate 0 workloads)"

text \<open>All agents append to one list: at every step one of them adds its next result.\<close>

inductive interleaved :: "'a list list \<Rightarrow> 'a list \<Rightarrow> bool" where
  finished: "\<forall>xs \<in> set xss. xs = [] \<Longrightarrow> interleaved xss []"
| append: "k < length xss \<Longrightarrow> xss ! k = x # xs \<Longrightarrow> interleaved (xss[k := xs]) ys \<Longrightarrow> interleaved xss (x # ys)"

section \<open>The experiments in a row\<close>

datatype experiment_rows =
    Budgeting "strategy_row list"
  | Routing "routing_result list"
  | Bursts "burst_row list"

text \<open>The answers the experiments get: the model's to the two strategies, the results at the two scales.\<close>

record runner_env =
  re_inc :: "json \<Rightarrow> py_exc option"
  re_exchange :: "string \<Rightarrow> real \<times> http_outcome"
  re_latencies :: "real \<times> real"
  re_pool :: "context_item list"
  re_client :: client
  re_config :: lb_config
  re_clock :: real
  re_two :: "request_result list \<times> real"
  re_four :: "request_result list \<times> real"

definition bursts_experiment :: "runner_env \<Rightarrow> burst_row list" where
  "bursts_experiment env =
     [run_scale 2 (fst (re_two env)) (snd (re_two env)), run_scale 4 (fst (re_four env)) (snd (re_four env))]"

definition experiment_names :: "string list" where
  "experiment_names = [''context_budgeting'', ''context_aware_routing'', ''agent_bursts'']"

definition run_one :: "runner_env \<Rightarrow> string \<Rightarrow> experiment_rows result" where
  "run_one env name =
     (if name = ''context_budgeting'' then
        map_sum id Budgeting (fst (budgeting_experiment (re_inc env) (re_exchange env) (fst (re_latencies env))
          (snd (re_latencies env)) 400 (re_pool env) (re_client env)))
      else if name = ''context_aware_routing'' then map_sum id Routing (routing_experiment (re_config env) (re_clock env))
      else if name = ''agent_bursts'' then Inr (Bursts (bursts_experiment env))
      else Inl (ValueError name))"

text \<open>\<open>EXPERIMENTS[name]\<close> is looked up before \<open>run_one\<close> is entered.\<close>

definition run_all :: "runner_env \<Rightarrow> string list \<Rightarrow> experiment_rows list result" where
  "run_all env names =
     traverse (\<lambda>n. if n \<notin> set experiment_names then Inl (KeyError n) else run_one env n) names"

definition chosen_names :: "string list option \<Rightarrow> string list" where
  "chosen_names only = (case only of Some (n # ns) \<Rightarrow> n # ns | _ \<Rightarrow> experiment_names)"

section \<open>The semaphore\<close>

definition load_inv :: "(nat \<Rightarrow> real \<times> nat option) \<Rightarrow> nat \<Rightarrow> nat \<Rightarrow> nat \<Rightarrow> load_state \<Rightarrow> bool" where
  "load_inv answer c n k s \<longleftrightarrow>
     k \<le> n \<and> sm_value s + length (sm_running s) = c \<and> sm_waiting s = [k..<n]
     \<and> distinct (sm_running s) \<and> set (sm_running s) \<inter> dom (sm_results s) = {}
     \<and> set (sm_running s) \<union> dom (sm_results s) = {..<k}
     \<and> (\<forall>i r. sm_results s i = Some r \<longrightarrow> r = one_request (fst (answer i)) (snd (answer i)))"

definition load_work :: "load_state \<Rightarrow> nat" where
  "load_work s = 2 * length (sm_waiting s) + length (sm_running s)"

lemma load_inv_start: "load_inv answer c n 0 (load_start c n)"
  by (simp add: load_inv_def load_start_def)

lemma load_inv_enter:
  assumes "load_inv answer c n k s" "0 < sm_value s" "sm_waiting s \<noteq> []"
  shows "load_inv answer c n (Suc k) (enter s)"
proof -
  have w: "sm_waiting s = [k..<n]" using assms(1) by (simp add: load_inv_def)
  then have lt: "k < n" using assms(3) by simp
  then have h: "hd (sm_waiting s) = k" "tl (sm_waiting s) = [Suc k..<n]" by (simp_all add: w upt_rec [of k])
  have "k \<notin> set (sm_running s) \<union> dom (sm_results s)" using assms(1) by (simp add: load_inv_def)
  then show ?thesis using assms(1,2) lt unfolding load_inv_def enter_def
    by (auto simp: h lessThan_Suc)
qed

lemma load_inv_leave:
  assumes "load_inv answer c n k s" "i \<in> set (sm_running s)"
  shows "load_inv answer c n k (leave answer i s)"
proof -
  have "length (remove1 i (sm_running s)) + 1 = length (sm_running s)"
    using length_pos_if_in_set [OF assms(2)] by (simp add: length_remove1 assms(2))
  then show ?thesis using assms unfolding load_inv_def leave_def by (auto simp: set_remove1_eq)
qed

lemma load_inv_step: "load_step answer s s' \<Longrightarrow> load_inv answer c n k s \<Longrightarrow> \<exists>k'. load_inv answer c n k' s'"
  by (erule load_stepE) (blast intro: load_inv_enter load_inv_leave)+

lemma load_inv_reach:
  assumes "(load_step answer)\<^sup>*\<^sup>* (load_start c n) s"
  shows "\<exists>k. load_inv answer c n k s"
  using assms
proof (induction rule: rtranclp_induct)
  case base
  show ?case using load_inv_start by blast
next
  case (step s s')
  then show ?case using load_inv_step by blast
qed

lemma load_work_decreases: "load_step answer s s' \<Longrightarrow> load_work s' < load_work s"
proof (erule load_stepE)
  fix i
  assume "s' = leave answer i s" "i \<in> set (sm_running s)"
  then show ?thesis using length_pos_if_in_set [of i] by (simp add: load_work_def leave_def length_remove1)
qed (auto simp: load_work_def enter_def neq_Nil_conv)

lemma load_step_exists:
  assumes "load_inv answer c n k s" "0 < c" "sm_waiting s \<noteq> [] \<or> sm_running s \<noteq> []"
  shows "\<exists>s'. load_step answer s s'"
proof (cases "sm_running s")
  case Nil
  then have "0 < sm_value s" "sm_waiting s \<noteq> []" using assms by (auto simp: load_inv_def)
  from load_step.enters [OF this] show ?thesis ..
next
  case (Cons i xs)
  then have "i \<in> set (sm_running s)" by simp
  from load_step.leaves [OF this] show ?thesis ..
qed

lemma gathered_iff: "gathered n s = Some rs \<longleftrightarrow> map (sm_results s) [0..<n] = map Some rs"
proof -
  have "those xs = Some ys \<longleftrightarrow> xs = map Some ys" for xs :: "'x option list" and ys
    by (induction xs arbitrary: ys) (auto split: option.splits)
  then show ?thesis by (simp add: gathered_def)
qed

lemma gathered_eq:
  assumes inv: "load_inv answer c n k s"
  shows "gathered n s = (if sm_waiting s = [] \<and> sm_running s = []
    then Some (map (\<lambda>i. one_request (fst (answer i)) (snd (answer i))) [0..<n]) else None)"
proof (cases "sm_waiting s = [] \<and> sm_running s = []")
  case True
  then have kn: "k = n" using inv True upt_eq_Nil_conv [of k n] by (auto simp: load_inv_def)
  have "dom (sm_results s) = {..<n}" using inv True by (simp add: load_inv_def kn)
  then have "sm_results s i = Some (one_request (fst (answer i)) (snd (answer i)))" if "i < n" for i
    using that inv unfolding load_inv_def by (metis domD lessThan_iff)
  then show ?thesis using True by (simp add: gathered_iff)
next
  case False
  have "\<exists>i < n. sm_results s i = None"
  proof (cases "sm_running s")
    case Nil
    then have "k < n" using False inv by (auto simp: load_inv_def)
    moreover have "k \<notin> dom (sm_results s)" using inv by (auto simp: load_inv_def)
    ultimately show ?thesis by auto
  next
    case (Cons i xs)
    then have "i \<in> set (sm_running s)" by simp
    then have "i < k" "i \<notin> dom (sm_results s)" "k \<le> n" using inv unfolding load_inv_def by blast+
    then show ?thesis by (intro exI [of _ i]) auto
  qed
  then obtain i where i: "i < n" "sm_results s i = None" by blast
  have "None \<in> set (map (sm_results s) [0..<n])" using i by (auto simp: image_iff intro!: bexI [of _ i])
  then have "map (sm_results s) [0..<n] \<noteq> map Some rs" for rs by (auto dest!: arg_cong [of _ _ set])
  then have "gathered n s \<noteq> Some rs" for rs by (simp add: gathered_iff)
  then show ?thesis using False by (cases "gathered n s") auto
qed

lemma load_finishes:
  assumes "load_inv answer c n k s" "0 < c"
  shows "\<exists>s'. (load_step answer)\<^sup>*\<^sup>* s s' \<and> sm_waiting s' = [] \<and> sm_running s' = []"
  using assms(1)
proof (induction "load_work s" arbitrary: s k rule: less_induct)
  case less
  show ?case
  proof (cases "sm_waiting s = [] \<and> sm_running s = []")
    case True
    then show ?thesis by blast
  next
    case False
    then obtain t where t: "load_step answer s t" using load_step_exists [OF less.prems assms(2)] by auto
    obtain k' where "load_inv answer c n k' t" using load_inv_step [OF t less.prems] ..
    from less.hyps [OF load_work_decreases [OF t] this] t show ?thesis
      by (blast intro: converse_rtranclp_into_rtranclp)
  qed
qed

text \<open>Nobody enters a semaphore without capacity.\<close>

lemma load_zero: "(load_step answer)\<^sup>*\<^sup>* (load_start 0 n) s \<Longrightarrow> s = load_start 0 n"
proof (induction rule: rtranclp_induct)
  case (step s s')
  then show ?case by (auto simp: load_start_def elim!: load_stepE)
qed simp

section \<open>Interleavings\<close>

lemma mset_concat_update:
  "k < length xss \<Longrightarrow> xss ! k = x # xs \<Longrightarrow> mset (concat xss) = add_mset x (mset (concat (xss[k := xs])))"
proof (induction xss arbitrary: k)
  case (Cons ys xss)
  then show ?case by (cases k) auto
qed simp

lemma interleaved_mset: "interleaved xss ys \<Longrightarrow> mset ys = mset (concat xss)"
proof (induction rule: interleaved.induct)
  case (finished xss)
  then show ?case by (simp add: concat_eq_Nil_conv)
next
  case (append k xss x xs ys)
  then show ?case using mset_concat_update [OF append.hyps(1,2)] by simp
qed

lemma interleaved_subseq: "interleaved xss ys \<Longrightarrow> j < length xss \<Longrightarrow> subseq (xss ! j) ys"
proof (induction arbitrary: j rule: interleaved.induct)
  case (append k xss x xs ys)
  from append.IH [of j] append.prems have "subseq (xss[k := xs] ! j) ys" by simp
  with append.hyps(1,2) show ?case by (cases "j = k") (simp_all add: list_emb_Cons)
next
  case (finished xss)
  then have "xss ! j = []" by simp
  then show ?case by simp
qed

text \<open>The report reads only which results there are.\<close>

lemma sort_map_mset: "mset rs = mset rs' \<Longrightarrow> sort (map f (filter P rs)) = sort (map f (filter P rs'))"
  for f :: "'a \<Rightarrow> real"
  by (intro properties_for_sort) simp_all

lemma length_filter_mset: "mset rs = mset rs' \<Longrightarrow> length (filter P rs) = length (filter P rs')"
  by (metis mset_filter size_mset)

lemma report_mset:
  assumes "mset rs = mset rs'"
  shows "sim_report_of wall rs = sim_report_of wall rs'"
proof -
  have "workload_row_of rs = workload_row_of rs'"
    by (rule ext) (simp only: workload_row_of_def sort_map_mset [OF assms] length_filter_mset [OF assms])
  moreover have "length rs = length rs'" using assms by (rule mset_eq_length)
  ultimately show ?thesis
    by (simp only: sim_report_of_def sort_map_mset [OF assms] length_filter_mset [OF assms])
qed

lemma run_burst_workload: "r \<in> set (run_burst w t b) \<Longrightarrow> res_workload r = w"
  by (induction w t b rule: run_burst.induct) (auto split: if_splits)

lemma run_agent_workload: "r \<in> set (run_agent w t bs) \<Longrightarrow> res_workload r = w"
  by (induction w t bs rule: run_agent.induct) (auto dest: run_burst_workload split: if_splits)

section \<open>Names\<close>

lemma last_dash:
  assumes "CHR ''-'' \<notin> set d" "CHR ''-'' \<notin> set e" "a @ CHR ''-'' # d = b @ CHR ''-'' # e"
  shows "a = b \<and> d = e"
proof -
  have tw: "takeWhile (\<lambda>c. c \<noteq> CHR ''-'') (rev (u @ CHR ''-'' # v)) = rev v" if "CHR ''-'' \<notin> set v" for u v :: string
    using that by (subst rev_append, subst rev.simps, subst append_assoc, subst takeWhile_append2) auto
  have "rev d = rev e" using tw [OF assms(1), of a] tw [OF assms(2), of b] by (simp only: assms(3))
  then show ?thesis using assms(3) by simp
qed

lemma no_dash: "CHR ''-'' \<notin> set (show_nat n)"
  using show_nat_is_digit [of n] by (auto simp: list_all_iff is_digit_def)

lemma agent_id_inj: "sim_agent_id w i = sim_agent_id v j \<longleftrightarrow> w = v \<and> i = j"
proof
  assume "sim_agent_id w i = sim_agent_id v j"
  then have "(w @ ''-agent'') @ CHR ''-'' # show_nat i = (v @ ''-agent'') @ CHR ''-'' # show_nat j"
    by (simp add: sim_agent_id_def)
  from last_dash [OF no_dash no_dash this] have "w = v" and n: "show_nat i = show_nat j" by (elim conjE, simp only: append_same_eq)+
  moreover have "i = j" using arg_cong [OF n, of digits_val] by simp
  ultimately show "w = v \<and> i = j" by blast
qed simp

lemma workflow_id_inj:
  assumes "CHR ''-'' \<notin> set hex" "CHR ''-'' \<notin> set hex'" "sim_workflow_id w i hex = sim_workflow_id v j hex'"
  shows "w = v \<and> i = j"
proof -
  have "CHR ''-'' \<notin> set (take 6 hex)" "CHR ''-'' \<notin> set (take 6 hex')" using assms(1,2) by (auto dest: in_set_takeD)
  moreover have "(''wf-'' @ sim_agent_id w i) @ CHR ''-'' # take 6 hex = (''wf-'' @ sim_agent_id v j) @ CHR ''-'' # take 6 hex'"
    using assms(3) by (simp add: sim_workflow_id_def)
  ultimately have "sim_agent_id w i = sim_agent_id v j" using last_dash by blast
  then show ?thesis by (simp add: agent_id_inj)
qed

lemma burst_mset: "mset rs = mset rs' \<Longrightarrow> run_scale n rs wall = run_scale n rs' wall"
  using mset_eq_length [of rs rs'] sort_map_mset [of rs rs' res_latency res_ok] length_filter_mset [of rs rs' "\<lambda>r. \<not> res_ok r"]
  by (simp only: run_scale_def)

section \<open>Properties\<close>

text \<open>
  C38. The load benchmark keeps its concurrency and finishes. At every moment at most the given number of
  requests is in flight and the waiting ones are the last of the row; every step does part of the
  remaining work; whatever the order in which the answers come, \<open>gather\<close> returns one result per
  request in the order of the requests, and with a positive concurrency that point is always
  reachable and never missed. With concurrency 0 no request is ever sent and the run hangs.
\<close>

theorem load_run_completes:
  assumes "(load_step answer)\<^sup>*\<^sup>* (load_start c n) s"
  defines "results \<equiv> map (\<lambda>i. one_request (fst (answer i)) (snd (answer i))) [0..<n]"
  shows "length (sm_running s) \<le> c \<and> (\<exists>k \<le> n. sm_waiting s = [k..<n])
    \<and> (\<forall>s'. load_step answer s s' \<longrightarrow> load_work s' < load_work s)
    \<and> (\<forall>rs. gathered n s = Some rs \<longrightarrow> rs = results)
    \<and> (0 < c \<longrightarrow> (\<exists>s'. (load_step answer)\<^sup>*\<^sup>* s s' \<and> gathered n s' = Some results)
         \<and> (gathered n s = None \<longrightarrow> (\<exists>s'. load_step answer s s')))
    \<and> (c = 0 \<and> 0 < n \<longrightarrow> gathered n s = None \<and> (\<nexists>s'. load_step answer s s'))"
proof -
  obtain k where inv: "load_inv answer c n k s" using load_inv_reach [OF assms(1)] ..
  have fin: "\<exists>s'. (load_step answer)\<^sup>*\<^sup>* s s' \<and> gathered n s' = Some results" if pos: "0 < c"
  proof -
    obtain t where t: "(load_step answer)\<^sup>*\<^sup>* s t" "sm_waiting t = []" "sm_running t = []"
      using load_finishes [OF inv pos] by (elim exE conjE)
    obtain k' where "load_inv answer c n k' t" using load_inv_reach [OF rtranclp_trans [OF assms(1) t(1)]] ..
    from gathered_eq [OF this] t show ?thesis by (auto simp: results_def)
  qed
  have hang: "gathered n s = None \<and> (\<nexists>s'. load_step answer s s')" if "c = 0" "0 < n"
  proof -
    have s: "s = load_start 0 n" using load_zero assms(1) that(1) by blast
    have "gathered n s = None" using gathered_eq [OF inv] that(2) by (simp add: s load_start_def)
    then show ?thesis by (auto simp: s load_start_def elim!: load_stepE)
  qed
  have live: "\<exists>s'. load_step answer s s'" if "0 < c" "gathered n s = None"
    using load_step_exists [OF inv that(1)] gathered_eq [OF inv] that(2) by (auto split: if_splits)
  have res: "rs = results" if "gathered n s = Some rs" for rs
    using gathered_eq [OF inv] that by (auto simp: results_def split: if_splits)
  have "length (sm_running s) \<le> c" "\<exists>k \<le> n. sm_waiting s = [k..<n]"
    using inv by (auto simp: load_inv_def)
  then show ?thesis using fin hang live res load_work_decreases by (intro conjI impI allI) simp_all
qed

theorem load_run_completes_witness:
  "length (sm_running (enter (load_start 1 2))) \<le> 1
     \<and> (\<exists>s'. (load_step (\<lambda>i. (1, Some 200)))\<^sup>*\<^sup>* (enter (load_start 1 2)) s' \<and> gathered 2 s' = Some [(1, True, 200), (1, True, 200)])"
proof -
  have "(load_step (\<lambda>i. (1, Some 200)))\<^sup>*\<^sup>* (load_start 1 2) (enter (load_start 1 2))"
    by (intro r_into_rtranclp load_step.enters) (simp_all add: load_start_def)
  from load_run_completes [OF this] show ?thesis by (simp add: one_request_def upt_rec)
qed

text \<open>
  The order in which the agents of a simulation append their results does not matter. Every agent's
  results stay in its own order, the report and the row of the bursts experiment are those of the
  agents run one after the other, and the rows account for every request and every failure.
\<close>

theorem simulation_any_order:
  assumes "interleaved (sim_agents end_time ws bursts) rs" and "set ws \<subseteq> set (map wp_name profiles)"
  shows "sim_report_of wall rs = sim_report_of wall (concat (sim_agents end_time ws bursts))
    \<and> run_scale (length ws) rs wall = run_scale (length ws) (concat (sim_agents end_time ws bursts)) wall
    \<and> (\<forall>i < length ws. subseq (run_agent (ws ! i) end_time (bursts i)) rs)
    \<and> sum_by row_requests (rep_rows (sim_report_of wall rs)) = length rs
    \<and> sum_by row_failed (rep_rows (sim_report_of wall rs)) = length (filter (\<lambda>r. \<not> res_ok r) rs)"
proof -
  have m: "mset rs = mset (concat (sim_agents end_time ws bursts))" by (rule interleaved_mset [OF assms(1)])
  have agent: "i < length ws \<Longrightarrow> sim_agents end_time ws bursts ! i = run_agent (ws ! i) end_time (bursts i)" for i
    by (simp add: sim_agents_def nth_enumerate_eq)
  have len: "length (sim_agents end_time ws bursts) = length ws" by (simp add: sim_agents_def)
  have "res_workload r \<in> set (map wp_name profiles)" if "r \<in> set rs" for r
  proof -
    have "r \<in> set (concat (sim_agents end_time ws bursts))" using that m by (metis set_mset_mset)
    then obtain i where "i < length ws" "r \<in> set (run_agent (ws ! i) end_time (bursts i))"
      using agent len by (auto simp: set_conv_nth [of "sim_agents end_time ws bursts"])
    then show ?thesis using run_agent_workload assms(2) by (metis nth_mem subsetD)
  qed
  then have "\<forall>r \<in> set rs. res_workload r \<in> set (map wp_name profiles)" ..
  from simulation_accounts [OF this, of wall] have
    "sum_by row_requests (rep_rows (sim_report_of wall rs)) = length rs"
    "sum_by row_failed (rep_rows (sim_report_of wall rs)) = length (filter (\<lambda>r. \<not> res_ok r) rs)"
    by (simp_all add: sim_report_of_def Let_def)
  moreover have "\<forall>i < length ws. subseq (run_agent (ws ! i) end_time (bursts i)) rs"
    using interleaved_subseq [OF assms(1)] len agent by metis
  ultimately show ?thesis using report_mset [OF m] burst_mset [OF m] by simp
qed

definition demo_bursts :: "nat \<Rightarrow> (real \<times> request_sample list) list" where
  "demo_bursts i = [(0, [(0, real i + 1, i = 0)])]"

theorem simulation_any_order_witness:
  "\<exists>rs. interleaved (sim_agents 1 [''batch'', ''coding''] demo_bursts) rs \<and> res_workload (hd rs) = ''coding''
     \<and> sim_report_of 1 rs = sim_report_of 1 (concat (sim_agents 1 [''batch'', ''coding''] demo_bursts))
     \<and> sum_by row_failed (rep_rows (sim_report_of 1 rs)) = 1"
proof -
  let ?b = "\<lparr>res_workload = ''batch'', res_latency = 1, res_ok = True, res_status = 200\<rparr>"
  let ?c = "\<lparr>res_workload = ''coding'', res_latency = 2, res_ok = False, res_status = 0\<rparr>"
  have e: "sim_agents 1 [''batch'', ''coding''] demo_bursts = [[?b], [?c]]"
    by (simp add: sim_agents_def demo_bursts_def)
  have "interleaved [[?b], [?c]] [?c, ?b]"
    by (rule interleaved.append [of 1 _ _ "[]"]) (simp_all, rule interleaved.append [of 0 _ _ "[]"], simp_all,
      rule interleaved.finished, simp)
  then have i: "interleaved (sim_agents 1 [''batch'', ''coding''] demo_bursts) [?c, ?b]" by (simp only: e)
  note claim = simulation_any_order [OF i, of 1]
  have p: "set [''batch'', ''coding''] \<subseteq> set (map wp_name profiles)" by (simp add: profiles_def)
  have f: "length (filter (\<lambda>r. \<not> res_ok r) [?c, ?b]) = 1" "res_workload (hd [?c, ?b]) = ''coding''" by simp_all
  show ?thesis using claim [OF p, unfolded f(1)] i f(2) by (elim conjE) (intro exI [of _ "[?c, ?b]"] conjI)
qed

text \<open>
  Simulated agents do not mix. Two agents have different agent and workflow ids, also when they run
  the same workload, and what an agent sends is read by the gateway as a chat of that agent in that
  workflow with the prompt as its one message.
\<close>

theorem simulated_agents_apart:
  assumes "CHR ''-'' \<notin> set hex" and "CHR ''-'' \<notin> set hex'" and "i \<noteq> j"
  shows "sim_agent_id w i \<noteq> sim_agent_id v j \<and> sim_workflow_id w i hex \<noteq> sim_workflow_id v j hex'
    \<and> (\<exists>rq. parse_chat (snd (sim_request w i hex model len)) = Inr rq \<and> rq_agent_id rq = Some (sim_agent_id w i)
         \<and> rq_workflow_id rq = Some (sim_workflow_id w i hex) \<and> rq_messages rq = [(''user'', make_prompt len)])"
proof -
  have "map message_json [(''user'', make_prompt len)] = [message_json (''user'', make_prompt len)]" by simp
  from agent_chat_arrives [of "[(''user'', make_prompt len)]"] show ?thesis
    using workflow_id_inj [OF assms(1,2)] assms(3) by (auto simp: agent_id_inj sim_request_def)
qed

theorem simulated_agents_apart_witness:
  "sim_agent_id ''batch'' 1 \<noteq> sim_agent_id ''batch'' 11
     \<and> sim_workflow_id ''batch'' 1 ''1a2b3c'' \<noteq> sim_workflow_id ''batch'' 11 ''1a2b3c''"
  using simulated_agents_apart [of "''1a2b3c''" "''1a2b3c''" 1 11 "''batch''" "''batch''"] by simp

end
