(* ===== verification/QueuedRequest.thy ===== *)
theory QueuedRequest
  imports Gateway
begin

text \<open>
  The queued route from end to end: \<^verbatim>\<open>queued_generate\<close> of \<^verbatim>\<open>gateway/routes.py\<close> enqueues a job and
  polls for its result, while \<^verbatim>\<open>_process_loop\<close> of \<^verbatim>\<open>workers/worker_pool.py\<close> takes the jobs off the stream
  one by one. Between two rounds of the loop, and between two polls, anything else may happen that does
  not take entries away from the consumer group.
\<close>

section \<open>The loop\<close>

text \<open>Rounds of \<open>_process_loop\<close>, each with its environment and with what happened before it.\<close>

fun pool_rounds ::
  "'s redis \<Rightarrow> pool_config \<Rightarrow> (job_env \<times> ('s world \<Rightarrow> 's world)) list \<Rightarrow> 's world \<Rightarrow> 's world" where
  "pool_rounds rd pc [] w = w"
| "pool_rounds rd pc ((env, meanwhile) # rs) w = pool_rounds rd pc rs (process_iteration rd pc env (meanwhile w))"

text \<open>The rest of the program may add jobs and use the balancer, but it does not consume the queue.\<close>

definition leaves_queue :: "('s \<Rightarrow> stream_entry list) \<Rightarrow> ('s world \<Rightarrow> 's world) \<Rightarrow> bool" where
  "leaves_queue fresh f \<longleftrightarrow>
     (\<forall>w. (\<exists>es. fresh (w_redis (f w)) = fresh (w_redis w) @ es) \<and> (lb_inv (w_lb w) \<longrightarrow> lb_inv (w_lb (f w))))"

text \<open>The job \<open>queued_generate\<close> enqueues for the metadata \<open>m\<close> it has resolved.\<close>

definition queued_job :: "gw_settings \<Rightarrow> generate_request \<Rightarrow> json pydict \<Rightarrow> 's gateway \<Rightarrow> payload" where
  "queued_job cfg rq m g =
     dict_merge [(''request_id'', JStr (request_id_of m))]
       (queued_payload cfg rq (fst (get_prospective_context_tokens m (rq_prompt rq) g)))"

text \<open>What a job may answer: the reply of a registered worker, or the text of an error.\<close>

definition answer_of :: "job_env \<Rightarrow> balancer \<Rightarrow> json pydict \<Rightarrow> bool" where
  "answer_of env lb r \<longleftrightarrow> (\<exists>e. is_runtime_error e \<and> r = error_result e)
     \<or> (\<exists>w \<in> set (workers lb). fst (finish_of ((je_end env)\<lparr>ce_chat := False\<rparr>) w) = Inr r)"

section \<open>One job\<close>

lemma lb_inv_process_begin:
  assumes "lb_inv (fst s)" shows "lb_inv (fst (snd (process_begin strat now1 now2 st p s)))"
proof -
  have inv: "lb_inv (snd (pick_worker strat now1 now2 c (fst s)))" for c by (rule lb_inv_pick [OF assms])
  have up: "lb_inv (update_client i begin_call (snd (pick_worker strat now1 now2 c (fst s))))" for i c
    by (rule lb_inv_update_client) (simp_all add: inv)
  show ?thesis
    using inv [of "opt_int (dict_get p ''context_tokens'' JNull)"] up [of _ "opt_int (dict_get p ''context_tokens'' JNull)"] assms
    by (auto simp: process_begin_def Let_def split: option.split prod.splits sum.split)
qed

lemma lb_inv_process_job:
  assumes "lb_inv (fst s)" shows "lb_inv (fst (snd (process_job env p s)))"
proof -
  let ?b = "process_begin (ca_strategy (je_start env)) (ca_now1 (je_start env)) (ca_now2 (je_start env)) (je_stamp env) p s"
  have inv: "lb_inv (fst (snd ?b))" by (rule lb_inv_process_begin [OF assms])
  have fin: "lb_inv (snd (process_end c rid w (fst (snd ?b))))" for c rid w
    using pool.finish_invar [OF inv, of c w]
    by (cases "stop_call c w (fst (snd ?b))") (simp add: process_end_def split: sum.split)
  show ?thesis
    using inv fin by (auto simp: process_job_def split: prod.splits sum.split job_phase.split) (metis snd_conv)
qed

text \<open>The caller of a call to a registered worker sees how the call ended.\<close>

lemma stop_call_answer:
  assumes "breakers lb (curl w) \<noteq> None" shows "fst (stop_call c w lb) = fst (finish_of c w)"
proof -
  have up: "breakers (update_client i f lb) = breakers lb" for i f by (simp add: update_client_def)
  show ?thesis
  proof (cases "fst (finish_of c w)")
    case (Inl e)
    then show ?thesis
      using finish_of_error [OF Inl] assms
      by (auto simp: stop_call_def dispatch_end_def Let_def record_failure_def on_breaker_def up)
  next
    case (Inr r)
    then show ?thesis
      using assms by (auto simp: stop_call_def dispatch_end_def Let_def record_success_def on_breaker_def up)
  qed
qed

lemma process_begin_running:
  assumes "lb_inv (fst s)" "process_begin strat now1 now2 st p s = (Inr (Running rid w chat body), s')"
  shows "breakers (fst s') (curl w) \<noteq> None"
proof -
  obtain lb1 where pick: "pick_worker strat now1 now2 (opt_int (dict_get p ''context_tokens'' JNull)) (fst s) = (Inr w, lb1)"
      and s': "fst s' = update_client (cid w) begin_call lb1"
    using assms(2) by (auto simp: process_begin_def Let_def split: option.splits prod.splits sum.splits if_splits)
  have "w \<in> set (eligible_workers now1 (opt_int (dict_get p ''context_tokens'' JNull)) (fst s))"
    by (rule pick_worker_Inr(1) [OF assms(1) pick])
  then have "w \<in> set (workers lb1)"
    using pick_worker_Inr [OF assms(1) pick] by (simp add: eligible_workers_def)
  then show ?thesis
    using lb_inv_dom [OF pick_worker_Inr(3) [OF assms(1) pick]] by (auto simp: s' update_client_def)
qed

text \<open>Running the job of a queued request always yields an answer under its request id.\<close>

lemma queued_job_answered:
  assumes "lb_inv lb" "p = dict_merge [(''request_id'', JStr rid)] (queued_payload cfg rq tokens)"
  shows "\<exists>r. fst (process_job env p (lb, cm)) = Inr (JStr rid, r) \<and> answer_of env lb r"
proof -
  obtain ph s' where b: "process_begin (ca_strategy (je_start env)) (ca_now1 (je_start env)) (ca_now2 (je_start env))
        (je_stamp env) p (lb, cm) = (Inr ph, s')"
      and ph: "case ph of Settled r d \<Rightarrow> r = JStr rid \<and> (\<exists>e. is_runtime_error e \<and> d = error_result e)
           | Running r w chat body \<Rightarrow> r = JStr rid \<and> \<not> chat \<and> w \<in> set (workers lb)
               \<and> body = generate_body (JStr (effective_model cfg (rq_model rq))) (JStr (rq_prompt rq))"
    using queued_job_begin [OF assms] by blast
  show ?thesis
  proof (cases ph)
    case (Settled r d)
    then show ?thesis using b ph by (auto simp: process_job_def answer_of_def)
  next
    case (Running r w chat body)
    let ?c = "(je_end env)\<lparr>ce_chat := False\<rparr>"
    have w: "r = JStr rid" "\<not> chat" "w \<in> set (workers lb)" using ph Running by simp_all
    have "breakers (fst s') (curl w) \<noteq> None"
      using process_begin_running [of "(lb, cm)"] b Running assms(1) by (metis fst_conv)
    then have a: "fst (stop_call ?c w (fst s')) = fst (finish_of ?c w)" by (rule stop_call_answer)
    obtain x lb' where x: "stop_call ?c w (fst s') = (x, lb')" by force
    have run: "fst (process_job env p (lb, cm)) =
        (case x of Inr reply \<Rightarrow> Inr (JStr rid, reply)
         | Inl e \<Rightarrow> if is_runtime_error e then Inr (JStr rid, error_result e) else Inl e)"
      using b Running w x by (simp add: process_job_def process_end_def split: sum.split)
    show ?thesis
    proof (cases x)
      case (Inl e)
      then have "fst (finish_of ?c w) = Inl e" using a x by simp
      from finish_of_error [OF this] show ?thesis using run Inl by (auto simp: answer_of_def)
    next
      case (Inr reply)
      then have "fst (finish_of ?c w) = Inr reply" using a x by simp
      then show ?thesis using run Inr w(3) by (auto simp: answer_of_def)
    qed
  qed
qed


lemma generate_reply_nonempty: "generate_reply inc base l j \<noteq> Inr []"
  by (simp add: generate_reply_def split: sum.split prod.split)

lemma answer_nonempty:
  assumes "answer_of env lb r" shows "r \<noteq> []"
proof -
  have "fst (finish_generate inc l o' w) \<noteq> Inr []" for inc l o' and w :: client
    using generate_reply_nonempty [of inc "base_url w" l]
    by (cases o') (simp_all add: finish_generate_def finish_call_def Let_def split: sum.split, metis)
  with assms show ?thesis by (auto simp: answer_of_def error_result_def finish_of_def)
qed

section \<open>Rounds of the loop\<close>

lemma fresh_settle:
  assumes "delivery_laws rd (stream_key (po_queue pc)) (group_name (po_queue pc)) entries pending fresh"
  shows "fresh (snd (settle rd pc i rid r s)) = fresh s"
proof -
  note fr = delivery_lawsD(3,4) [OF assms]
  obtain x s1 where s1: "r_setex rd (result_key pc rid) 300 (dumps (JDict r)) s = (x, s1)" by force
  obtain y s2 where s2: "xack rd (stream_key (po_queue pc)) (group_name (po_queue pc)) i s1 = (y, s2)" by force
  have "fresh s1 = fresh s" using fr(1) [of "result_key pc rid" 300 "dumps (JDict r)" s] by (simp only: s1 snd_conv)
  moreover have "fresh s2 = fresh s1" using fr(2) [of i s1] by (simp only: s2 snd_conv)
  ultimately show ?thesis
    by (simp add: settle_def store_result_def ack_def bind_def ret_def s1 s2 del: dumps.simps split: sum.split)
qed

lemma handle_job_keeps:
  assumes "delivery_laws rd (stream_key (po_queue pc)) (group_name (po_queue pc)) entries pending fresh"
  shows "fresh (w_redis (snd (handle_job rd pc env e w))) = fresh (w_redis w)"
    and "lb_inv (w_lb w) \<Longrightarrow> lb_inv (w_lb (snd (handle_job rd pc env e w)))"
proof -
  obtain x lb cm where x: "process_job env (snd e) (w_lb w, w_cm w) = (x, lb, cm)" by (metis prod_cases3)
  have f: "fresh (snd (settle rd pc (fst e) rid r (w_redis w))) = fresh (w_redis w)" for rid r
    by (rule fresh_settle [OF assms])
  show "fresh (w_redis (snd (handle_job rd pc env e w))) = fresh (w_redis w)"
  proof (cases x)
    case (Inr y)
    obtain rid r where "y = (rid, r)" by force
    then show ?thesis
      using f [of rid r] Inr by (cases "settle rd pc (fst e) rid r (w_redis w)") (simp add: handle_job_def x)
  qed (simp add: handle_job_def x)
  have "w_lb (snd (handle_job rd pc env e w)) = lb"
    by (simp add: handle_job_def x split: sum.split prod.split)
  then show "lb_inv (w_lb (snd (handle_job rd pc env e w)))" if "lb_inv (w_lb w)"
    using lb_inv_process_job [of "(w_lb w, w_cm w)" env "snd e"] that by (simp add: x)
qed

text \<open>A round takes the first entry off the queue, whatever running it does.\<close>

lemma iteration_reads:
  assumes "delivery_laws rd (stream_key (po_queue pc)) (group_name (po_queue pc)) entries pending fresh"
    and "fresh (w_redis w) = (i, f) # es"
  obtains s where "fresh s = es"
    "process_iteration rd pc env w =
      (case decode_fields f of Inl x \<Rightarrow> w\<lparr>w_redis := s\<rparr>
       | Inr p \<Rightarrow> snd (handle_job rd pc env (i, p) (w\<lparr>w_redis := s\<rparr>)))"
proof -
  obtain s where s: "xreadgroup rd (stream_key (po_queue pc)) (group_name (po_queue pc)) (consumer_name (po_queue pc)) 1 (w_redis w)
      = (Inr [(stream_key (po_queue pc), [(i, f)])], s)" "fresh s = es"
    using delivery_lawsD(1) [OF assms(1), of 1 "consumer_name (po_queue pc)" "w_redis w"] assms(2) by auto
  have "queue_read rd (po_queue pc) 1 (w_redis w) = (map_sum id (\<lambda>p. [(i, p)]) (decode_fields f), s)"
    using s(1) by (simp add: queue_read_def bind_def lift_result_def decode_entries_def split: sum.split)
  with s(2) show thesis
    by (intro that [of s]) (simp_all add: process_iteration_def split: sum.split)
qed

lemma iteration_takes:
  assumes "delivery_laws rd (stream_key (po_queue pc)) (group_name (po_queue pc)) entries pending fresh"
    and "fresh (w_redis w) = e # es"
  shows "fresh (w_redis (process_iteration rd pc env w)) = es"
    and "lb_inv (w_lb w) \<Longrightarrow> lb_inv (w_lb (process_iteration rd pc env w))"
proof -
  obtain i f where e: "e = (i, f)" by force
  obtain s where s: "fresh s = es" "process_iteration rd pc env w =
      (case decode_fields f of Inl x \<Rightarrow> w\<lparr>w_redis := s\<rparr>
       | Inr p \<Rightarrow> snd (handle_job rd pc env (i, p) (w\<lparr>w_redis := s\<rparr>)))"
    using iteration_reads [OF assms(1), of w i f es env] assms(2) e by metis
  note keeps = handle_job_keeps [OF assms(1), where env = env and w = "w\<lparr>w_redis := s\<rparr>"]
  show "fresh (w_redis (process_iteration rd pc env w)) = es"
    using s keeps(1) by (simp split: sum.split)
  show "lb_inv (w_lb (process_iteration rd pc env w))" if "lb_inv (w_lb w)"
    using s(2) keeps(2) that by (simp split: sum.split)
qed

text \<open>After as many rounds as there are entries ahead, the entry behind them is the first.\<close>

lemma rounds_take:
  assumes "delivery_laws rd (stream_key (po_queue pc)) (group_name (po_queue pc)) entries pending fresh"
    and "fresh (w_redis w) = xs @ ys" "lb_inv (w_lb w)" "length rs = length xs" "\<forall>r \<in> set rs. leaves_queue fresh (snd r)"
  shows "(\<exists>zs. fresh (w_redis (pool_rounds rd pc rs w)) = ys @ zs) \<and> lb_inv (w_lb (pool_rounds rd pc rs w))"
  using assms(2-)
proof (induction rs arbitrary: xs ys w)
  case Nil
  then show ?case by simp
next
  case (Cons r rs)
  obtain env f where r: "r = (env, f)" by force
  obtain x xs' where xs: "xs = x # xs'" using Cons.prems(3) by (cases xs) auto
  obtain es where es: "fresh (w_redis (f w)) = x # (xs' @ (ys @ es))" "lb_inv (w_lb (f w))"
    using Cons.prems r xs by (auto simp: leaves_queue_def)
  let ?w = "process_iteration rd pc env (f w)"
  have "fresh (w_redis ?w) = xs' @ (ys @ es)" by (rule iteration_takes(1) [OF assms(1) es(1)])
  moreover have "lb_inv (w_lb ?w)" by (rule iteration_takes(2) [OF assms(1) es])
  ultimately obtain zs where zs: "fresh (w_redis (pool_rounds rd pc rs ?w)) = (ys @ es) @ zs"
      "lb_inv (w_lb (pool_rounds rd pc rs ?w))"
    using Cons.IH [of ?w xs' "ys @ es"] Cons.prems(3,4) xs by auto
  then show ?case by (auto simp: r)
qed

lemma pool_rounds_append: "pool_rounds rd pc (rs @ rs') w = pool_rounds rd pc rs' (pool_rounds rd pc rs w)"
  by (induction rs arbitrary: w) (auto split: prod.split)

text \<open>The round of the queued job stores its answer and takes its entry off the pending list.\<close>

lemma round_of_job:
  assumes laws: "keyspace_laws rd kv members" "stream_laws rd entries pending rank" "separate_laws rd entries pending kv"
    and del: "delivery_laws rd (stream_key (po_queue pc)) (group_name (po_queue pc)) entries pending fresh"
    and first: "fresh (w_redis w) = (i, encode_fields p) # es" and inv: "lb_inv (w_lb w)"
    and p: "p = dict_merge [(''request_id'', JStr rid)] (queued_payload cfg rq tokens)"
  shows "\<exists>r. fst (process_job env p (w_lb w, w_cm w)) = Inr (JStr rid, r) \<and> answer_of env (w_lb w) r
    \<and> kv (w_redis (process_iteration rd pc env w)) (result_prefix pc @ rid) = Some (dumps (JDict r))
    \<and> pending (w_redis (process_iteration rd pc env w)) (stream_key (po_queue pc), group_name (po_queue pc)) i = None"
proof -
  obtain s where s: "process_iteration rd pc env w = snd (handle_job rd pc env (i, p) (w\<lparr>w_redis := s\<rparr>))"
    using iteration_reads [OF del first, of env] queued_job_encodes [OF p] by auto
  obtain r lb cm where r: "process_job env p (w_lb w, w_cm w) = (Inr (JStr rid, r), lb, cm)" "answer_of env (w_lb w) r"
    using queued_job_answered [OF inv p, of env "w_cm w"] by (metis prod.collapse)
  obtain s' where s': "settle rd pc i (JStr rid) r s = (Inr (), s')"
      "kv s' = (kv s)(result_prefix pc @ rid \<mapsto> dumps (JDict r))"
      "pending s' = (pending s)((stream_key (po_queue pc), group_name (po_queue pc)) :=
        (pending s (stream_key (po_queue pc), group_name (po_queue pc)))(i := None))"
    using settle_ok [OF laws, of pc i "JStr rid" r s] by (auto simp: result_key_def)
  have "w_redis (process_iteration rd pc env w) = s'" by (simp add: s handle_job_def r(1) s'(1))
  with r s'(2,3) show ?thesis by simp
qed

section \<open>Polling\<close>

text \<open>A request whose result is never seen answers 504 after 240 polls and leaves Redis as it is then.\<close>

lemma queued_request_times_out:
  assumes "keyspace_laws rd kv members" "polled kv (result_prefix pc @ request_id_of m) others 240 S 240"
    and "w_redis (gw g) = S 0"
  shows "queued_end rd pc others m g =
    (Inl (HTTPException 504 ''Request timed out in queue''),
     record_workflow_failure m ''/queued/generate'' (on_redis (S 240) g))"
  using poll_result_skips [OF assms(1), of "result_prefix pc @ request_id_of m" others 240 0 S] assms(2,3)
  by (simp add: queued_end_def get_result_def del: poll_result.simps(2))

lemma queued_end_answers:
  assumes "keyspace_laws rd kv members" "polled kv (result_prefix pc @ request_id_of m) others 240 S j" "j < 240"
    and "kv (S j) (result_prefix pc @ request_id_of m) = Some (dumps (JDict r))" "wf_json (JDict r)" "r \<noteq> []"
    and "w_redis (gw g) = S 0"
  shows "\<exists>g'. queued_end rd pc others m g = (Inr (dict_merge m r), g')
    \<and> kv (w_redis (gw g')) (result_prefix pc @ request_id_of m) = None"
proof -
  obtain s' where s': "poll_result rd (result_prefix pc @ request_id_of m) others 240 (S 0) = (Inr (Some (JDict r)), s')"
      "kv s' (result_prefix pc @ request_id_of m) = None"
    using poll_result_finds [OF assms(1-5)] by blast
  obtain x d where r: "r = x # d" using assms(6) by (cases r) auto
  have "w_redis (gw (record_workflow_failure m e (on_redis s' g))) = s'" "w_redis (gw (on_redis s' g)) = s'" for e
    by (simp_all add: record_workflow_failure_def on_redis_def)
  then show ?thesis
    using s' by (simp add: queued_end_def get_result_def assms(7) r)
qed

section \<open>Enqueueing\<close>

lemma queued_begin_enqueues:
  assumes "stream_laws rd entries pending rank"
    and "delivery_laws rd (stream_key (po_queue pc)) (group_name (po_queue pc)) entries pending fresh"
    and "queued_begin rd pc cfg uuid key rq g = (Inr m, g1)"
  obtains i where "(i, encode_fields (queued_job cfg rq m g)) \<in> set (entries (w_redis (gw g1)) (stream_key (po_queue pc)))"
    "fresh (w_redis (gw g1)) = fresh (w_redis (gw g)) @ [(i, encode_fields (queued_job cfg rq m g))]"
    "gw_lb g1 = gw_lb g"
proof -
  let ?p = "queued_job cfg rq m g"
  obtain i s where s: "xadd rd (stream_key (po_queue pc)) (encode_fields ?p) (w_redis (gw g)) = (Inr i, s)"
      "entries s = (entries (w_redis (gw g)))(stream_key (po_queue pc) :=
         entries (w_redis (gw g)) (stream_key (po_queue pc)) @ [(i, encode_fields ?p)])"
    using stream_lawsD(1) [OF assms(1)] by blast
  have f: "fresh s = fresh (w_redis (gw g)) @ [(i, encode_fields ?p)]"
    by (rule delivery_lawsD(2) [OF assms(2) s(1)])
  have "pool_enqueue rd pc (request_id_of m) (queued_payload cfg rq (fst (get_prospective_context_tokens m (rq_prompt rq) g)))
      (w_redis (gw g)) = (Inr (), s)"
    using s(1) by (simp add: pool_enqueue_def enqueue_def bind_def depth_def ret_def stream_lawsD(3) [OF assms(1)] queued_job_def)
  moreover have "fst (get_prospective_context_tokens m x (g\<lparr>agent_requests := a\<rparr>)) = fst (get_prospective_context_tokens m x g)"
      "gw (snd (get_prospective_context_tokens m x (g\<lparr>agent_requests := a\<rparr>))) = gw g" for x a
    by (simp_all add: get_prospective_context_tokens_def Let_def split: option.split)
  ultimately have "gw g1 = (gw g)\<lparr>w_redis := s\<rparr>"
    using assms(3)
    by (auto simp: queued_begin_def resolve_agent_metadata_def Let_def on_redis_def case_prod_beta split: sum.splits)
  with s(2) f show thesis by (intro that [of i]) simp_all
qed

text \<open>With the right key a request is accepted; accepted or not, it leaves the queue to its consumers.\<close>

lemma queued_begin_accepts:
  assumes "stream_laws rd entries pending rank"
  shows "\<exists>m. fst (queued_begin rd pc cfg uuid (Some (api_key cfg)) rq g) = Inr m"
proof -
  have enq: "fst (pool_enqueue rd pc rid p r) = Inr ()" for rid p r
    using stream_lawsD(1) [OF assms, of "stream_key (po_queue pc)" "encode_fields (dict_merge [(''request_id'', JStr rid)] p)" r]
    by (auto simp: pool_enqueue_def enqueue_def bind_def depth_def ret_def stream_lawsD(3) [OF assms])
  show ?thesis
    by (simp add: queued_begin_def verify_api_key_def Let_def case_prod_beta enq split: sum.split)
qed

lemma queued_begin_leaves_queue:
  assumes "stream_laws rd entries pending rank"
    and "delivery_laws rd (stream_key (po_queue pc)) (group_name (po_queue pc)) entries pending fresh"
  shows "leaves_queue fresh (\<lambda>w. gw (snd (queued_begin rd pc cfg uuid key rq (g\<lparr>gw := w\<rparr>))))"
  unfolding leaves_queue_def
proof
  fix w
  let ?g = "g\<lparr>gw := w\<rparr>"
  obtain x g1 where q: "queued_begin rd pc cfg uuid key rq ?g = (x, g1)" by force
  show "(\<exists>es. fresh (w_redis (gw (snd (queued_begin rd pc cfg uuid key rq ?g)))) = fresh (w_redis w) @ es)
      \<and> (lb_inv (w_lb w) \<longrightarrow> lb_inv (gw_lb (snd (queued_begin rd pc cfg uuid key rq ?g))))"
  proof (cases "key = Some (api_key cfg)")
    case True
    then obtain m where "queued_begin rd pc cfg uuid key rq ?g = (Inr m, g1)"
      using queued_begin_accepts [OF assms(1), of pc cfg uuid rq ?g] q by auto
    then obtain i f where "fresh (w_redis (gw g1)) = fresh (w_redis (gw ?g)) @ [(i, f)]" "gw_lb g1 = gw_lb ?g"
      using queued_begin_enqueues [OF assms] by metis
    then show ?thesis by (simp add: q)
  next
    case False
    then show ?thesis by (simp add: queued_begin_def verify_api_key_def)
  qed
qed

text \<open>Nothing keeps two callers from the same request id: the first to poll takes the answer, the other times out.\<close>

lemma duplicate_request_id_starves:
  assumes "keyspace_laws rd kv members" "request_id_of m = request_id_of m'"
    and "kv (w_redis (gw g)) (result_prefix pc @ request_id_of m) = Some (dumps (JDict r))" "wf_json (JDict r)" "r \<noteq> []"
  shows "\<exists>g'. queued_end rd pc (\<lambda>_ s. s) m g = (Inr (dict_merge m r), g')
    \<and> fst (queued_end rd pc (\<lambda>_ s. s) m' g') = Inl (HTTPException 504 ''Request timed out in queue'')"
proof -
  have "polled kv (result_prefix pc @ request_id_of m) (\<lambda>_ s. s) 240 (\<lambda>_. w_redis (gw g)) 0" by (simp add: polled_def)
  from queued_end_answers [OF assms(1) this _ assms(3-5) refl] obtain g'
    where g': "queued_end rd pc (\<lambda>_ s. s) m g = (Inr (dict_merge m r), g')"
      "kv (w_redis (gw g')) (result_prefix pc @ request_id_of m) = None"
    by auto
  then have "polled kv (result_prefix pc @ request_id_of m') (\<lambda>_ s. s) 240 (\<lambda>_. w_redis (gw g')) 240"
    by (simp add: polled_def assms(2))
  from queued_request_times_out [OF assms(1) this refl] show ?thesis using g'(1) by simp
qed

section \<open>Property\<close>


text \<open>A request behind another one, with a third one arriving before its turn.\<close>

definition demo_queued :: "string \<Rightarrow> string \<Rightarrow> ref_state gateway \<Rightarrow> json pydict result \<times> ref_state gateway" where
  "demo_queued uuid prompt g =
     queued_begin ref_redis demo_pool demo_settings uuid (Some (api_key demo_settings)) (demo_request (Some ''wf'') prompt) g"

definition demo_ahead :: "ref_state gateway" where
  "demo_ahead = snd (demo_queued ''u1'' ''first'' (demo_gateway [''a'']))"

definition demo_rounds :: "(job_env \<times> (ref_state world \<Rightarrow> ref_state world)) list" where
  "demo_rounds = [(demo_env (Raised ''timeout''), \<lambda>w. w),
     (demo_env (Body (JDict [(''message'', JDict [(''content'', JStr ''hi'')])])),
      \<lambda>w. gw (snd (demo_queued ''u3'' ''third'' ((demo_gateway [])\<lparr>gw := w\<rparr>))))]"


end
