(* ===== verification/PoolHistory.thy ===== *)
theory PoolHistory
  imports QueuedRequest Settings
begin

text \<open>
  Whole histories of \<^verbatim>\<open>workers/worker_pool.py\<close>: \<^verbatim>\<open>_process_loop\<close> and \<^verbatim>\<open>_recovery_loop\<close> are two coroutines
  over the same stream, each of which may wait for a worker while the other goes on and callers enqueue
  more jobs. A history is a list of such steps; \<open>QueuedRequest\<close> runs the processing loop alone.
\<close>

section \<open>State and steps\<close>

text \<open>A job that waits for its worker: the entry, the request id, the client and the kind of call.\<close>

record running_job =
  rj_entry :: string
  rj_id :: json
  rj_client :: client
  rj_chat :: bool

text \<open>
  \<open>ps_job\<close> is what the processing loop awaits, \<open>ps_retries\<close> what the recovery loop has still to run
  and \<open>ps_retry\<close> what it awaits. \<open>ps_settled\<close> lists the results that were stored, with their entries.
\<close>

record 's pool_state =
  ps_world :: "'s world"
  ps_job :: "running_job option"
  ps_retries :: "(string \<times> payload) list"
  ps_retry :: "running_job option"
  ps_settled :: "(string \<times> json \<times> json pydict) list"

datatype job_step = Failed py_exc | Waiting running_job | Done json "json pydict"

text \<open>\<open>_store_result\<close> and \<open>ack\<close>, in this order.\<close>

definition settle_in ::
  "'s redis \<Rightarrow> pool_config \<Rightarrow> string \<Rightarrow> json \<Rightarrow> json pydict \<Rightarrow> 's world \<Rightarrow> job_step \<times> 's world" where
  "settle_in rd pc i rid r w =
     (case settle rd pc i rid r (w_redis w) of
        (Inl e, s) \<Rightarrow> (Failed e, w\<lparr>w_redis := s\<rparr>) | (Inr _, s) \<Rightarrow> (Done rid r, w\<lparr>w_redis := s\<rparr>))"

definition begin_job ::
  "'s redis \<Rightarrow> pool_config \<Rightarrow> job_env \<Rightarrow> string \<times> payload \<Rightarrow> 's world \<Rightarrow> job_step \<times> 's world" where
  "begin_job rd pc env e w =
     (case process_begin (ca_strategy (je_start env)) (ca_now1 (je_start env)) (ca_now2 (je_start env))
             (je_stamp env) (snd e) (w_lb w, w_cm w) of
        (Inl x, lb, cm) \<Rightarrow> (Failed x, w\<lparr>w_lb := lb, w_cm := cm\<rparr>)
      | (Inr (Settled rid r), lb, cm) \<Rightarrow> settle_in rd pc (fst e) rid r (w\<lparr>w_lb := lb, w_cm := cm\<rparr>)
      | (Inr (Running rid c chat body), lb, cm) \<Rightarrow>
          (Waiting \<lparr>rj_entry = fst e, rj_id = rid, rj_client = c, rj_chat = chat\<rparr>, w\<lparr>w_lb := lb, w_cm := cm\<rparr>))"

definition finish_job ::
  "'s redis \<Rightarrow> pool_config \<Rightarrow> call_end \<Rightarrow> running_job \<Rightarrow> 's world \<Rightarrow> job_step \<times> 's world" where
  "finish_job rd pc c j w =
     (case process_end (c\<lparr>ce_chat := rj_chat j\<rparr>) (rj_id j) (rj_client j) (w_lb w) of
        (Inl x, lb) \<Rightarrow> (Failed x, w\<lparr>w_lb := lb\<rparr>)
      | (Inr (rid, r), lb) \<Rightarrow> settle_in rd pc (rj_entry j) rid r (w\<lparr>w_lb := lb\<rparr>))"

text \<open>
  \<open>Submits\<close> is an enqueue of the gateway, \<open>Elsewhere\<close> what other requests do to the balancer and the
  context. The loops catch every exception; one in the recovery loop abandons the rest of its entries.
\<close>

datatype pool_event =
    Submits string payload
  | Reads job_env
  | Answered call_end
  | Recovers "string \<Rightarrow> json"
  | Retries job_env
  | RetryAnswered call_end
  | Elsewhere balancer context_manager

definition log_step :: "string \<Rightarrow> job_step \<Rightarrow> (string \<times> json \<times> json pydict) list" where
  "log_step i x = (case x of Done rid r \<Rightarrow> [(i, rid, r)] | _ \<Rightarrow> [])"

definition waiting :: "job_step \<Rightarrow> running_job option" where
  "waiting x = (case x of Waiting j \<Rightarrow> Some j | _ \<Rightarrow> None)"

definition failed :: "job_step \<Rightarrow> bool" where
  "failed x \<longleftrightarrow> (\<exists>e. x = Failed e)"

definition on_world_redis :: "'s \<Rightarrow> 's pool_state \<Rightarrow> 's pool_state" where
  "on_world_redis s st = st\<lparr>ps_world := (ps_world st)\<lparr>w_redis := s\<rparr>\<rparr>"

fun pool_step :: "'s redis \<Rightarrow> pool_config \<Rightarrow> pool_event \<Rightarrow> 's pool_state \<Rightarrow> 's pool_state" where
  "pool_step rd pc (Submits rid p) st = on_world_redis (snd (pool_enqueue rd pc rid p (w_redis (ps_world st)))) st"
| "pool_step rd pc (Elsewhere lb cm) st = st\<lparr>ps_world := (ps_world st)\<lparr>w_lb := lb, w_cm := cm\<rparr>\<rparr>"
| "pool_step rd pc (Reads env) st =
     (case ps_job st of
        Some j \<Rightarrow> st
      | None \<Rightarrow>
          (case queue_read rd (po_queue pc) 1 (w_redis (ps_world st)) of
             (Inr (e # _), s) \<Rightarrow>
               (case begin_job rd pc env e ((ps_world st)\<lparr>w_redis := s\<rparr>) of
                  (x, w) \<Rightarrow> st\<lparr>ps_world := w, ps_job := waiting x, ps_settled := ps_settled st @ log_step (fst e) x\<rparr>)
           | (_, s) \<Rightarrow> on_world_redis s st))"
| "pool_step rd pc (Answered c) st =
     (case ps_job st of
        None \<Rightarrow> st
      | Some j \<Rightarrow>
          (case finish_job rd pc c j (ps_world st) of
             (x, w) \<Rightarrow> st\<lparr>ps_world := w, ps_job := None, ps_settled := ps_settled st @ log_step (rj_entry j) x\<rparr>))"
| "pool_step rd pc (Recovers clock) st =
     (if ps_retry st = None \<and> ps_retries st = [] then
        (case recover rd (po_policy pc) (po_dead_letter pc) clock (w_redis (ps_world st)) of
           None \<Rightarrow> st
         | Some (Inl e, s) \<Rightarrow> on_world_redis s st
         | Some (Inr r, s) \<Rightarrow> (on_world_redis s st)\<lparr>ps_retries := retryable r\<rparr>)
      else st)"
| "pool_step rd pc (Retries env) st =
     (case (ps_retry st, ps_retries st) of
        (None, e # es) \<Rightarrow>
          (case begin_job rd pc env e (ps_world st) of
             (x, w) \<Rightarrow> st\<lparr>ps_world := w, ps_retry := waiting x, ps_retries := (if failed x then [] else es),
                        ps_settled := ps_settled st @ log_step (fst e) x\<rparr>)
      | _ \<Rightarrow> st)"
| "pool_step rd pc (RetryAnswered c) st =
     (case ps_retry st of
        None \<Rightarrow> st
      | Some j \<Rightarrow>
          (case finish_job rd pc c j (ps_world st) of
             (x, w) \<Rightarrow> st\<lparr>ps_world := w, ps_retry := None, ps_retries := (if failed x then [] else ps_retries st),
                        ps_settled := ps_settled st @ log_step (rj_entry j) x\<rparr>))"

text \<open>The two steps of a job are the atomic \<open>handle_job\<close> of \<open>WorkerPool\<close> when nothing comes in between.\<close>

lemma begin_finish_is_handle_job:
  "handle_job rd pc env e w =
     (case begin_job rd pc env e w of
        (Waiting j, w1) \<Rightarrow> (case finish_job rd pc (je_end env) j w1 of (x, w2) \<Rightarrow> ((case x of Failed e \<Rightarrow> Inl e | _ \<Rightarrow> Inr ()), w2))
      | (x, w1) \<Rightarrow> ((case x of Failed e \<Rightarrow> Inl e | _ \<Rightarrow> Inr ()), w1))"
  by (auto simp: handle_job_def begin_job_def finish_job_def process_job_def settle_in_def
      split: prod.split sum.split job_phase.split)

section \<open>The invariant of Redis\<close>

text \<open>A pool on a server that answers: its queue is the queue of its retry policy, and not the dead-letter stream.\<close>

definition pool_laws ::
  "'s redis \<Rightarrow> pool_config \<Rightarrow> ('s \<Rightarrow> string \<Rightarrow> stream_entry list) \<Rightarrow> ('s \<Rightarrow> string \<times> string \<Rightarrow> string \<Rightarrow> nat option)
     \<Rightarrow> (string \<Rightarrow> nat) \<Rightarrow> ('s \<Rightarrow> string \<Rightarrow> string option) \<Rightarrow> ('s \<Rightarrow> string \<Rightarrow> string set) \<Rightarrow> ('s \<Rightarrow> stream_entry list) \<Rightarrow> bool" where
  "pool_laws rd pc entries pending rank kv members fresh \<longleftrightarrow>
     keyspace_laws rd kv members \<and> stream_laws rd entries pending rank \<and> separate_laws rd entries pending kv
   \<and> delivery_laws rd (stream_key (po_queue pc)) (group_name (po_queue pc)) entries pending fresh
   \<and> rp_queue (po_policy pc) = po_queue pc \<and> po_dead_letter pc \<noteq> stream_key (po_queue pc)"

lemma pool_lawsD:
  assumes "pool_laws rd pc entries pending rank kv members fresh"
  shows "keyspace_laws rd kv members" "stream_laws rd entries pending rank" "separate_laws rd entries pending kv"
    "delivery_laws rd (stream_key (po_queue pc)) (group_name (po_queue pc)) entries pending fresh"
    "rp_queue (po_policy pc) = po_queue pc" "po_dead_letter pc \<noteq> stream_key (po_queue pc)"
  using assms by (simp_all add: pool_laws_def)

text \<open>A well-formed job with its request id; the queue holds such jobs only.\<close>

definition job_of :: "stream_entry list \<Rightarrow> string \<Rightarrow> json \<Rightarrow> bool" where
  "job_of es i rid \<longleftrightarrow> (\<exists>p. (i, encode_fields p) \<in> set es \<and> wf_payload p \<and> map_of p ''request_id'' = Some rid)"

definition job_stream :: "stream_entry list \<Rightarrow> bool" where
  "job_stream es \<longleftrightarrow>
     (\<forall>e \<in> set es. \<exists>p rid. snd e = encode_fields p \<and> wf_payload p \<and> map_of p ''request_id'' = Some rid)"

lemma job_streamD:
  "job_stream es \<Longrightarrow> (i, f) \<in> set es \<Longrightarrow> \<exists>p rid. f = encode_fields p \<and> wf_payload p \<and> map_of p ''request_id'' = Some rid"
  by (fastforce simp: job_stream_def)

lemma job_stream_wf: "job_stream es \<Longrightarrow> wf_stream es"
  by (fastforce simp: wf_stream_def job_stream_def)

lemma job_stream_of: "job_stream es \<Longrightarrow> (i, encode_fields p) \<in> set es \<Longrightarrow> wf_payload p \<Longrightarrow>
    map_of p ''request_id'' = Some rid \<Longrightarrow> job_of es i rid"
  by (auto simp: job_of_def)

lemma job_of_mono: "job_of es i rid \<Longrightarrow> set es \<subseteq> set es' \<Longrightarrow> job_of es' i rid"
  by (auto simp: job_of_def)

text \<open>The dead letter of an entry, with its id and its payload.\<close>

definition dead_letter_for :: "stream_entry list \<Rightarrow> stream_entry \<Rightarrow> bool" where
  "dead_letter_for ds e \<longleftrightarrow> (\<exists>j now p. snd e = encode_fields p \<and> (j, dead_fields now (fst e) p) \<in> set ds)"

definition accounted_for ::
  "('s \<Rightarrow> string \<Rightarrow> stream_entry list) \<Rightarrow> ('s \<Rightarrow> string \<times> string \<Rightarrow> string \<Rightarrow> nat option) \<Rightarrow> ('s \<Rightarrow> stream_entry list)
     \<Rightarrow> pool_config \<Rightarrow> (string \<times> json \<times> json pydict) list \<Rightarrow> 's \<Rightarrow> stream_entry \<Rightarrow> bool" where
  "accounted_for entries pending fresh pc lg s e \<longleftrightarrow>
     e \<in> set (fresh s) \<or> pending s (stream_key (po_queue pc), group_name (po_queue pc)) (fst e) \<noteq> None
     \<or> fst e \<in> fst ` set lg \<or> dead_letter_for (entries s (po_dead_letter pc)) e"

definition queue_inv ::
  "('s \<Rightarrow> string \<Rightarrow> stream_entry list) \<Rightarrow> ('s \<Rightarrow> string \<times> string \<Rightarrow> string \<Rightarrow> nat option) \<Rightarrow> ('s \<Rightarrow> stream_entry list)
     \<Rightarrow> pool_config \<Rightarrow> (string \<times> json \<times> json pydict) list \<Rightarrow> 's \<Rightarrow> bool" where
  "queue_inv entries pending fresh pc lg s \<longleftrightarrow>
     job_stream (entries s (stream_key (po_queue pc))) \<and> set (fresh s) \<subseteq> set (entries s (stream_key (po_queue pc)))
   \<and> distinct (map fst (entries s (stream_key (po_queue pc))))
   \<and> (\<forall>(i, rid, r) \<in> set lg. job_of (entries s (stream_key (po_queue pc))) i rid)
   \<and> (\<forall>e \<in> set (entries s (stream_key (po_queue pc))). accounted_for entries pending fresh pc lg s e)"

text \<open>Each of the four Redis steps keeps it.\<close>

definition submitted :: "string \<Rightarrow> payload \<Rightarrow> string pydict" where
  "submitted rid p = encode_fields (dict_merge [(''request_id'', JStr rid)] p)"

lemma wf_payload_update: "wf_payload p \<Longrightarrow> wf_json v \<Longrightarrow> wf_payload (AList.update k v p)"
  by (induction p) (auto simp: wf_payload_def)

lemma wf_payload_merge: "wf_payload d \<Longrightarrow> wf_payload p \<Longrightarrow> wf_payload (dict_merge d p)"
proof (induction p arbitrary: d)
  case (Cons x p)
  then have "wf_json (snd x)" "wf_payload p" by (auto simp: wf_payload_def)
  then show ?case using Cons by (cases x) (simp add: dict_merge_def wf_payload_update)
qed (simp add: dict_merge_def)

lemma dict_merge_keeps_key: "map_of d k \<noteq> None \<Longrightarrow> map_of (dict_merge d p) k \<noteq> None"
proof (induction p arbitrary: d)
  case (Cons x p)
  have "map_of (AList.update (fst x) (snd x) d) k \<noteq> None" using Cons.prems by (simp add: update_conv)
  from Cons.IH [OF this] show ?case by (simp add: dict_merge_def case_prod_beta)
qed (simp add: dict_merge_def)

lemma submitted_job:
  assumes "wf_payload p"
  shows "\<exists>q x. submitted rid p = encode_fields q \<and> wf_payload q \<and> map_of q ''request_id'' = Some x"
proof -
  have "wf_payload (dict_merge [(''request_id'', JStr rid)] p)"
    by (rule wf_payload_merge) (simp_all add: wf_payload_def assms [unfolded wf_payload_def])
  moreover have "map_of (dict_merge [(''request_id'', JStr rid)] p) ''request_id'' \<noteq> None"
    by (rule dict_merge_keeps_key) simp
  ultimately show ?thesis by (auto simp: submitted_def)
qed

lemma queue_invD:
  assumes "queue_inv entries pending fresh pc lg s"
  shows "job_stream (entries s (stream_key (po_queue pc)))" "set (fresh s) \<subseteq> set (entries s (stream_key (po_queue pc)))"
    "(i, rid, r) \<in> set lg \<Longrightarrow> job_of (entries s (stream_key (po_queue pc))) i rid"
    "e \<in> set (entries s (stream_key (po_queue pc))) \<Longrightarrow> accounted_for entries pending fresh pc lg s e"
    "distinct (map fst (entries s (stream_key (po_queue pc))))"
  using assms by (auto simp: queue_inv_def)

lemma accounted_mono:
  assumes "accounted_for entries pending fresh pc lg s e" "set (fresh s) \<subseteq> set (fresh s')"
    "set lg \<subseteq> set lg'" "set (entries s (po_dead_letter pc)) \<subseteq> set (entries s' (po_dead_letter pc))"
    "pending s (stream_key (po_queue pc), group_name (po_queue pc)) (fst e) \<noteq> None \<Longrightarrow>
       pending s' (stream_key (po_queue pc), group_name (po_queue pc)) (fst e) \<noteq> None
       \<or> fst e \<in> fst ` set lg' \<or> dead_letter_for (entries s' (po_dead_letter pc)) e"
  shows "accounted_for entries pending fresh pc lg' s' e"
  using assms unfolding accounted_for_def dead_letter_for_def by blast

lemma queue_inv_submit:
  assumes laws: "pool_laws rd pc entries pending rank kv members fresh" and "queue_inv entries pending fresh pc lg s"
    and "wf_payload p"
  obtains i s' where "pool_enqueue rd pc rid p s = (Inr (), s')" "queue_inv entries pending fresh pc lg s'"
    "entries s' (stream_key (po_queue pc)) = entries s (stream_key (po_queue pc)) @ [(i, submitted rid p)]"
proof -
  note l = pool_lawsD [OF laws]
  let ?k = "stream_key (po_queue pc)"
  obtain i s' where s: "xadd rd ?k (submitted rid p) s = (Inr i, s')"
      "entries s' = (entries s)(?k := entries s ?k @ [(i, submitted rid p)])" "pending s' = pending s"
      "i \<notin> fst ` set (entries s ?k)"
    using stream_lawsD(1) [OF l(2)] by blast
  have f: "fresh s' = fresh s @ [(i, submitted rid p)]" by (rule delivery_lawsD(2) [OF l(4) s(1)])
  have run: "pool_enqueue rd pc rid p s = (Inr (), s')"
    using s(1) by (simp add: pool_enqueue_def enqueue_def bind_def depth_def ret_def stream_lawsD(3) [OF l(2)] submitted_def)
  have ek: "entries s' ?k = entries s ?k @ [(i, submitted rid p)]" by (simp add: s(2))
  have old: "accounted_for entries pending fresh pc lg s' e" if "e \<in> set (entries s ?k)" for e
    by (rule accounted_mono [OF queue_invD(4) [OF assms(2) that]]) (simp_all add: s(2,3) f l(6) subset_insertI)
  have "queue_inv entries pending fresh pc lg s'"
    unfolding queue_inv_def ek
  proof (intro conjI)
    show "job_stream (entries s ?k @ [(i, submitted rid p)])"
      using queue_invD(1) [OF assms(2)] submitted_job [OF assms(3), of rid] by (simp add: job_stream_def)
    show "set (fresh s') \<subseteq> set (entries s ?k @ [(i, submitted rid p)])" using queue_invD(2) [OF assms(2)] by (auto simp: f)
    show "distinct (map fst (entries s ?k @ [(i, submitted rid p)]))" using queue_invD(5) [OF assms(2)] s(4) by simp
    show "\<forall>(i', rid', r) \<in> set lg. job_of (entries s ?k @ [(i, submitted rid p)]) i' rid'"
      by (clarify, rule job_of_mono [OF queue_invD(3) [OF assms(2)]]) auto
    show "\<forall>e \<in> set (entries s ?k @ [(i, submitted rid p)]). accounted_for entries pending fresh pc lg s' e"
      using old by (simp add: accounted_for_def [of entries pending fresh pc lg s' "(i, submitted rid p)"] f)
  qed
  with run s(2) show thesis by (intro that [of s' i]) simp_all
qed

lemma queue_inv_read:
  assumes laws: "pool_laws rd pc entries pending rank kv members fresh" and inv: "queue_inv entries pending fresh pc lg s"
  obtains (empty) s' where "queue_read rd (po_queue pc) 1 s = (Inr [], s')" "queue_inv entries pending fresh pc lg s'"
      "entries s' = entries s"
  | (job) i p rid s' where "queue_read rd (po_queue pc) 1 s = (Inr [(i, p)], s')" "queue_inv entries pending fresh pc lg s'"
      "entries s' = entries s" "(i, encode_fields p) \<in> set (entries s (stream_key (po_queue pc)))" "wf_payload p"
      "map_of p ''request_id'' = Some rid"
proof -
  note l = pool_lawsD [OF laws]
  let ?k = "stream_key (po_queue pc)" and ?kg = "(stream_key (po_queue pc), group_name (po_queue pc))"
  obtain s' where s: "xreadgroup rd ?k (group_name (po_queue pc)) (consumer_name (po_queue pc)) 1 s
        = (Inr (if fresh s = [] then [] else [(?k, take 1 (fresh s))]), s')" "fresh s' = drop 1 (fresh s)" "entries s' = entries s"
      "pending s' = (pending s)(?kg := (\<lambda>i. if i \<in> fst ` set (take 1 (fresh s)) then Some 1 else pending s ?kg i))"
    using delivery_lawsD(1) [OF l(4), of 1 "consumer_name (po_queue pc)" s] by auto
  have acc: "accounted_for entries pending fresh pc lg s' e" if "accounted_for entries pending fresh pc lg s e" for e
    using that by (cases "fresh s") (auto simp: accounted_for_def s(2-4))
  have inv': "queue_inv entries pending fresh pc lg s'"
    using queue_invD [OF inv] acc set_drop_subset [of 1 "fresh s"] unfolding queue_inv_def s(2,3) by auto
  show thesis
  proof (cases "fresh s")
    case Nil
    then have "queue_read rd (po_queue pc) 1 s = (Inr [], s')" using s(1) by (simp add: queue_read_def bind_def ret_def)
    then show thesis using inv' s(3) by (rule empty)
  next
    case (Cons e es)
    obtain i f where e: "e = (i, f)" by force
    have mem: "(i, f) \<in> set (entries s ?k)" using inv Cons by (simp add: queue_inv_def e)
    obtain p rid where p: "f = encode_fields p" "wf_payload p" "map_of p ''request_id'' = Some rid"
      using job_streamD [OF _ mem] inv by (auto simp: queue_inv_def)
    have "queue_read rd (po_queue pc) 1 s = (Inr [(i, p)], s')"
      using s(1) by (simp add: queue_read_def bind_def lift_result_def decode_entries_def Cons e p(1) decode_encode [OF p(2)])
    from job [OF this inv' s(3) mem [unfolded p(1)] p(2,3)] show thesis .
  qed
qed

lemma queue_inv_settle:
  assumes laws: "pool_laws rd pc entries pending rank kv members fresh" and inv: "queue_inv entries pending fresh pc lg s"
    and job: "job_of (entries s (stream_key (po_queue pc))) i rid"
  obtains s' where "settle rd pc i rid r s = (Inr (), s')" "queue_inv entries pending fresh pc (lg @ [(i, rid, r)]) s'"
    "entries s' = entries s" "kv s' (result_key pc rid) = Some (dumps (JDict r))"
proof -
  note l = pool_lawsD [OF laws]
  let ?k = "stream_key (po_queue pc)" and ?g = "group_name (po_queue pc)"
  obtain s1 where s1: "r_setex rd (result_key pc rid) 300 (dumps (JDict r)) s = (Inr (), s1)"
    using keyspace_lawsD(2) [OF l(1)] by blast
  have e1: "entries s1 = entries s"
    using l(3) s1 unfolding separate_laws_def by (metis snd_conv)
  obtain n s2 where s2: "xack rd ?k ?g i s1 = (Inr n, s2)" "entries s2 = entries s1"
    using stream_lawsD(2) [OF l(2)] by blast
  have run: "settle rd pc i rid r s = (Inr (), s2)"
    by (simp add: settle_def store_result_def bind_def s1 ack_def s2(1) ret_def del: dumps.simps)
  obtain s' where s': "settle rd pc i rid r s = (Inr (), s')" "kv s' = (kv s)(result_key pc rid \<mapsto> dumps (JDict r))"
      "pending s' = (pending s)((?k, ?g) := (pending s (?k, ?g))(i := None))"
    using settle_ok [OF l(1-3)] by blast
  have same: "s2 = s'" using run s'(1) by simp
  have e: "entries s' = entries s" using s2(2) e1 same by simp
  have f: "fresh s' = fresh s" using fresh_settle [OF l(4), of i rid r s] s'(1) by (simp del: dumps.simps)
  have acc: "accounted_for entries pending fresh pc (lg @ [(i, rid, r)]) s' e"
    if "accounted_for entries pending fresh pc lg s e" for e
    by (rule accounted_mono [OF that]) (auto simp: f e s'(3))
  have "queue_inv entries pending fresh pc (lg @ [(i, rid, r)]) s'"
    using queue_invD [OF inv] acc job unfolding queue_inv_def e f by auto
  then show thesis by (rule that [OF s'(1) _ e]) (simp add: s'(2) del: dumps.simps)
qed

text \<open>A recovery pass does not touch what has not been delivered.\<close>

lemma fresh_reclaim_loop:
  assumes laws: "delivery_laws rd (stream_key q) (group_name q) entries pending fresh"
    and run: "reclaim_loop rd q idle cursor xs s = Some y"
  shows "fresh (snd y) = fresh s"
proof -
  have "rd = rd \<longrightarrow> q = q \<longrightarrow> fresh (snd y) = fresh s"
  proof (rule reclaim_loop.raw_induct [where P = "\<lambda>rd' q' idle cursor xs s y. rd' = rd \<longrightarrow> q' = q \<longrightarrow> fresh (snd y) = fresh s",
      OF _ run])
  fix loop rd' q' idle cursor xs s y
  assume IH: "\<And>rd' q' idle cursor xs s y. loop rd' q' idle cursor xs s = Some y \<Longrightarrow>
      rd' = rd \<longrightarrow> q' = q \<longrightarrow> fresh (snd y) = fresh s"
    and step: "(case xautoclaim rd' (stream_key q') (group_name q') (consumer_name q') idle cursor 50 s of
        (Inl e, s') \<Rightarrow> Some (Inl e, s')
      | (Inr (cursor', es), s') \<Rightarrow>
          (case decode_entries es of
             Inl e \<Rightarrow> Some (Inl e, s')
           | Inr ps \<Rightarrow>
               if cursor' = ''0-0'' \<or> es = [] then Some (Inr (xs @ ps), s')
               else loop rd' q' idle cursor' (xs @ ps) s')) = Some y"
  show "rd' = rd \<longrightarrow> q' = q \<longrightarrow> fresh (snd y) = fresh s"
  proof (intro impI)
  assume "rd' = rd" "q' = q"
  obtain x s' where c: "xautoclaim rd (stream_key q) (group_name q) (consumer_name q) idle cursor 50 s = (x, s')" by force
  have "fresh s' = fresh s"
    using delivery_lawsD(6) [OF laws, of "consumer_name q" idle cursor 50 s] by (simp add: c)
  then show "fresh (snd y) = fresh s"
    using step IH \<open>rd' = rd\<close> \<open>q' = q\<close> by (auto simp: c split: sum.splits prod.splits if_splits)
  qed
  qed
  then show ?thesis by simp
qed

lemma fresh_split_reclaimed:
  assumes "stream_laws rd entries pending rank"
    and "delivery_laws rd (stream_key (rp_queue rp)) (group_name (rp_queue rp)) entries pending fresh"
    and "dlq \<noteq> stream_key (rp_queue rp)"
  shows "fresh (snd (split_reclaimed rd rp dlq clock ps acc s)) = fresh s"
proof (induction ps arbitrary: acc s)
  case (Cons x ps)
  obtain i p where x: "x = (i, p)" by force
  obtain n where n: "delivery_count rd (rp_queue rp) i s = (Inr n, s)"
    by (simp add: delivery_count_def bind_def ret_def stream_lawsD(5) [OF assms(1)])
  obtain j s1 where s1: "dead_letter_add rd dlq (clock i) i p max_retries_exceeded s = (Inr j, s1)"
    using dead_letter_add_eq [OF assms(1)] by blast
  have f1: "fresh s1 = fresh s"
    using delivery_lawsD(5) [OF assms(2,3)] s1 unfolding dead_letter_add_def by (metis snd_conv)
  obtain s2 where s2: "ack rd (rp_queue rp) i s1 = (Inr (), s2)" using ack_eq [OF assms(1)] by blast
  have f2: "fresh s2 = fresh s1"
    using delivery_lawsD(4) [OF assms(2), of i s1] s2
    by (auto simp: ack_def bind_def ret_def split: prod.splits sum.splits)
  show ?case using Cons.IH f1 f2 by (simp add: x bind_def n s1 s2)
qed (simp add: ret_def)

definition retries_ok :: "stream_entry list \<Rightarrow> (string \<times> payload) list \<Rightarrow> bool" where
  "retries_ok es ps \<longleftrightarrow> (\<forall>(i, p) \<in> set ps. (i, encode_fields p) \<in> set es \<and> wf_payload p)"

lemma queue_inv_recover:
  assumes laws: "pool_laws rd pc entries pending rank kv members fresh" and inv: "queue_inv entries pending fresh pc lg s"
  obtains r s' where "recover rd (po_policy pc) (po_dead_letter pc) clock s = Some (Inr r, s')"
    "queue_inv entries pending fresh pc lg s'"
    "entries s' (stream_key (po_queue pc)) = entries s (stream_key (po_queue pc))"
    "retries_ok (entries s (stream_key (po_queue pc))) (retryable r)"
proof -
  note l = pool_lawsD [OF laws]
  let ?k = "stream_key (po_queue pc)" and ?kg = "(stream_key (po_queue pc), group_name (po_queue pc))"
    and ?d = "po_dead_letter pc"
  have wf: "wf_stream (entries s (stream_key (rp_queue (po_policy pc))))"
    using job_stream_wf [OF queue_invD(1) [OF inv]] by (simp add: l(5))
  obtain ps s1 retry dead s' where
    run: "recover rd (po_policy pc) ?d clock s = Some (Inr \<lparr>retryable = retry, dead_lettered = map fst dead\<rparr>, s')"
    and rc: "reclaimed entries pending rank (po_queue pc) ''0-0'' s ps s1"
    and d: "split_done entries pending (po_policy pc) ?d clock ps s1 retry dead s'"
    by (rule recover_ok [OF l(2) wf, where dlq = ?d and clock = clock, unfolded l(5)])
  obtain new where e: "entries s' = (entries s)(?d := entries s ?d @ new)"
      "map snd new = map (\<lambda>x. dead_fields (clock (fst x)) (fst x) (snd x)) dead"
    using d rc unfolding split_done_def reclaimed_def by auto
  have ek: "entries s' ?k = entries s ?k" using l(6) by (simp add: e(1))
  have sub: "set retry \<subseteq> set ps" "set dead \<subseteq> set ps" using d by (auto simp: split_done_def)
  have here: "(fst x, encode_fields (snd x)) \<in> set (entries s ?k)" "wf_payload (snd x)" if "x \<in> set ps" for x
    using rc that by (simp_all add: reclaimed_def)
  obtain y s2 where y: "reclaim_loop rd (po_queue pc) (min_idle_ms (po_policy pc)) ''0-0'' [] s = Some (Inr y, s2)"
      "split_reclaimed rd (po_policy pc) ?d clock y \<lparr>retryable = [], dead_lettered = []\<rparr> s2
        = (Inr \<lparr>retryable = retry, dead_lettered = map fst dead\<rparr>, s')"
    using run by (auto simp: recover_def reclaim_stale_def l(5) split: option.splits sum.splits)
  have f: "fresh s' = fresh s"
    using fresh_reclaim_loop [OF l(4) y(1)] fresh_split_reclaimed [of rd entries pending rank "po_policy pc" fresh ?d clock y]
      l(2,4-6) y(2) by (metis snd_conv)
  have acc: "accounted_for entries pending fresh pc lg s' x" if x: "x \<in> set (entries s ?k)" for x
  proof (rule accounted_mono [OF queue_invD(4) [OF inv x]])
    assume p: "pending s ?kg (fst x) \<noteq> None"
    show "pending s' ?kg (fst x) \<noteq> None \<or> fst x \<in> fst ` set lg \<or> dead_letter_for (entries s' ?d) x"
    proof (cases "fst x \<in> fst ` set dead")
      case True
      then obtain q where q: "(fst x, q) \<in> set dead" by auto
      then have "dead_fields (clock (fst x)) (fst x) q \<in> set (map snd new)" by (force simp: e(2))
      then obtain j where "(j, dead_fields (clock (fst x)) (fst x) q) \<in> set new" by auto
      then have j: "(j, dead_fields (clock (fst x)) (fst x) q) \<in> set (entries s' ?d)" by (simp add: e(1))
      have "(fst x, encode_fields q) \<in> set (entries s ?k)" using here(1) [of "(fst x, q)"] sub(2) q by auto
      then have "snd x = encode_fields q"
        using x queue_invD(5) [OF inv] by (cases x) (auto dest: eq_key_imp_eq_value)
      with j show ?thesis unfolding dead_letter_for_def by blast
    next
      case False
      then show ?thesis using p d rc by (auto simp: split_done_def reclaimed_def l(5))
    qed
  qed (simp_all add: f e(1))
  have "queue_inv entries pending fresh pc lg s'"
    using queue_invD [OF inv] acc unfolding queue_inv_def ek f by auto
  then show thesis by (rule that [OF run _ ek]) (use here sub(1) in \<open>auto simp: retries_ok_def\<close>)
qed

section \<open>The invariant of a pool\<close>

lemma process_begin_id:
  assumes "process_begin strat now1 now2 st p s = (Inr ph, s')" "map_of p ''request_id'' = Some rid"
  shows "case ph of Settled rid' r \<Rightarrow> rid' = rid | Running rid' c chat body \<Rightarrow> rid' = rid"
  using assms by (auto simp: process_begin_def Let_def split: prod.splits sum.splits if_splits option.splits)

lemma process_end_id: "process_end c rid w lb = (Inr (rid', r), lb') \<Longrightarrow> rid' = rid"
  by (auto simp: process_end_def split: prod.splits sum.splits if_splits)

definition running_ok :: "stream_entry list \<Rightarrow> running_job option \<Rightarrow> bool" where
  "running_ok es x \<longleftrightarrow> (case x of None \<Rightarrow> True | Some j \<Rightarrow> job_of es (rj_entry j) (rj_id j))"

definition pool_inv ::
  "('s \<Rightarrow> string \<Rightarrow> stream_entry list) \<Rightarrow> ('s \<Rightarrow> string \<times> string \<Rightarrow> string \<Rightarrow> nat option) \<Rightarrow> ('s \<Rightarrow> stream_entry list)
     \<Rightarrow> pool_config \<Rightarrow> 's pool_state \<Rightarrow> bool" where
  "pool_inv entries pending fresh pc st \<longleftrightarrow>
     queue_inv entries pending fresh pc (ps_settled st) (w_redis (ps_world st))
   \<and> running_ok (entries (w_redis (ps_world st)) (stream_key (po_queue pc))) (ps_job st)
   \<and> running_ok (entries (w_redis (ps_world st)) (stream_key (po_queue pc))) (ps_retry st)
   \<and> retries_ok (entries (w_redis (ps_world st)) (stream_key (po_queue pc))) (ps_retries st)"

text \<open>What a step of a job does, whichever loop runs it.\<close>

lemma settle_in_ok:
  assumes laws: "pool_laws rd pc entries pending rank kv members fresh" and "queue_inv entries pending fresh pc lg (w_redis w)"
    and "job_of (entries (w_redis w) (stream_key (po_queue pc))) i rid" and "settle_in rd pc i rid r w = (x, w')"
  shows "queue_inv entries pending fresh pc (lg @ log_step i x) (w_redis w')" "entries (w_redis w') = entries (w_redis w)"
    "x = Done rid r"
proof -
  obtain s' where s': "settle rd pc i rid r (w_redis w) = (Inr (), s')"
      "queue_inv entries pending fresh pc (lg @ [(i, rid, r)]) s'" "entries s' = entries (w_redis w)"
    by (rule queue_inv_settle [OF assms(1-3)])
  then have "x = Done rid r" "w' = w\<lparr>w_redis := s'\<rparr>" using assms(4) by (simp_all add: settle_in_def)
  with s'(2,3) show "queue_inv entries pending fresh pc (lg @ log_step i x) (w_redis w')"
    "entries (w_redis w') = entries (w_redis w)" "x = Done rid r"
    by (simp_all add: log_step_def)
qed

lemma begin_job_ok:
  assumes laws: "pool_laws rd pc entries pending rank kv members fresh" and inv: "queue_inv entries pending fresh pc lg (w_redis w)"
    and e: "(i, encode_fields p) \<in> set (entries (w_redis w) (stream_key (po_queue pc)))" "wf_payload p"
    and run: "begin_job rd pc env (i, p) w = (x, w')"
  shows "queue_inv entries pending fresh pc (lg @ log_step i x) (w_redis w')" "entries (w_redis w') = entries (w_redis w)"
    "running_ok (entries (w_redis w') (stream_key (po_queue pc))) (waiting x)"
proof -
  obtain q rid where "encode_fields p = encode_fields q" "wf_payload q" "map_of q ''request_id'' = Some rid"
    using job_streamD [OF queue_invD(1) [OF inv] e(1)] by blast
  then have rid: "map_of p ''request_id'' = Some rid" using decode_encode e(2) by (metis Inr_inject)
  then have job: "job_of (entries (w_redis w) (stream_key (po_queue pc))) i rid" using e by (auto simp: job_of_def)
  obtain y lb cm where y: "process_begin (ca_strategy (je_start env)) (ca_now1 (je_start env)) (ca_now2 (je_start env))
        (je_stamp env) p (w_lb w, w_cm w) = (y, lb, cm)"
    by (metis prod_cases3)
  have all: "queue_inv entries pending fresh pc (lg @ log_step i x) (w_redis w') \<and> entries (w_redis w') = entries (w_redis w)
    \<and> running_ok (entries (w_redis w') (stream_key (po_queue pc))) (waiting x)"
  proof (cases y)
    case (Inl a)
    then show ?thesis
      using run y inv by (auto simp: begin_job_def log_step_def waiting_def running_ok_def)
  next
    case (Inr ph)
    note id = process_begin_id [OF y [unfolded Inr] rid]
    show ?thesis
    proof (cases ph)
      case (Settled rid' r)
      then have "settle_in rd pc i rid r (w\<lparr>w_lb := lb, w_cm := cm\<rparr>) = (x, w')"
        using run y Inr id by (simp add: begin_job_def)
      from settle_in_ok [OF laws _ _ this, of lg] inv job show ?thesis by (simp add: waiting_def running_ok_def)
    next
      case (Running rid' c chat body)
      then show ?thesis
        using run y Inr id inv job by (auto simp: begin_job_def log_step_def waiting_def running_ok_def)
    qed
  qed
  show "queue_inv entries pending fresh pc (lg @ log_step i x) (w_redis w')" by (rule all [THEN conjunct1])
  show "entries (w_redis w') = entries (w_redis w)" by (rule all [THEN conjunct2, THEN conjunct1])
  show "running_ok (entries (w_redis w') (stream_key (po_queue pc))) (waiting x)" by (rule all [THEN conjunct2, THEN conjunct2])
qed

lemma finish_job_ok:
  assumes laws: "pool_laws rd pc entries pending rank kv members fresh" and inv: "queue_inv entries pending fresh pc lg (w_redis w)"
    and job: "job_of (entries (w_redis w) (stream_key (po_queue pc))) (rj_entry j) (rj_id j)"
    and run: "finish_job rd pc c j w = (x, w')"
  shows "queue_inv entries pending fresh pc (lg @ log_step (rj_entry j) x) (w_redis w')" "entries (w_redis w') = entries (w_redis w)"
proof -
  obtain y lb where y: "process_end (c\<lparr>ce_chat := rj_chat j\<rparr>) (rj_id j) (rj_client j) (w_lb w) = (y, lb)" by force
  have "queue_inv entries pending fresh pc (lg @ log_step (rj_entry j) x) (w_redis w') \<and> entries (w_redis w') = entries (w_redis w)"
  proof (cases y)
    case (Inl a)
    then show ?thesis using run y inv by (auto simp: finish_job_def log_step_def)
  next
    case (Inr z)
    obtain rid r where z: "z = (rid, r)" by force
    have "rid = rj_id j" using process_end_id y Inr z by metis
    then have "settle_in rd pc (rj_entry j) (rj_id j) r (w\<lparr>w_lb := lb\<rparr>) = (x, w')" using run y Inr z by (simp add: finish_job_def)
    from settle_in_ok [OF laws _ _ this, of lg] inv job show ?thesis by simp
  qed
  then show "queue_inv entries pending fresh pc (lg @ log_step (rj_entry j) x) (w_redis w')" "entries (w_redis w') = entries (w_redis w)"
    by simp_all
qed

lemma running_ok_simps [simp]:
  "running_ok es None" "running_ok es (Some j) = job_of es (rj_entry j) (rj_id j)"
  by (simp_all add: running_ok_def)

lemma retries_ok_simps [simp]:
  "retries_ok es []" "retries_ok es ((i, p) # ps) = (((i, encode_fields p) \<in> set es \<and> wf_payload p) \<and> retries_ok es ps)"
  by (simp_all add: retries_ok_def)

text \<open>What a step adds to the stream.\<close>

definition submits :: "pool_event \<Rightarrow> string pydict list" where
  "submits ev = (case ev of Submits rid p \<Rightarrow> [submitted rid p] | _ \<Rightarrow> [])"

definition well_formed :: "pool_event \<Rightarrow> bool" where
  "well_formed ev \<longleftrightarrow> (case ev of Submits rid p \<Rightarrow> wf_payload p | _ \<Rightarrow> True)"

lemma pool_inv_step:
  assumes laws: "pool_laws rd pc entries pending rank kv members fresh" and inv: "pool_inv entries pending fresh pc st"
    and ev: "well_formed ev"
  shows "pool_inv entries pending fresh pc (pool_step rd pc ev st)
    \<and> map snd (entries (w_redis (ps_world (pool_step rd pc ev st))) (stream_key (po_queue pc)))
      = map snd (entries (w_redis (ps_world st)) (stream_key (po_queue pc))) @ submits ev"
proof -
  let ?k = "stream_key (po_queue pc)" and ?s = "w_redis (ps_world st)"
  have q: "queue_inv entries pending fresh pc (ps_settled st) ?s" and jb: "running_ok (entries ?s ?k) (ps_job st)"
    and rt: "running_ok (entries ?s ?k) (ps_retry st)" and rs: "retries_ok (entries ?s ?k) (ps_retries st)"
    using inv by (simp_all add: pool_inv_def)
  show ?thesis
  proof (cases ev)
    case (Submits rid p)
    then have "wf_payload p" using ev by (simp add: well_formed_def)
    from queue_inv_submit [OF laws q this] obtain i s' where s': "pool_enqueue rd pc rid p ?s = (Inr (), s')"
        "queue_inv entries pending fresh pc (ps_settled st) s'" "entries s' ?k = entries ?s ?k @ [(i, submitted rid p)]"
      by blast
    have "running_ok (entries s' ?k) x" if "running_ok (entries ?s ?k) x" for x
      using that by (cases x) (auto simp: s'(3) intro: job_of_mono)
    moreover have "retries_ok (entries s' ?k) (ps_retries st)" using rs by (auto simp: retries_ok_def s'(3))
    ultimately show ?thesis
      using s' jb rt by (simp add: Submits on_world_redis_def pool_inv_def submits_def)
  next
    case (Elsewhere lb cm)
    then show ?thesis using inv by (simp add: pool_inv_def submits_def)
  next
    case (Reads env)
    show ?thesis
    proof (cases "ps_job st")
      case (Some j)
      then show ?thesis using inv by (simp add: Reads submits_def)
    next
      case None
      show ?thesis
      proof (rule queue_inv_read [OF laws q])
        fix s' assume "queue_read rd (po_queue pc) 1 ?s = (Inr [], s')" "queue_inv entries pending fresh pc (ps_settled st) s'"
          "entries s' = entries ?s"
        then show ?thesis using None jb rt rs by (simp add: Reads pool_inv_def on_world_redis_def submits_def)
      next
        fix i p rid s' assume r: "queue_read rd (po_queue pc) 1 ?s = (Inr [(i, p)], s')"
          "queue_inv entries pending fresh pc (ps_settled st) s'" "entries s' = entries ?s"
          "(i, encode_fields p) \<in> set (entries ?s ?k)" "wf_payload p"
        obtain x w where x: "begin_job rd pc env (i, p) ((ps_world st)\<lparr>w_redis := s'\<rparr>) = (x, w)" by force
        note ok = begin_job_ok [OF laws _ _ r(5) x, of "ps_settled st"]
        show ?thesis using ok r None rt rs by (simp add: Reads pool_inv_def submits_def x)
      qed
    qed
  next
    case (Answered c)
    show ?thesis
    proof (cases "ps_job st")
      case None
      then show ?thesis using inv by (simp add: Answered submits_def)
    next
      case (Some j)
      obtain x w where x: "finish_job rd pc c j (ps_world st) = (x, w)" by force
      note ok = finish_job_ok [OF laws q _ x]
      show ?thesis using ok Some jb rt rs by (simp add: Answered pool_inv_def submits_def x)
    qed
  next
    case (Recovers clock)
    show ?thesis
    proof (cases "ps_retry st = None \<and> ps_retries st = []")
      case False
      then show ?thesis using inv by (auto simp: Recovers submits_def)
    next
      case True
      obtain r s' where r: "recover rd (po_policy pc) (po_dead_letter pc) clock ?s = Some (Inr r, s')"
        "queue_inv entries pending fresh pc (ps_settled st) s'" "entries s' ?k = entries ?s ?k"
        "retries_ok (entries ?s ?k) (retryable r)"
        by (rule queue_inv_recover [OF laws q, where clock = clock])
      then show ?thesis using True jb rt by (simp add: Recovers pool_inv_def on_world_redis_def submits_def)
    qed
  next
    case (Retries env)
    show ?thesis
    proof (cases "ps_retry st = None \<and> ps_retries st \<noteq> []")
      case False
      then show ?thesis using inv by (auto simp: Retries submits_def split: option.split list.split)
    next
      case True
      then obtain i p es where e: "ps_retries st = (i, p) # es" by (cases "ps_retries st") auto
      then have ip: "(i, encode_fields p) \<in> set (entries ?s ?k)" "wf_payload p" "retries_ok (entries ?s ?k) es" using rs by simp_all
      obtain x w where x: "begin_job rd pc env (i, p) (ps_world st) = (x, w)" by force
      note ok = begin_job_ok [OF laws q ip(1,2) x]
      show ?thesis using ok ip(3) True jb by (simp add: Retries pool_inv_def submits_def x e)
    qed
  next
    case (RetryAnswered c)
    show ?thesis
    proof (cases "ps_retry st")
      case None
      then show ?thesis using inv by (simp add: RetryAnswered submits_def)
    next
      case (Some j)
      obtain x w where x: "finish_job rd pc c j (ps_world st) = (x, w)" by force
      note ok = finish_job_ok [OF laws q _ x]
      show ?thesis using ok Some jb rt rs by (simp add: RetryAnswered pool_inv_def submits_def x)
    qed
  qed
qed

lemma pool_inv_run:
  assumes laws: "pool_laws rd pc entries pending rank kv members fresh" and "pool_inv entries pending fresh pc st"
    and "\<forall>ev \<in> set evs. well_formed ev"
  shows "pool_inv entries pending fresh pc (fold (pool_step rd pc) evs st)
    \<and> map snd (entries (w_redis (ps_world (fold (pool_step rd pc) evs st))) (stream_key (po_queue pc)))
      = map snd (entries (w_redis (ps_world st)) (stream_key (po_queue pc))) @ concat (map submits evs)"
  using assms(2,3)
proof (induction evs arbitrary: st)
  case (Cons ev evs)
  note step = pool_inv_step [OF laws Cons.prems(1), of ev]
  show ?case using Cons.IH [of "pool_step rd pc ev st"] step Cons.prems(2) by simp
qed simp

section \<open>Properties\<close>


text \<open>One healthy worker with a closed breaker takes the job of a workflow.\<close>

definition one_worker :: "balancer \<Rightarrow> bool" where
  "one_worker lb \<longleftrightarrow> (\<exists>w b. workers lb = [w] \<and> is_healthy (stats w) \<and> breakers lb (curl w) = Some b \<and> cstate b = CLOSED)"

lemma begin_on_one_worker:
  assumes "one_worker lb"
  shows "\<exists>w bd lb'. process_begin ''round_robin'' 1 1 st demo_workflow_job (lb, cm) =
      (Inr (Running (JStr ''r2'') w False bd), (lb', snd (cm_record st ''hello'' CONVERSATION (Some ''wf'') None None (1 / 2) cm)))
    \<and> one_worker lb'"
proof -
  obtain w b where w: "workers lb = [w]" "is_healthy (stats w)" "breakers lb (curl w) = Some b" "cstate b = CLOSED"
    using assms by (auto simp: one_worker_def)
  then show ?thesis
    by (simp add: one_worker_def process_begin_def demo_workflow_job_def job_args_def popped_keys_def dict_get_def opt_int_def
      opt_str_def pick_worker_def available_workers_def is_open_def choose_worker_def bind_args_def is_chat_def
      job_content_def Let_def insert_commute update_client_def)
qed

definition demo_start_state :: "ref_state pool_state" where
  "demo_start_state =
     \<lparr>ps_world = \<lparr>w_redis = ref_empty, w_lb = new_balancer demo_config [''a''], w_cm = demo_manager\<rparr>,
      ps_job = None, ps_retries = [], ps_retry = None, ps_settled = []\<rparr>"

definition demo_run_env :: "string \<Rightarrow> job_env" where
  "demo_run_env i = \<lparr>je_start = demo_start, je_stamp = \<lparr>fresh_id = i, clock1 = 9, clock2 = 9\<rparr>, je_end = demo_end (Raised ''timeout'')\<rparr>"

lemma demo_job_merge: "dict_merge [(''request_id'', JStr ''r2'')] (tl demo_workflow_job) = demo_workflow_job"
  by (simp add: dict_merge_def demo_workflow_job_def)

lemma demo_workflow_job_wf: "wf_payload demo_workflow_job" "wf_payload (tl demo_workflow_job)"
  by (simp_all add: wf_payload_def demo_workflow_job_def)

lemma demo_pool_sel:
  "stream_key (po_queue demo_pool) = ''llm:stream:request_queue''" "group_name (po_queue demo_pool) = ''fleet-workers''"
  "rp_queue (po_policy demo_pool) = po_queue demo_pool" "po_dead_letter demo_pool = ''llm:stream:dead_letter''"
  "max_retries (po_policy demo_pool) = 3"
  by (simp_all add: demo_pool_def new_pool_def new_queue_def Let_def)

lemma demo_enqueue:
  "\<exists>s. pool_enqueue ref_redis demo_pool ''r2'' (tl demo_workflow_job) ref_empty = (Inr (), s)
    \<and> ref_entries s (stream_key (po_queue demo_pool)) = [(''1'', encode_fields demo_workflow_job)]
    \<and> ref_fresh s (stream_key (po_queue demo_pool), group_name (po_queue demo_pool)) = [(''1'', encode_fields demo_workflow_job)]
    \<and> ref_pending s = (\<lambda>_. [])"
  by (simp add: pool_enqueue_def enqueue_def bind_def depth_def ret_def ref_redis_def ref_xadd_def Let_def ref_empty_def
      demo_job_merge ref_new_id_def ref_id_def)

lemma demo_pool_read:
  assumes "ref_entries s (stream_key (po_queue demo_pool)) = [(''1'', encode_fields demo_workflow_job)]"
    "ref_fresh s (stream_key (po_queue demo_pool), group_name (po_queue demo_pool)) = [(''1'', encode_fields demo_workflow_job)]"
    "ref_pending s = (\<lambda>_. [])"
  shows "\<exists>s'. queue_read ref_redis (po_queue demo_pool) 1 s = (Inr [(''1'', demo_workflow_job)], s')
    \<and> ref_entries s' = ref_entries s
    \<and> ref_pending s' (stream_key (po_queue demo_pool), group_name (po_queue demo_pool)) = [(''1'', 1)]"
  by (simp add: queue_read_def bind_def lift_result_def decode_entries_def ref_redis_def ref_xreadgroup_def Let_def assms
      decode_encode [OF demo_workflow_job_wf(1)])

lemma demo_recover:
  assumes "ref_entries s (stream_key (po_queue demo_pool)) = [(''1'', encode_fields demo_workflow_job)]"
    "ref_pending s (stream_key (po_queue demo_pool), group_name (po_queue demo_pool)) = [(''1'', 1)]"
  shows "\<exists>s'. recover ref_redis (po_policy demo_pool) (po_dead_letter demo_pool) clock s
    = Some (Inr \<lparr>retryable = [(''1'', demo_workflow_job)], dead_lettered = []\<rparr>, s')"
proof -
  let ?kg = "(stream_key (po_queue demo_pool), group_name (po_queue demo_pool))"
  let ?s = "s\<lparr>ref_pending := (ref_pending s)(?kg := [(''1'', Suc (Suc 0))])\<rparr>"
  have c1: "xautoclaim ref_redis (stream_key (po_queue demo_pool)) (group_name (po_queue demo_pool)) c idle ''0-0'' 50 s
      = (Inr (''11'', [(''1'', encode_fields demo_workflow_job)]), ?s)" for c idle
    using assms by (simp add: ref_redis_def ref_xautoclaim_def ref_pend_def ref_rank_def ref_id_def)
  have c2: "xautoclaim ref_redis (stream_key (po_queue demo_pool)) (group_name (po_queue demo_pool)) c idle ''11'' 50 ?s
      = (Inr (''0-0'', []), ?s)" for c idle
    using assms by (simp add: ref_redis_def ref_xautoclaim_def ref_pend_def ref_rank_def ref_id_def)
  have "reclaim_stale ref_redis (po_queue demo_pool) idle s = Some (Inr [(''1'', demo_workflow_job)], ?s)" for idle
    unfolding reclaim_stale_def
    by (subst reclaim_loop.simps, simp add: c1 decode_entries_def decode_encode [OF demo_workflow_job_wf(1)])
      (subst reclaim_loop.simps, simp add: c2 decode_entries_def)
  then show ?thesis
    by (simp add: recover_def demo_pool_sel(3,5) bind_def delivery_count_def ret_def ref_redis_def ref_pend_def)
qed

text \<open>
  The recovery loop cannot tell a slow job from a lost one. An entry that is still being run, by the
  same process, is reclaimed once it has been idle for \<open>QUEUE_PENDING_MIN_IDLE_MS\<close>, and run a second
  time beside the first: two calls to workers for one request, and its prompt twice in the context. The
  defaults make this the rule for every job that takes more than 30 seconds, as a worker has 120.
\<close>

definition demo_slow_job :: "pool_event list" where
  "demo_slow_job = [Submits ''r2'' (tl demo_workflow_job), Reads (demo_run_env ''s''), Recovers (\<lambda>_. JFloat 15 1),
     Retries (demo_run_env ''t'')]"

lemma one_worker_new: "one_worker (new_balancer demo_config [''a''])"
  by (simp add: one_worker_def demo_simps)

lemma demo_fresh: "items (cm_store demo_manager) ''s'' = None" "items (cm_store demo_manager) ''t'' = None"
  by (simp_all add: demo_manager_def demo_items_def empty_store_def store_add_def Let_def demo_item_def new_item_def)

lemma demo_slow_run:
  obtains st j j' bd bd' w w' lb lb' lb2 lb2' cm cm2 where
    "st = fold (pool_step ref_redis demo_pool) demo_slow_job demo_start_state"
    "ps_job st = Some j" "ps_retry st = Some j'" "rj_entry j = ''1''" "rj_entry j' = ''1''"
    "process_begin ''round_robin'' 1 1 (je_stamp (demo_run_env ''s'')) demo_workflow_job (lb, demo_manager)
      = (Inr (Running (JStr ''r2'') w False bd), (lb', cm))"
    "process_begin ''round_robin'' 1 1 (je_stamp (demo_run_env ''t'')) demo_workflow_job (lb2, cm)
      = (Inr (Running (JStr ''r2'') w' False bd'), (lb2', cm2))"
    "w_cm (ps_world st) = cm2"
proof -
  let ?k = "stream_key (po_queue demo_pool)" and ?kg = "(stream_key (po_queue demo_pool), group_name (po_queue demo_pool))"
  obtain s1 where s1: "pool_enqueue ref_redis demo_pool ''r2'' (tl demo_workflow_job) ref_empty = (Inr (), s1)"
      "ref_entries s1 ?k = [(''1'', encode_fields demo_workflow_job)]"
      "ref_fresh s1 ?kg = [(''1'', encode_fields demo_workflow_job)]" "ref_pending s1 = (\<lambda>_. [])"
    using demo_enqueue by blast
  obtain s2 where s2: "queue_read ref_redis (po_queue demo_pool) 1 s1 = (Inr [(''1'', demo_workflow_job)], s2)"
      "ref_entries s2 = ref_entries s1" "ref_pending s2 ?kg = [(''1'', 1)]"
    using demo_pool_read [OF s1(2-4)] by blast
  have "ref_entries s2 ?k = [(''1'', encode_fields demo_workflow_job)]" by (simp add: s2(2) s1(2))
  from demo_recover [OF this s2(3)] obtain s3 where s3: "recover ref_redis (po_policy demo_pool) (po_dead_letter demo_pool) (\<lambda>_. JFloat 15 1) s2
      = Some (Inr \<lparr>retryable = [(''1'', demo_workflow_job)], dead_lettered = []\<rparr>, s3)" ..
  obtain w bd lb1 cm1 where b1: "process_begin ''round_robin'' 1 1 (je_stamp (demo_run_env ''s'')) demo_workflow_job
      (new_balancer demo_config [''a''], demo_manager) = (Inr (Running (JStr ''r2'') w False bd), (lb1, cm1))" "one_worker lb1"
    using begin_on_one_worker [OF one_worker_new, of "je_stamp (demo_run_env ''s'')" demo_manager] by blast
  obtain w' bd' lb2 cm2 where b2: "process_begin ''round_robin'' 1 1 (je_stamp (demo_run_env ''t'')) demo_workflow_job
      (lb1, cm1) = (Inr (Running (JStr ''r2'') w' False bd'), (lb2, cm2))"
    using begin_on_one_worker [OF b1(2), of "je_stamp (demo_run_env ''t'')" cm1] by blast
  let ?j = "\<lparr>rj_entry = ''1'', rj_id = JStr ''r2'', rj_client = w, rj_chat = False\<rparr>"
  let ?j' = "\<lparr>rj_entry = ''1'', rj_id = JStr ''r2'', rj_client = w', rj_chat = False\<rparr>"
  have env: "ca_strategy (je_start (demo_run_env i)) = ''round_robin''" "ca_now1 (je_start (demo_run_env i)) = 1"
      "ca_now2 (je_start (demo_run_env i)) = 1" for i
    by (simp_all add: demo_run_env_def demo_start_def)
  have run: "fold (pool_step ref_redis demo_pool) demo_slow_job demo_start_state =
      \<lparr>ps_world = \<lparr>w_redis = s3, w_lb = lb2, w_cm = cm2\<rparr>, ps_job = Some ?j, ps_retries = [], ps_retry = Some ?j', ps_settled = []\<rparr>"
    by (simp add: demo_slow_job_def demo_start_state_def s1(1) s2(1) [unfolded One_nat_def] s3 [unfolded One_nat_def] begin_job_def env b1(1) b2 on_world_redis_def
        waiting_def log_step_def failed_def)
  show thesis
    by (rule that [where j = ?j and j' = ?j', OF refl _ _ _ _ b1(1) b2]) (simp_all add: run)
qed

theorem slow_job_runs_twice:
  "\<exists>st j j' it1 it2. st = fold (pool_step ref_redis demo_pool) demo_slow_job demo_start_state
    \<and> ps_job st = Some j \<and> ps_retry st = Some j' \<and> rj_entry j = rj_entry j'
    \<and> workflow_items (cm_store (w_cm (ps_world st))) ''wf'' = demo_items @ [it1, it2] \<and> content it1 = content it2"
proof -
  obtain st j j' bd bd' w w' lb lb' lb2 lb2' cm cm2 where r: "st = fold (pool_step ref_redis demo_pool) demo_slow_job demo_start_state"
    "ps_job st = Some j" "ps_retry st = Some j'" "rj_entry j = ''1''" "rj_entry j' = ''1''"
    and b1: "process_begin ''round_robin'' 1 1 (je_stamp (demo_run_env ''s'')) demo_workflow_job (lb, demo_manager)
      = (Inr (Running (JStr ''r2'') w False bd), (lb', cm))"
    and b2: "process_begin ''round_robin'' 1 1 (je_stamp (demo_run_env ''t'')) demo_workflow_job (lb2, cm)
      = (Inr (Running (JStr ''r2'') w' False bd'), (lb2', cm2))"
    and cm: "w_cm (ps_world st) = cm2"
    by (rule demo_slow_run)
  have wid: "dict_get demo_workflow_job ''workflow_id'' JNull = JStr ''wf''" "''wf'' \<noteq> []"
    by (simp_all add: demo_workflow_job_def dict_get_def)
  have ids: "items (cm_store demo_manager) (fresh_id (je_stamp (demo_run_env ''s''))) = None"
      "items (cm_store demo_manager) (fresh_id (je_stamp (demo_run_env ''t''))) = None"
      "fresh_id (je_stamp (demo_run_env ''s'')) \<noteq> fresh_id (je_stamp (demo_run_env ''t''))"
    by (simp_all add: demo_run_env_def demo_fresh)
  obtain it1 it2 where "workflow_items (cm_store cm2) ''wf'' = demo_items @ [it1, it2]" "content it1 = content it2"
    using rerun_records_context_twice [OF demo_manager_inv wid b1 b2 ids] demo_manager_items by auto
  with r cm show ?thesis by (intro exI [of _ st] exI [of _ j] exI [of _ j'] exI [of _ it1] exI [of _ it2]) simp
qed

lemma default_idle_below_timeout:
  "case load_settings Map.empty of Inr st \<Rightarrow> queue_min_idle st < 1000 * request_timeout_setting st | Inl e \<Rightarrow> False"
  by (simp add: load_settings_def with_int_def env_int_def Let_def)


end
