(* ===== verification/System.thy ===== *)
theory System
  imports PoolHistory WorkerAgent HealthChecker
begin

text \<open>
  The whole process: any requests on any routes, the workers' answers, the callers that poll for queued
  results, both loops of the worker pool, the background compressions, the autoscaler and the health
  checker, each in the steps between its awaits and in any order, over one balancer, one context and one
  Redis. What is logged is the answer to every request.
\<close>

section \<open>State and steps\<close>

record sys_config =
  sc_pool :: pool_config
  sc_gateway :: gw_settings
  sc_balancer :: lb_config
  sc_workers :: nat

text \<open>
  \<open>sy_polls\<close> are the callers of the queued route with the polls they have left, \<open>sy_summaries\<close> the
  compressions that wait for their summary. An answer is logged with whether the worker that it came
  from had been removed from the balancer meanwhile.
\<close>

record 's system =
  sy_gateway :: "'s gateway"
  sy_pool :: "'s pool_state"
  sy_scaler :: autoscaler
  sy_running :: "running_call list"
  sy_polls :: "(json pydict \<times> nat) list"
  sy_summaries :: "(string \<times> context_item list \<times> client) list"
  sy_replies :: "(json result \<times> bool) list"

datatype sys_event =
    Request http_env http_request
  | Answer nat call_end
  | Polls nat
  | Compresses nat real real
  | Summarised nat "int \<Rightarrow> py_exc option" stamp call_end
  | Pools pool_event
  | Scales tick_env
  | Probes "nat \<Rightarrow> probe_outcome" nat

definition drop_nth :: "nat \<Rightarrow> 'b list \<Rightarrow> 'b list" where
  "drop_nth i xs = take i xs @ drop (Suc i) xs"

text \<open>\<open>queued_end\<close> from the end of the polling on.\<close>

definition queued_reply :: "json pydict \<Rightarrow> json option result \<Rightarrow> 's gateway \<Rightarrow> json pydict result \<times> 's gateway" where
  "queued_reply m r g =
     (case r of
        Inl e \<Rightarrow> (Inl e, g)
      | Inr (Some (JDict (x # d))) \<Rightarrow>
          (Inr (dict_merge m (x # d)),
           if map_of (x # d) ''error'' \<noteq> None then record_workflow_failure m ''/queued/generate'' g else g)
      | _ \<Rightarrow> (Inl (HTTPException 504 ''Request timed out in queue''), record_workflow_failure m ''/queued/generate'' g))"

definition caller_gone :: "client \<Rightarrow> 's gateway \<Rightarrow> bool" where
  "caller_gone w g \<longleftrightarrow> breakers (gw_lb g) (curl w) = None"

text \<open>The steps of the worker pool's own loops; callers and other requests are steps of the system.\<close>

fun pool_own :: "pool_event \<Rightarrow> bool" where
  "pool_own (Submits rid p) = False"
| "pool_own (Elsewhere lb cm) = False"
| "pool_own _ = True"

definition poll_step :: "'s redis \<Rightarrow> pool_config \<Rightarrow> nat \<Rightarrow> 's system \<Rightarrow> 's system" where
  "poll_step rd pc i s =
     (let g = sy_gateway s; (m, k) = sy_polls s ! i;
          (r, t) = (if k = 0 then (Inr None, w_redis (gw g))
                    else poll_result rd (result_prefix pc @ request_id_of m) (\<lambda>_ t. t) 1 (w_redis (gw g)))
      in if r = Inr None \<and> 0 < k then s\<lparr>sy_gateway := on_redis t g, sy_polls := (sy_polls s)[i := (m, k - 1)]\<rparr>
         else case queued_reply m r (on_redis t g) of
                (x, g') \<Rightarrow> s\<lparr>sy_gateway := g', sy_polls := drop_nth i (sy_polls s),
                            sy_replies := sy_replies s @ [(map_sum id JDict x, False)]\<rparr>)"

definition compress_step :: "gw_settings \<Rightarrow> nat \<Rightarrow> real \<Rightarrow> real \<Rightarrow> 's system \<Rightarrow> 's system" where
  "compress_step cfg i now1 now2 s =
     (let g = sy_gateway s; wid = background g ! i
      in case compress_task_begin cfg now1 now2 wid (g\<lparr>background := drop_nth i (background g)\<rparr>) of
           (Inr (Some (olds, w, body)), g') \<Rightarrow>
             s\<lparr>sy_gateway := g', sy_summaries := sy_summaries s @ [(the wid, olds, w)]\<rparr>
         | (_, g') \<Rightarrow> s\<lparr>sy_gateway := g'\<rparr>)"

fun sys_step :: "'s redis \<Rightarrow> sys_config \<Rightarrow> sys_event \<Rightarrow> 's system \<Rightarrow> 's system" where
  "sys_step rd c (Request env rq) s =
     (case http_begin rd (sc_pool c) (sc_gateway c) env rq (sy_gateway s) of
        (Replied r, g) \<Rightarrow> s\<lparr>sy_gateway := g, sy_replies := sy_replies s @ [(r, False)]\<rparr>
      | (AwaitsWorker p m w body, g) \<Rightarrow>
          s\<lparr>sy_gateway := g, sy_running := sy_running s @ [\<lparr>rc_request = p, rc_meta = m, rc_client = w\<rparr>]\<rparr>
      | (AwaitsQueue m, g) \<Rightarrow> s\<lparr>sy_gateway := g, sy_polls := sy_polls s @ [(m, 240)]\<rparr>
      | (Framework, g) \<Rightarrow> s\<lparr>sy_gateway := g\<rparr>)"
| "sys_step rd c (Answer i ce) s =
     (if i < length (sy_running s)
      then (case end_request ce (sy_running s ! i) (sy_gateway s) of
              (x, g) \<Rightarrow> s\<lparr>sy_gateway := g, sy_running := drop_nth i (sy_running s),
                 sy_replies := sy_replies s
                   @ [(map_sum id JDict x, caller_gone (rc_client (sy_running s ! i)) (sy_gateway s))]\<rparr>)
      else s)"
| "sys_step rd c (Polls i) s = (if i < length (sy_polls s) then poll_step rd (sc_pool c) i s else s)"
| "sys_step rd c (Compresses i now1 now2) s =
     (if i < length (background (sy_gateway s)) then compress_step (sc_gateway c) i now1 now2 s else s)"
| "sys_step rd c (Summarised i inc st ce) s =
     (if i < length (sy_summaries s)
      then (case sy_summaries s ! i of
              (wid, olds, w) \<Rightarrow> s\<lparr>sy_gateway := snd (compress_task_end inc st wid olds ce w (sy_gateway s)),
                                 sy_summaries := drop_nth i (sy_summaries s)\<rparr>)
      else s)"
| "sys_step rd c (Pools ev) s =
     (if pool_own ev
      then let p = pool_step rd (sc_pool c) ev ((sy_pool s)\<lparr>ps_world := gw (sy_gateway s)\<rparr>)
           in s\<lparr>sy_pool := p, sy_gateway := (sy_gateway s)\<lparr>gw := ps_world p\<rparr>\<rparr>
      else s)"
| "sys_step rd c (Scales env) s =
     (case scaler_pass rd (sc_balancer c) (sc_workers c) env (w_redis (gw (sy_gateway s))) (sy_scaler s, gw_lb (sy_gateway s)) of
        ((a, lb), t) \<Rightarrow> s\<lparr>sy_scaler := a, sy_gateway := on_redis t (on_lb lb (sy_gateway s))\<rparr>)"
| "sys_step rd c (Probes probe i) s = s\<lparr>sy_gateway := on_lb (probe_done probe i (gw_lb (sy_gateway s))) (sy_gateway s)\<rparr>"

definition start_system :: "'s gateway \<Rightarrow> autoscaler \<Rightarrow> 's system" where
  "start_system g a =
     \<lparr>sy_gateway = g, sy_pool = \<lparr>ps_world = gw g, ps_job = None, ps_retries = [], ps_retry = None, ps_settled = []\<rparr>,
      sy_scaler = a, sy_running = [], sy_polls = [], sy_summaries = [], sy_replies = []\<rparr>"

definition run_system :: "'s redis \<Rightarrow> sys_config \<Rightarrow> sys_event list \<Rightarrow> 's gateway \<Rightarrow> autoscaler \<Rightarrow> 's system" where
  "run_system rd c evs g a = fold (sys_step rd c) evs (start_system g a)"

text \<open>The steps of the queued route are the route of \<open>Gateway\<close>: the same tail, and one poll after the other.\<close>

lemma queued_end_is_reply:
  "queued_end rd pc others m g =
     (case get_result rd pc (request_id_of m) 120 others (w_redis (gw g)) of (r, t) \<Rightarrow> queued_reply m r (on_redis t g))"
  by (auto simp: queued_end_def queued_reply_def split: prod.split sum.split option.split json.split list.split)

lemma poll_result_one_by_one:
  "poll_result rd key others (Suc k) t =
     (case poll_result rd key (\<lambda>_ t. t) 1 t of
        (Inr None, t') \<Rightarrow> poll_result rd key others k (others k t') | (x, t') \<Rightarrow> (x, t'))"
  by (auto simp: bind_def lift_result_def split: prod.split sum.split option.split list.split)

section \<open>The invariant\<close>

text \<open>A server that answers.\<close>

definition sys_laws ::
  "'s redis \<Rightarrow> ('s \<Rightarrow> string \<Rightarrow> stream_entry list) \<Rightarrow> ('s \<Rightarrow> string \<times> string \<Rightarrow> string \<Rightarrow> nat option) \<Rightarrow> (string \<Rightarrow> nat)
     \<Rightarrow> ('s \<Rightarrow> string \<Rightarrow> string option) \<Rightarrow> ('s \<Rightarrow> string \<Rightarrow> string set) \<Rightarrow> bool" where
  "sys_laws rd entries pending rank kv members \<longleftrightarrow>
     keyspace_laws rd kv members \<and> stream_laws rd entries pending rank \<and> separate_laws rd entries pending kv \<and> keys_apart rd kv"

lemma sys_lawsD:
  assumes "sys_laws rd entries pending rank kv members"
  shows "keyspace_laws rd kv members" "stream_laws rd entries pending rank" "separate_laws rd entries pending kv" "keys_apart rd kv"
  using assms by (simp_all add: sys_laws_def)

definition results_ok :: "('s \<Rightarrow> string \<Rightarrow> string option) \<Rightarrow> pool_config \<Rightarrow> 's \<Rightarrow> bool" where
  "results_ok kv pc t \<longleftrightarrow>
     (\<forall>x v. kv t (result_prefix pc @ x) = Some v \<longrightarrow> (\<exists>d. wf_json (JDict d) \<and> v = dumps (JDict d)))"

text \<open>The registry holds records, the result keys hold results, and no key is both.\<close>

definition redis_ok :: "('s \<Rightarrow> string \<Rightarrow> string option) \<Rightarrow> pool_config \<Rightarrow> 's \<Rightarrow> bool" where
  "redis_ok kv pc t \<longleftrightarrow> registry_full kv t \<and> results_ok kv pc t \<and> (\<forall>x i. result_prefix pc @ x \<noteq> worker_key i)"

lemma redis_ok_same: "kv t' = kv t \<Longrightarrow> redis_ok kv pc t' = redis_ok kv pc t"
  by (simp add: redis_ok_def registry_full_def results_ok_def)

lemma redis_ok_result:
  assumes "redis_ok kv pc t" "kv t' = (kv t)(result_prefix pc @ x := v)" "\<And>u. v = Some u \<Longrightarrow> \<exists>d. wf_json (JDict d) \<and> u = dumps (JDict d)"
  shows "redis_ok kv pc t'"
proof -
  have "worker_key i \<noteq> result_prefix pc @ x" for i using assms(1) unfolding redis_ok_def by metis
  then have "kv t' (worker_key i) = kv t (worker_key i)" for i by (simp add: assms(2))
  moreover have "kv t' (result_prefix pc @ y) = (if y = x then v else kv t (result_prefix pc @ y))" for y by (simp add: assms(2))
  ultimately show ?thesis using assms(1,3) unfolding redis_ok_def registry_full_def results_ok_def by simp
qed

lemma redis_ok_worker:
  assumes "redis_ok kv pc t" "kv t' = (kv t)(worker_key i := v)"
    and "\<And>u. v = Some u \<Longrightarrow> \<exists>r. wf_record r \<and> u = dumps (JDict (record_dict r))"
  shows "redis_ok kv pc t'"
proof -
  have "result_prefix pc @ x \<noteq> worker_key i" for x using assms(1) unfolding redis_ok_def by metis
  then have "kv t' (result_prefix pc @ x) = kv t (result_prefix pc @ x)" for x by (simp add: assms(2))
  moreover have "kv t' (worker_key j) = (if j = i then v else kv t (worker_key j))" for j by (simp add: assms(2))
  ultimately show ?thesis using assms(1,3) unfolding redis_ok_def registry_full_def results_ok_def by simp
qed

definition gw_ok :: "('s \<Rightarrow> string \<Rightarrow> string option) \<Rightarrow> pool_config \<Rightarrow> 's gateway \<Rightarrow> bool" where
  "gw_ok kv pc g \<longleftrightarrow> lb_inv (gw_lb g) \<and> redis_ok kv pc (gw_redis g)"

lemma gw_ok_on:
  "gw_ok kv pc (on_lb lb g) \<longleftrightarrow> lb_inv lb \<and> redis_ok kv pc (gw_redis g)"
  "gw_ok kv pc (on_redis t g) \<longleftrightarrow> lb_inv (gw_lb g) \<and> redis_ok kv pc t"
  "gw_ok kv pc (on_cm cm g) = gw_ok kv pc g" "gw_ok kv pc (record_workflow_failure m ep g) = gw_ok kv pc g"
  by (simp_all add: gw_ok_def on_lb_def on_redis_def on_cm_def)

section \<open>Every route\<close>

text \<open>An answer the routes mean to give.\<close>

definition meant :: "py_exc \<Rightarrow> bool" where
  "meant e \<longleftrightarrow> (case e of HTTPException st d \<Rightarrow> st \<in> {401, 404, 422, 503, 504} | _ \<Rightarrow> False)"

definition answered_well :: "'b result \<Rightarrow> bool" where
  "answered_well r \<longleftrightarrow> (case r of Inr _ \<Rightarrow> True | Inl e \<Rightarrow> meant e)"

lemma answered_simps [simp]:
  "answered_well (Inr x)" "answered_well (Inl e) \<longleftrightarrow> meant e" "answered_well (map_sum id f r) \<longleftrightarrow> answered_well r"
  "meant (HTTPException st d) \<longleftrightarrow> st \<in> {401, 404, 422, 503, 504}"
  by (simp_all add: answered_well_def meant_def split: sum.split)

definition route_ok :: "('s \<Rightarrow> string \<Rightarrow> string option) \<Rightarrow> pool_config \<Rightarrow> 'b result \<times> 's gateway \<Rightarrow> bool" where
  "route_ok kv pc p \<longleftrightarrow> answered_well (fst p) \<and> gw_ok kv pc (snd p)"

lemma authed_ok:
  assumes "gw_ok kv pc g" "\<And>r t. act (gw_redis g) = (r, t) \<Longrightarrow> answered_well r \<and> redis_ok kv pc t"
  shows "route_ok kv pc (authed cfg key act g)"
  using assms by (auto simp: route_ok_def authed_def verify_api_key_def unauthorized_def gw_ok_def split: prod.split)

lemma queue_depth_same: "stream_laws rd entries pending rank \<Longrightarrow> \<exists>d. pool_queue_depth rd pc t = (Inr d, t)"
  by (simp add: pool_queue_depth_def depth_def stream_lawsD(3))

lemma health_route_ok:
  assumes "stream_laws rd entries pending rank" "gw_ok kv pc g"
  shows "route_ok kv pc (health rd pc' probe n g)"
proof -
  let ?lb = "health_check_all probe (gw_lb g)"
  have inv: "lb_inv ?lb" using assms(2) by (simp add: gw_ok_def lb_inv_health)
  obtain rows where "get_worker_stats ?lb = Inr rows" by (rule stats_total [OF inv])
  moreover obtain d where "pool_queue_depth rd pc' (gw_redis g) = (Inr d, gw_redis g)" using queue_depth_same [OF assms(1)] by blast
  ultimately show ?thesis using inv assms(2) by (simp add: health_def Let_def route_ok_def gw_ok_def on_lb_def on_redis_def)
qed

lemma workers_route_ok:
  assumes "gw_ok kv pc g" shows "route_ok kv pc (workers_route cfg probe key g)"
proof -
  let ?lb = "health_check_all probe (gw_lb g)"
  have inv: "lb_inv ?lb" using assms by (simp add: gw_ok_def lb_inv_health)
  obtain rows where "get_worker_stats ?lb = Inr rows" by (rule stats_total [OF inv])
  then show ?thesis
    using inv assms by (simp add: workers_route_def verify_api_key_def unauthorized_def Let_def route_ok_def gw_ok_def on_lb_def)
qed

lemma depth_route_ok:
  assumes "stream_laws rd entries pending rank" "gw_ok kv pc g"
  shows "route_ok kv pc (queue_depth_route rd pc' cfg key g)"
  unfolding queue_depth_route_def
proof (rule authed_ok [OF assms(2)])
  fix r t assume run: "pool_queue_depth rd pc' (gw_redis g) = (r, t)"
  obtain d where "pool_queue_depth rd pc' (gw_redis g) = (Inr d, gw_redis g)" using queue_depth_same [OF assms(1)] by blast
  then show "answered_well r \<and> redis_ok kv pc t" using run assms(2) by (simp add: gw_ok_def)
qed

lemma register_route_ok:
  assumes "keyspace_laws rd kv members" "gw_ok kv pc g" "wf_record (record_of_request now rq)"
  shows "route_ok kv pc (register_worker rd cfg now key rq g)"
  unfolding register_worker_def
proof (rule authed_ok [OF assms(2)])
  fix r t assume run: "bind (register rd now (rr_worker_id rq) (record_of_request now rq)) (\<lambda>r. ret (record_dict r)) (gw_redis g) = (r, t)"
  have ok: "registry_ok kv now (gw_redis g)" "redis_ok kv pc (gw_redis g)"
    using assms(2) by (simp_all add: gw_ok_def redis_ok_def full_ok)
  obtain t' where t': "register rd now (rr_worker_id rq) (record_of_request now rq) (gw_redis g)
      = (Inr (joined (stored_worker kv now (gw_redis g) (rr_worker_id rq)) (record_of_request now rq)), t')"
    "kv t' = (kv (gw_redis g))(worker_key (rr_worker_id rq) \<mapsto>
       dumps (JDict (record_dict (joined (stored_worker kv now (gw_redis g) (rr_worker_id rq)) (record_of_request now rq)))))"
    using register_effect [OF assms(1) ok(1)] by blast
  have "redis_ok kv pc t'"
    using redis_ok_worker [OF ok(2) t'(2)] wf_joined [OF ok(1) assms(3)] by auto
  then show "answered_well r \<and> redis_ok kv pc t" using run t'(1) by (auto simp: bind_def ret_def)
qed

lemma list_route_ok:
  assumes "keyspace_laws rd kv members" "gw_ok kv pc g"
  shows "route_ok kv pc (list_registered_workers rd cfg now key g)"
  unfolding list_registered_workers_def
proof (rule authed_ok [OF assms(2)])
  fix r t assume run: "bind (list_workers rd now) (\<lambda>rs. ret (map record_dict rs)) (gw_redis g) = (r, t)"
  have ok: "registry_ok kv now (gw_redis g)" "redis_ok kv pc (gw_redis g)"
    using assms(2) by (simp_all add: gw_ok_def redis_ok_def full_ok)
  obtain ids where ids: "r_smembers rd workers_set_key (gw_redis g) = (Inr ids, gw_redis g)"
    using key_lawsD(7) [OF assms(1)] by blast
  have mget: "r_mget rd ks s = (Inr (map (kv s) ks), s)" for ks s by (rule key_lawsD(4) [OF assms(1)])
  obtain rs t' where t': "collect_workers rd now (zip ids (map (\<lambda>i. kv (gw_redis g) (worker_key i)) ids)) (gw_redis g) = (Inr rs, t')"
      "kv t' = kv (gw_redis g)"
    using collect_workers_eq [OF assms(1) ok(1)] by blast
  show "answered_well r \<and> redis_ok kv pc t"
    using run t'(1) ok(2) redis_ok_same [of kv t' "gw_redis g" pc] t'(2)
    by (auto simp: list_workers_def bind_def ids mget ret_def comp_def split: if_splits)
qed

lemma deregister_route_ok:
  assumes "keyspace_laws rd kv members" "gw_ok kv pc g"
  shows "route_ok kv pc (deregister_worker rd cfg key i g)"
  unfolding deregister_worker_def
proof (rule authed_ok [OF assms(2)])
  fix r t assume run: "bind (deregister rd i) (\<lambda>removed. if removed then ret [(''deregistered'', JStr i)]
      else raise (HTTPException 404 (''Worker '' @ [CHR 0x27] @ i @ [CHR 0x27] @ '' is not registered''))) (gw_redis g) = (r, t)"
  obtain t' where t': "deregister rd i (gw_redis g) = (Inr (kv (gw_redis g) (worker_key i) \<noteq> None), t')"
      "kv t' = (kv (gw_redis g))(worker_key i := None)"
    using deregister_effect [OF assms(1)] by blast
  have "redis_ok kv pc t'" using redis_ok_worker [OF _ t'(2)] assms(2) by (simp add: gw_ok_def)
  then show "answered_well r \<and> redis_ok kv pc t" using run t'(1) by (auto simp: bind_def ret_def raise_def split: if_splits)
qed

lemma context_keeps: "gw_ok kv pc (record_context st m x g) = gw_ok kv pc g"
  by (simp add: record_context_def gw_ok_on split: option.split)

lemma route_begin_ok:
  assumes "gw_ok kv pc g"
  shows "route_ok kv pc (route_begin cfg ep u st n1 n2 key rq x g)"
proof (cases "key = Some (gw_settings.api_key cfg)")
  case False
  then show ?thesis using assms by (simp add: route_begin_def verify_api_key_def unauthorized_def route_ok_def)
next
  case True
  obtain y lb where y: "dispatch_begin (gw_settings.routing_strategy cfg) n1 n2 (request_tokens rq x g) (gw_lb g) = (y, lb)" by force
  have inv: "lb_inv (gw_lb g)" using assms by (simp add: gw_ok_def)
  have lb: "lb_inv lb" using lb_inv_dispatch_begin [OF inv] y by (metis snd_conv)
  have err: "is_runtime_error e" if "y = Inl e" for e
    using that y pick_worker_Inl [OF inv] by (auto simp: dispatch_begin_def split: prod.splits sum.splits)
  show ?thesis
  proof (rule route_begin_pick [OF True y, of u ep st])
    fix m g2
    assume g2: "gw g2 = gw g" and run: "route_begin cfg ep u st n1 n2 key rq x g =
      (case y of
         Inl e \<Rightarrow> if is_runtime_error e
           then (Inl (HTTPException 503 (exc_text e)), record_workflow_failure m ep (on_lb lb g2))
           else (Inl e, on_lb lb g2)
       | Inr w \<Rightarrow> (Inr (m, w), record_context st m x (on_lb lb g2)))"
    have "gw_ok kv pc (on_lb lb g2)" using assms lb by (simp add: gw_ok_on(1) g2) (simp add: gw_ok_def)
    then show ?thesis
      using err by (cases y) (simp_all add: run route_ok_def context_keeps gw_ok_on(4))
  qed
qed

lemma body_route_ok: "route_ok kv pc p \<Longrightarrow> route_ok kv pc (with_body body p)"
  by (auto simp: with_body_def route_ok_def split: prod.split sum.split)

lemma enqueue_keeps: "stream_laws rd entries pending rank \<Longrightarrow> keys_apart rd kv \<Longrightarrow> \<exists>t'. pool_enqueue rd pc i q t = (Inr (), t') \<and> kv t' = kv t"
proof -
  assume l: "stream_laws rd entries pending rank" "keys_apart rd kv"
  let ?f = "encode_fields (dict_merge [(''request_id'', JStr i)] q)"
  obtain j t' where t': "xadd rd (stream_key (po_queue pc)) ?f t = (Inr j, t')"
    using stream_lawsD(1) [OF l(1), of "stream_key (po_queue pc)" ?f t] by blast
  have "kv t' = kv t" using l(2) t' unfolding keys_apart_def by (metis snd_conv)
  with t' show ?thesis
    by (simp add: pool_enqueue_def enqueue_def bind_def depth_def ret_def stream_lawsD(3) [OF l(1)])
qed

lemma queued_begin_ok:
  assumes "stream_laws rd entries pending rank" "keys_apart rd kv" "gw_ok kv pc g"
  shows "route_ok kv pc (queued_begin rd pc' cfg u key rq g)"
proof (cases "key = Some (gw_settings.api_key cfg)")
  case False
  then show ?thesis using assms by (simp add: queued_begin_def verify_api_key_def unauthorized_def route_ok_def)
next
  case True
  obtain m g1 where mg: "resolve_agent_metadata u rq ''/queued/generate'' g = (m, g1)" by force
  obtain n g2 where tg: "get_prospective_context_tokens m (rq_prompt rq) g1 = (n, g2)" by force
  have "gw g1 = gw g" "gw g2 = gw g1"
    using meta_workflow(3) [of u rq "''/queued/generate''" g] prospective_sel(1) [of m "rq_prompt rq" g1] by (simp_all add: mg tg)
  moreover obtain t' where "pool_enqueue rd pc' (request_id_of m) (queued_payload cfg rq n) (gw_redis g2) = (Inr (), t')"
      "kv t' = kv (gw_redis g2)"
    using enqueue_keeps [OF assms(1,2)] by blast
  ultimately show ?thesis
    using True assms(3) redis_ok_same [of kv t' "gw_redis g2" pc]
    by (simp add: queued_begin_def verify_api_key_def Let_def mg tg route_ok_def gw_ok_on) (simp add: gw_ok_def)
qed

text \<open>The numbers of a request and the clock are JSON values.\<close>

definition env_ok :: "http_env \<Rightarrow> bool" where
  "env_ok env \<longleftrightarrow> wf_json (he_clock env) \<and> (\<forall>j x. he_float env j = Some x \<longrightarrow> wf_json x)"

lemma parsed_registration_wf:
  assumes "parse_registration (he_float env) bl body = Inr rq" "env_ok env"
  shows "wf_record (record_of_request (he_clock env) rq)"
proof -
  have "wf_json (rr_ram_gb rq)" "wf_json (rr_vram_gb rq)"
    using assms
    by (auto simp: parse_registration_def float_field_def opt_float_field_def env_ok_def
        split: json.splits sum.splits option.splits)
  then show ?thesis
    using assms(2) by (simp add: wf_record_def record_dict_def record_of_request_def env_ok_def list_all_iff)
qed

definition step_ok :: "http_step \<Rightarrow> bool" where
  "step_ok x \<longleftrightarrow> (case x of Replied r \<Rightarrow> answered_well r | _ \<Rightarrow> True)"

lemma http_steps_ok:
  "route_ok kv pc p \<Longrightarrow> replied f p = (x, g') \<Longrightarrow> step_ok x \<and> gw_ok kv pc g'"
  "route_ok kv pc p' \<Longrightarrow> awaits_worker r p' = (x, g') \<Longrightarrow> step_ok x \<and> gw_ok kv pc g'"
  "route_ok kv pc p'' \<Longrightarrow> awaits_queue p'' = (x, g') \<Longrightarrow> step_ok x \<and> gw_ok kv pc g'"
  by (auto simp: replied_def awaits_worker_def awaits_queue_def route_ok_def step_ok_def split: prod.splits sum.splits)

lemma with_request_ok:
  assumes "with_request r f g = (x, g')" "gw_ok kv pc g" "\<And>e. r = Inl e \<Longrightarrow> e = unprocessable"
    and "\<And>rq. r = Inr rq \<Longrightarrow> f rq g = (x, g') \<Longrightarrow> step_ok x \<and> gw_ok kv pc g'"
  shows "step_ok x \<and> gw_ok kv pc g'"
  using assms by (cases r) (auto simp: with_request_def step_ok_def unprocessable_def)

lemma http_begin_ok:
  assumes laws: "sys_laws rd entries pending rank kv members" and ok: "gw_ok kv pc g" and env: "env_ok env"
    and run: "http_begin rd pc' cfg env rq g = (x, g')"
  shows "step_ok x \<and> gw_ok kv pc g'"
proof (cases "find_route (hq_method rq) (hq_path rq)")
  case None
  then show ?thesis using run ok by (auto simp: http_begin_def step_ok_def Let_def)
next
  case (Some r)
  note l = sys_lawsD [OF laws]
  show ?thesis
  proof (cases r)
    case HealthR
    then show ?thesis using run Some http_steps_ok(1) [OF health_route_ok [OF l(2) ok]] by (simp add: http_begin_def Let_def)
  next
    case GenerateR
    then have "with_request (parse_generate (hq_body rq)) (\<lambda>r g. awaits_worker (Generate r)
        (generate_begin cfg (he_uuid env) (he_stamp env) (he_now1 env) (he_now2 env) (hq_key rq) r g)) g = (x, g')"
      using run Some by (simp add: http_begin_def Let_def)
    then show ?thesis
      by (rule with_request_ok [OF _ ok]) (auto simp: generate_begin_def dest!: http_steps_ok(2) [rotated] intro!: body_route_ok route_begin_ok ok)
  next
    case ChatR
    then have "with_request (parse_chat (hq_body rq)) (\<lambda>r g. awaits_worker (Chat r)
        (chat_begin cfg (he_uuid env) (he_stamp env) (he_now1 env) (he_now2 env) (hq_key rq) r g)) g = (x, g')"
      using run Some by (simp add: http_begin_def Let_def)
    then show ?thesis
      by (rule with_request_ok [OF _ ok]) (auto simp: chat_begin_def dest!: http_steps_ok(2) [rotated] intro!: body_route_ok route_begin_ok ok)
  next
    case WorkersR
    then show ?thesis using run Some http_steps_ok(1) [OF workers_route_ok [OF ok]] by (simp add: http_begin_def Let_def)
  next
    case QueuedR
    then have "with_request (parse_generate (hq_body rq)) (\<lambda>r g. awaits_queue (queued_begin rd pc' cfg (he_uuid env) (hq_key rq) r g)) g = (x, g')"
      using run Some by (simp add: http_begin_def Let_def)
    then show ?thesis
      by (rule with_request_ok [OF _ ok]) (auto dest!: http_steps_ok(3) [rotated] intro!: queued_begin_ok [OF l(2,4) ok])
  next
    case QueueDepthR
    then show ?thesis using run Some http_steps_ok(1) [OF depth_route_ok [OF l(2) ok]] by (simp add: http_begin_def Let_def)
  next
    case RegisterR
    then have "with_request (parse_registration (he_float env) (he_bool env) (hq_body rq))
        (\<lambda>r g. replied JDict (register_worker rd cfg (he_clock env) (hq_key rq) r g)) g = (x, g')"
      using run Some by (simp add: http_begin_def Let_def)
    then show ?thesis
      by (rule with_request_ok [OF _ ok])
        (auto dest!: http_steps_ok(1) [rotated] intro!: register_route_ok [OF l(1) ok] dest: parsed_registration_wf [OF _ env])
  next
    case RegistryR
    then show ?thesis using run Some http_steps_ok(1) [OF list_route_ok [OF l(1) ok]] by (simp add: http_begin_def Let_def)
  next
    case (DeregisterR i)
    then show ?thesis using run Some http_steps_ok(1) [OF deregister_route_ok [OF l(1) ok]] by (simp add: http_begin_def Let_def)
  next
    case RootR
    then show ?thesis using run Some ok by (auto simp: http_begin_def Let_def step_ok_def)
  next
    case MetricsR
    then show ?thesis using run Some ok by (auto simp: http_begin_def Let_def step_ok_def)
  qed
qed

section \<open>Every other step\<close>

lemma stop_call_error:
  assumes "fst (stop_call c w lb) = Inl e"
  shows "is_runtime_error e \<or> breakers lb (curl w) = None \<and> (\<exists>k. e = KeyError k)"
proof -
  have "is_runtime_error e'" if "fst (finish_of c w) = Inl e'" for e' by (rule finish_of_error [OF that])
  then show ?thesis
    using assms
    by (auto simp: stop_call_def dispatch_end_def Let_def record_success_def record_failure_def on_breaker_def update_client_def
        split: sum.splits prod.splits option.splits if_splits)
qed

lemma stop_call_inv: "lb_inv lb \<Longrightarrow> lb_inv (snd (stop_call c w lb))"
  unfolding stop_call_def by (rule lb_inv_dispatch_end) simp_all

lemma route_end_ok:
  assumes "gw_ok kv pc g" "route_end ep c m w g = (x, g')"
  shows "gw_ok kv pc g' \<and> (answered_well x \<or> caller_gone w g \<and> (\<exists>k. x = Inl (KeyError k)))"
proof -
  obtain y lb where y: "stop_call c w (gw_lb g) = (y, lb)" by force
  have "lb_inv lb" using stop_call_inv [of "gw_lb g" c w] assms(1) y by (simp add: gw_ok_def)
  moreover have "is_runtime_error e \<or> caller_gone w g \<and> (\<exists>k. e = KeyError k)" if "y = Inl e" for e
    using stop_call_error [of c w "gw_lb g" e] that y by (simp add: caller_gone_def)
  ultimately show ?thesis
    using assms y by (cases y) (auto simp: route_end_def gw_ok_def on_lb_def split: if_splits)
qed

lemma end_request_ok:
  assumes "gw_ok kv pc g" "end_request c r g = (x, g')"
  shows "gw_ok kv pc g' \<and> (answered_well x \<or> caller_gone (rc_client r) g \<and> (\<exists>k. x = Inl (KeyError k)))"
  using assms route_end_ok [OF assms(1)]
  by (cases "rc_request r") (simp_all add: end_request_def generate_end_def chat_end_def)

lemma poll_once:
  assumes "keyspace_laws rd kv members" "redis_ok kv pc t"
    and "poll_result rd (result_prefix pc @ i) (\<lambda>_ t. t) 1 t = (r, t')"
  shows "redis_ok kv pc t' \<and> (\<exists>j. r = Inr j)"
proof (cases "kv t (result_prefix pc @ i)")
  case None
  then show ?thesis using assms(2,3) by (auto simp: keyspace_lawsD(1) [OF assms(1)])
next
  case (Some v)
  then obtain d where d: "wf_json (JDict d)" "v = dumps (JDict d)" using assms(2) by (auto simp: redis_ok_def results_ok_def)
  obtain c cs where c: "dumps (JDict d) = c # cs" by simp
  obtain t1 where t1: "r_delete rd (result_prefix pc @ i) t = (Inr 1, t1)" "kv t1 = (kv t)(result_prefix pc @ i := None)"
    using keyspace_lawsD(3) [OF assms(1), of "result_prefix pc @ i" t] Some by auto
  have "loads (c # cs) = Inr (JDict d)" using loads_dumps [OF d(1)] c by simp
  moreover have "redis_ok kv pc t1" by (rule redis_ok_result [OF assms(2) t1(2)]) simp
  ultimately show ?thesis
    using assms(3) Some d(2) c by (auto simp: keyspace_lawsD(1) [OF assms(1)] bind_def t1(1) lift_result_def simp del: dumps.simps)
qed

lemma queued_reply_ok: "gw_ok kv pc g \<Longrightarrow> route_ok kv pc (queued_reply m (Inr j) g)"
  by (auto simp: queued_reply_def route_ok_def gw_ok_on split: option.split json.split list.split)

lemma compress_begin_ok:
  assumes "gw_ok kv pc g" shows "gw_ok kv pc (snd (compress_task_begin cfg n1 n2 wid g))"
proof -
  have inv: "lb_inv (snd (dispatch_begin st n1 n2 None (gw_lb g)))" for st
    using assms by (simp add: gw_ok_def lb_inv_dispatch_begin)
  have "lb_inv (snd (summarizer_begin st n1 n2 mo x (gw_lb g)))" for st mo x
    using inv [of st] by (auto simp: summarizer_begin_def split: prod.split sum.split)
  then have "gw_ok kv pc (on_lb (snd (summarizer_begin st n1 n2 mo x (gw_lb g))) g)" for st mo x
    using assms by (simp add: gw_ok_on(1)) (simp add: gw_ok_def)
  then show ?thesis
    using assms by (auto simp: compress_task_begin_def split: option.split prod.split sum.split) (metis snd_conv)+
qed

lemma compress_end_ok:
  assumes "gw_ok kv pc g" shows "gw_ok kv pc (snd (compress_task_end inc st wid olds c w g))"
proof -
  let ?d = "dispatch_end (finish_generate (ce_inc c) (ce_latency c) (ce_outcome c)) (ce_now c) w (gw_lb g)"
  have "lb_inv (snd ?d)" using assms by (intro lb_inv_dispatch_end) (simp_all add: gw_ok_def finish_generate_def)
  then have "lb_inv (snd (summarizer_end (ce_inc c) (ce_latency c) (ce_outcome c) (ce_now c) w (gw_lb g)))"
    by (auto simp: summarizer_end_def split: prod.split sum.split option.split)
  then have "gw_ok kv pc (on_lb (snd (summarizer_end (ce_inc c) (ce_latency c) (ce_outcome c) (ce_now c) w (gw_lb g))) g)"
    using assms by (simp add: gw_ok_on(1)) (simp add: gw_ok_def)
  then show ?thesis
    by (auto simp: compress_task_end_def gw_ok_on(3) split: prod.split sum.split json.split)
qed

definition world_ok :: "('s \<Rightarrow> string \<Rightarrow> string option) \<Rightarrow> pool_config \<Rightarrow> 's world \<Rightarrow> bool" where
  "world_ok kv pc w \<longleftrightarrow> lb_inv (w_lb w) \<and> redis_ok kv pc (w_redis w)"

lemma gw_ok_world: "gw_ok kv pc g = world_ok kv pc (gw g)"
  by (simp add: gw_ok_def world_ok_def)

lemma keys_apartD:
  assumes "keys_apart rd kv"
  shows "keeps kv (xadd rd k f)" "keeps kv (xreadgroup rd k g c n)" "keeps kv (xack rd k g i)"
    "keeps kv (xautoclaim rd k g c idle st n)" "keeps kv (r_llen rd k)"
  using assms by (simp_all add: keys_apart_def keeps_def)

lemma read_keeps: "keys_apart rd kv \<Longrightarrow> keeps kv (queue_read rd q n)"
  unfolding queue_read_def
  by (rule keeps_bind [OF keys_apartD(2)]) (auto simp: keeps_ret split: list.split)

lemma reclaim_keeps:
  assumes laws: "keys_apart rd kv" and run: "reclaim_loop rd q idle cursor xs s = Some y"
  shows "kv (snd y) = kv s"
proof -
  have "rd = rd \<longrightarrow> kv (snd y) = kv s"
  proof (rule reclaim_loop.raw_induct [where P = "\<lambda>rd' q' idle cursor xs s y. rd' = rd \<longrightarrow> kv (snd y) = kv s", OF _ run])
    fix loop rd' q' idle cursor xs s y
    assume IH: "\<And>rd' q' idle cursor xs s y. loop rd' q' idle cursor xs s = Some y \<Longrightarrow> rd' = rd \<longrightarrow> kv (snd y) = kv s"
      and step: "(case xautoclaim rd' (stream_key q') (group_name q') (consumer_name q') idle cursor 50 s of
          (Inl e, s') \<Rightarrow> Some (Inl e, s')
        | (Inr (cursor', es), s') \<Rightarrow>
            (case decode_entries es of
               Inl e \<Rightarrow> Some (Inl e, s')
             | Inr ps \<Rightarrow>
                 if cursor' = ''0-0'' \<or> es = [] then Some (Inr (xs @ ps), s')
                 else loop rd' q' idle cursor' (xs @ ps) s')) = Some y"
    show "rd' = rd \<longrightarrow> kv (snd y) = kv s"
    proof
      assume rd: "rd' = rd"
      obtain x s' where c: "xautoclaim rd (stream_key q') (group_name q') (consumer_name q') idle cursor 50 s = (x, s')" by force
      have "kv s' = kv s" by (rule keeps_run [OF keys_apartD(4) [OF laws] c])
      then show "kv (snd y) = kv s" using step IH rd by (auto simp: c split: sum.splits prod.splits if_splits)
    qed
  qed
  then show ?thesis by simp
qed

lemma split_keeps:
  assumes "keys_apart rd kv" "stream_laws rd entries pending rank"
  shows "keeps kv (split_reclaimed rd rp dlq clock ps acc)"
proof (induction ps arbitrary: acc)
  case Nil
  then show ?case by (simp add: keeps_ret)
next
  case (Cons x ps)
  obtain i p where x: "x = (i, p)" by force
  have "keeps kv (delivery_count rd (rp_queue rp) i)"
    by (simp add: keeps_def delivery_count_def bind_def ret_def stream_lawsD(5) [OF assms(2)])
  moreover have "keeps kv (dead_letter_add rd dlq (clock i) i p max_retries_exceeded)"
    unfolding dead_letter_add_def by (rule keys_apartD(1) [OF assms(1)])
  moreover have "keeps kv (ack rd (rp_queue rp) i)"
    unfolding ack_def by (intro keeps_bind keys_apartD(3) [OF assms(1)] keeps_ret)
  ultimately show ?case unfolding x split_reclaimed.simps by (intro keeps_bind) (simp_all add: keeps_bind Cons.IH)
qed

lemma recover_keeps:
  assumes "keys_apart rd kv" "stream_laws rd entries pending rank" "recover rd rp dlq clock s = Some (r, s')"
  shows "kv s' = kv s"
proof -
  obtain x s1 where x: "reclaim_loop rd (rp_queue rp) (min_idle_ms rp) ''0-0'' [] s = Some (x, s1)"
    using assms(3) by (auto simp: recover_def reclaim_stale_def split: option.splits)
  have "kv s1 = kv s" using reclaim_keeps [OF assms(1) x] by simp
  moreover have "kv s' = kv s1"
    using assms(3) x keeps_run [OF split_keeps [OF assms(1,2)]]
    by (auto simp: recover_def reclaim_stale_def split: sum.splits)
  ultimately show ?thesis by simp
qed

lemma settle_world:
  assumes "sys_laws rd entries pending rank kv members" "world_ok kv pc w" "wf_json (JDict r)"
  shows "world_ok kv pc (snd (settle_in rd pc i rid r w))"
proof -
  obtain t where t: "settle rd pc i rid r (w_redis w) = (Inr (), t)" "kv t = (kv (w_redis w))(result_key pc rid \<mapsto> dumps (JDict r))"
    using settle_ok [OF sys_lawsD(1-3) [OF assms(1)]] by blast
  have "redis_ok kv pc t"
    using redis_ok_result [OF _ t(2) [unfolded result_key_def]] assms(2,3) by (auto simp: world_ok_def simp del: dumps.simps wf_json.simps)
  then show ?thesis using assms(2) by (simp add: settle_in_def t(1) world_ok_def)
qed

lemma begin_job_world:
  assumes "sys_laws rd entries pending rank kv members" "world_ok kv pc w"
  shows "world_ok kv pc (snd (begin_job rd pc env e w))"
proof -
  obtain y lb cm where y: "process_begin (ca_strategy (je_start env)) (ca_now1 (je_start env)) (ca_now2 (je_start env))
      (je_stamp env) (snd e) (w_lb w, w_cm w) = (y, lb, cm)" by (metis prod_cases3)
  have "lb_inv lb"
    using lb_inv_process_begin [of "(w_lb w, w_cm w)" "ca_strategy (je_start env)"] assms(2) y by (metis fst_conv snd_conv world_ok_def)
  then have ok: "world_ok kv pc (w\<lparr>w_lb := lb, w_cm := cm\<rparr>)" using assms(2) by (simp add: world_ok_def)
  have "\<exists>x. r = error_result x" if "y = Inr (Settled rid r)" for rid r
    using y that by (auto simp: process_begin_def Let_def split: option.splits prod.splits sum.splits if_splits)
  then have "wf_json (JDict r)" if "y = Inr (Settled rid r)" for rid r using that wf_error_result by metis
  then show ?thesis
    using ok settle_world [OF assms(1) ok] by (auto simp: begin_job_def y simp del: wf_json.simps split: sum.split job_phase.split)
qed

lemma finish_job_world:
  assumes "sys_laws rd entries pending rank kv members" "world_ok kv pc w" "wf_outcome (ce_outcome c)"
  shows "world_ok kv pc (snd (finish_job rd pc c j w))"
proof -
  let ?c = "c\<lparr>ce_chat := rj_chat j\<rparr>"
  obtain y lb where y: "process_end ?c (rj_id j) (rj_client j) (w_lb w) = (y, lb)" by force
  have lb: "lb = snd (stop_call ?c (rj_client j) (w_lb w))"
    using y by (auto simp: process_end_def split: prod.splits sum.splits)
  then have ok: "world_ok kv pc (w\<lparr>w_lb := lb\<rparr>)" using assms(2) by (simp add: world_ok_def stop_call_inv)
  have "wf_json (JDict r)" if r: "y = Inr (rid, r)" for rid r
  proof (cases "fst (stop_call ?c (rj_client j) (w_lb w))")
    case (Inl e)
    then have "r = error_result e" using y r by (auto simp: process_end_def split: prod.splits if_splits)
    then show ?thesis by (simp only: wf_error_result)
  next
    case (Inr reply)
    then have "r = reply" using y r by (auto simp: process_end_def split: prod.splits)
    then show ?thesis using wf_finish_of [OF stop_call_reply [OF Inr]] assms(3) by simp
  qed
  then show ?thesis
    using ok settle_world [OF assms(1) ok] by (auto simp: finish_job_def y simp del: wf_json.simps split: sum.split)
qed

text \<open>What the environment may do: JSON bodies are JSON values, and the threshold of a breaker is positive.\<close>

fun pool_event_ok :: "pool_event \<Rightarrow> bool" where
  "pool_event_ok (Answered c) = wf_outcome (ce_outcome c)"
| "pool_event_ok (RetryAnswered c) = wf_outcome (ce_outcome c)"
| "pool_event_ok _ = True"

fun sys_event_ok :: "sys_event \<Rightarrow> bool" where
  "sys_event_ok (Request env rq) = env_ok env"
| "sys_event_ok (Pools ev) = pool_event_ok ev"
| "sys_event_ok (Scales env) = list_all event_ok (te_during env)"
| "sys_event_ok _ = True"

lemma pool_step_world:
  assumes laws: "sys_laws rd entries pending rank kv members" and ok: "world_ok kv pc (ps_world st)"
    and ev: "pool_own ev" "pool_event_ok ev"
  shows "world_ok kv pc (ps_world (pool_step rd pc ev st))"
proof -
  note l = sys_lawsD [OF laws]
  have same: "world_ok kv pc ((ps_world st)\<lparr>w_redis := t\<rparr>)" if "kv t = kv (w_redis (ps_world st))" for t
    using ok redis_ok_same [of kv t "w_redis (ps_world st)" pc] that by (simp add: world_ok_def)
  show ?thesis
  proof (cases ev)
    case (Reads env)
    obtain x t where x: "queue_read rd (po_queue pc) 1 (w_redis (ps_world st)) = (x, t)" by force
    have t: "world_ok kv pc ((ps_world st)\<lparr>w_redis := t\<rparr>)" by (rule same [OF keeps_run [OF read_keeps [OF l(4)] x]])
    show ?thesis
    proof (cases "ps_job st")
      case None
      show ?thesis
      proof (cases "\<exists>e es. x = Inr (e # es)")
        case True
        then obtain e es where e: "x = Inr (e # es)" by blast
        then show ?thesis
          using begin_job_world [OF laws t, of env e] None x by (simp add: Reads case_prod_beta)
      next
        case False
        then have "pool_step rd pc ev st = on_world_redis t st"
          using None x by (auto simp: Reads split: sum.split list.split)
        then show ?thesis using t by (simp add: on_world_redis_def)
      qed
    qed (use ok in \<open>simp add: Reads\<close>)
  next
    case (Answered c)
    then show ?thesis
      using ok ev(2) finish_job_world [OF laws ok, of c] by (cases "ps_job st") (simp_all add: case_prod_beta)
  next
    case (Recovers clock)
    have "kv t = kv (w_redis (ps_world st))" if "recover rd (po_policy pc) (po_dead_letter pc) clock (w_redis (ps_world st)) = Some (x, t)" for x t
      by (rule recover_keeps [OF l(4,2) that])
    then show ?thesis using ok same by (auto simp: Recovers on_world_redis_def split: option.split sum.split)
  next
    case (Retries env)
    then show ?thesis
      using ok begin_job_world [OF laws ok] by (auto simp: case_prod_beta split: option.split list.split)
  next
    case (RetryAnswered c)
    then show ?thesis
      using ok ev(2) finish_job_world [OF laws ok, of c] by (cases "ps_retry st") (simp_all add: case_prod_beta)
  qed (use ev(1) in simp_all)
qed

lemma probe_worker_inv:
  assumes "list_all event_ok (te_during env)" "lb_inv lb" shows "lb_inv (probe_worker u env lb)"
proof -
  have "lb_inv (fold lb_apply es lb)" if "list_all event_ok es" for es
    using that assms(2) by (induction es arbitrary: lb) (simp_all add: lb_inv_apply)
  then show ?thesis using assms by (auto simp: probe_worker_def intro!: lb_inv_update_client split: option.split)
qed

lemma scale_up_inv:
  assumes "0 < cb_threshold cfg" "list_all event_ok (te_during env)" "lb_inv (snd s)"
  shows "lb_inv (snd (scale_up cfg n env s))"
proof -
  have add: "lb_inv lb'" if "add_worker cfg u (snd s) = (ok, lb')" for u ok lb'
    using lb_inv_add [OF assms(1,3), of u] that by simp
  show ?thesis
    using assms(3) add probe_worker_inv [OF assms(2)] lb_inv_add [OF assms(1,3)]
    by (auto simp: scale_up_def scale_up_docker_def scale_up_static_def Let_def split: sum.split list.split prod.split)
qed

lemma tick_inv:
  assumes "0 < cb_threshold cfg" "list_all event_ok (te_during env)" "lb_inv (snd s)"
  shows "lb_inv (snd (tick cfg n env q s))"
  using scale_up_inv [OF assms] assms(3) lb_inv_remove [OF assms(3)]
  by (auto simp: tick_def scale_down_def scale_down_docker_def scale_down_static_def Let_def split: sum.split)

definition sys_ok :: "('s \<Rightarrow> string \<Rightarrow> string option) \<Rightarrow> pool_config \<Rightarrow> 's system \<Rightarrow> bool" where
  "sys_ok kv pc s \<longleftrightarrow> gw_ok kv pc (sy_gateway s)
     \<and> (\<forall>(r, gone) \<in> set (sy_replies s). answered_well r \<or> gone \<and> (\<exists>k. r = Inl (KeyError k)))"

lemma poll_step_ok:
  assumes "keyspace_laws rd kv members" "sys_ok kv pc s"
  shows "sys_ok kv pc (poll_step rd pc i s)"
proof -
  let ?g = "sy_gateway s"
  obtain m k where mk: "sy_polls s ! i = (m, k)" by force
  obtain r t where rt: "(if k = 0 then (Inr None, gw_redis ?g)
      else poll_result rd (result_prefix pc @ request_id_of m) (\<lambda>_ t. t) 1 (gw_redis ?g)) = (r, t)" by force
  have ok: "lb_inv (gw_lb ?g)" "redis_ok kv pc (gw_redis ?g)" using assms(2) by (simp_all add: sys_ok_def gw_ok_def)
  have t: "redis_ok kv pc t" "\<exists>j. r = Inr j"
    using rt ok(2) poll_once [OF assms(1) ok(2)] by (auto split: if_splits)
  then have g: "gw_ok kv pc (on_redis t ?g)" using ok(1) by (simp add: gw_ok_on(2))
  then have "route_ok kv pc (queued_reply m r (on_redis t ?g))" using t(2) queued_reply_ok by metis
  then show ?thesis
    using assms(2) g rt mk by (auto simp: poll_step_def sys_ok_def route_ok_def Let_def split: prod.split)
qed

lemma compress_step_shape:
  obtains sm where "compress_step cfg i n1 n2 s =
    s\<lparr>sy_gateway := snd (compress_task_begin cfg n1 n2 (background (sy_gateway s) ! i)
         ((sy_gateway s)\<lparr>background := drop_nth i (background (sy_gateway s))\<rparr>)), sy_summaries := sm\<rparr>"
proof -
  obtain x g' where x: "compress_task_begin cfg n1 n2 (background (sy_gateway s) ! i)
      ((sy_gateway s)\<lparr>background := drop_nth i (background (sy_gateway s))\<rparr>) = (x, g')" by force
  show thesis
  proof (cases "\<exists>y. x = Inr (Some y)")
    case True
    then obtain olds w body where "x = Inr (Some (olds, w, body))" by auto
    then show thesis using x by (intro that) (simp add: compress_step_def Let_def)
  next
    case False
    then show thesis
      using x by (intro that [of "sy_summaries s"]) (auto simp: compress_step_def Let_def split: sum.split option.split)
  qed
qed

lemma sys_step_ok:
  assumes laws: "sys_laws rd entries pending rank kv members" and c: "0 < cb_threshold (sc_balancer c)"
    and ok: "sys_ok kv (sc_pool c) s" and ev: "sys_event_ok ev"
  shows "sys_ok kv (sc_pool c) (sys_step rd c ev s)"
proof -
  let ?pc = "sc_pool c" and ?g = "sy_gateway s"
  note l = sys_lawsD [OF laws]
  have g: "gw_ok kv ?pc ?g" using ok by (simp add: sys_ok_def)
  show ?thesis
  proof (cases ev)
    case (Request env rq)
    obtain x g' where x: "http_begin rd ?pc (sc_gateway c) env rq ?g = (x, g')" by force
    have "step_ok x \<and> gw_ok kv ?pc g'" using http_begin_ok [OF laws g _ x] ev Request by simp
    then show ?thesis using ok by (auto simp: Request x sys_ok_def step_ok_def split: http_step.split)
  next
    case (Answer i ce)
    obtain x g' where x: "end_request ce (sy_running s ! i) ?g = (x, g')" by force
    have "map_sum id JDict x = Inl e \<longleftrightarrow> x = Inl e" for e :: py_exc by (cases x) auto
    with end_request_ok [OF g x] show ?thesis using ok by (auto simp: Answer x sys_ok_def)
  next
    case (Polls i)
    then show ?thesis using ok poll_step_ok [OF l(1) ok] by simp
  next
    case (Compresses i n1 n2)
    let ?popped = "?g\<lparr>background := drop_nth i (background ?g)\<rparr>"
    have "gw_ok kv ?pc ?popped" using g by (simp add: gw_ok_def)
    then have b: "gw_ok kv ?pc (snd (compress_task_begin (sc_gateway c) n1 n2 (background ?g ! i) ?popped))" by (rule compress_begin_ok)
    obtain sm where "compress_step (sc_gateway c) i n1 n2 s =
        s\<lparr>sy_gateway := snd (compress_task_begin (sc_gateway c) n1 n2 (background ?g ! i) ?popped), sy_summaries := sm\<rparr>"
      by (rule compress_step_shape)
    then have "sys_ok kv ?pc (compress_step (sc_gateway c) i n1 n2 s)" using b ok by (simp add: sys_ok_def)
    then show ?thesis using ok by (simp add: Compresses)
  next
    case (Summarised i inc st ce)
    then show ?thesis using ok compress_end_ok [OF g] by (auto simp: sys_ok_def split: prod.split)
  next
    case (Pools pev)
    have "world_ok kv ?pc (ps_world ((sy_pool s)\<lparr>ps_world := gw ?g\<rparr>))" using g by (simp add: gw_ok_world)
    from pool_step_world [OF laws this, of pev] show ?thesis
      using ok ev Pools by (simp add: sys_ok_def Let_def gw_ok_world)
  next
    case (Scales env)
    have inv: "lb_inv (gw_lb ?g)" using g by (simp add: gw_ok_def)
    obtain y t where y: "r_llen rd (queue_key (sy_scaler s)) (gw_redis ?g) = (y, t)" by force
    have "kv t = kv (gw_redis ?g)" by (rule keeps_run [OF keys_apartD(5) [OF l(4)] y])
    then have t: "redis_ok kv ?pc t" using g redis_ok_same [of kv t "gw_redis ?g" ?pc] by (simp add: gw_ok_def)
    obtain a lb where p: "scaler_pass rd (sc_balancer c) (sc_workers c) env (gw_redis ?g) (sy_scaler s, gw_lb ?g) = ((a, lb), t)"
      using y by (cases y) (simp_all add: scaler_pass_def scaler_depth_def, metis surj_pair)
    have "lb_inv (snd (tick (sc_balancer c) (sc_workers c) env q (sy_scaler s, gw_lb ?g)))" for q
      using tick_inv [OF c] ev Scales inv by simp
    then have "lb_inv lb" using p inv y by (cases y) (simp_all add: scaler_pass_def scaler_depth_def, metis snd_conv)
    then show ?thesis using ok t by (simp add: Scales p sys_ok_def gw_ok_on)
  next
    case (Probes probe i)
    have "lb_inv (probe_done probe i (gw_lb ?g))"
      using g unfolding probe_done_def gw_ok_def by (intro lb_inv_update_client) simp_all
    then show ?thesis using ok g by (simp add: Probes sys_ok_def gw_ok_on(1)) (simp add: gw_ok_def)
  qed
qed

text \<open>Every request that has a route is answered, or waits for its worker, or polls.\<close>

fun routed :: "sys_event \<Rightarrow> bool" where
  "routed (Request env rq) = (find_route (hq_method rq) (hq_path rq) \<noteq> None)"
| "routed _ = False"

definition open_requests :: "'s system \<Rightarrow> nat" where
  "open_requests s = length (sy_replies s) + length (sy_running s) + length (sy_polls s)"

lemma framework_iff: "fst (http_begin rd pc cfg env rq g) = Framework \<longleftrightarrow> find_route (hq_method rq) (hq_path rq) = None"
  by (auto simp: http_begin_def Let_def replied_def awaits_worker_def awaits_queue_def with_request_def
      split: option.split route.split sum.split prod.split)

lemma length_drop_nth: "i < length xs \<Longrightarrow> Suc (length (drop_nth i xs)) = length xs"
  by (simp add: drop_nth_def)

lemma sys_step_count: "open_requests (sys_step rd c ev s) = open_requests s + (if routed ev then 1 else 0)"
proof (cases ev)
  case (Request env rq)
  then show ?thesis
    using framework_iff [of rd "sc_pool c" "sc_gateway c" env rq "sy_gateway s"]
    by (auto simp: open_requests_def split: prod.split http_step.split)
next
  case (Answer i ce)
  then show ?thesis using length_drop_nth [of i "sy_running s"] by (auto simp: open_requests_def split: prod.split)
next
  case (Polls i)
  then show ?thesis
    using length_drop_nth [of i "sy_polls s"] by (auto simp: open_requests_def poll_step_def Let_def split: prod.split)
next
  case (Compresses i n1 n2)
  show ?thesis by (rule compress_step_shape [of "sc_gateway c" i n1 n2 s]) (simp add: Compresses open_requests_def)
qed (auto simp: open_requests_def Let_def split: prod.split)

lemma run_system_ok:
  assumes "sys_laws rd entries pending rank kv members" "0 < cb_threshold (sc_balancer c)"
  shows "sys_ok kv (sc_pool c) s \<Longrightarrow> list_all sys_event_ok evs \<Longrightarrow>
    sys_ok kv (sc_pool c) (fold (sys_step rd c) evs s)
    \<and> open_requests (fold (sys_step rd c) evs s) = open_requests s + length (filter routed evs)"
proof (induction evs arbitrary: s)
  case (Cons ev evs)
  have "sys_ok kv (sc_pool c) (sys_step rd c ev s)" using sys_step_ok [OF assms Cons.prems(1)] Cons.prems(2) by simp
  from Cons.IH [OF this] Cons.prems(2) show ?case by (simp add: sys_step_count)
qed simp

lemma result_key_apart: "result_prefix (new_pool grp retries idle hex) @ x \<noteq> worker_key i"
  by (simp add: new_pool_def worker_key_def Let_def)

section \<open>Properties\<close>


definition demo_system :: sys_config where
  "demo_system = \<lparr>sc_pool = new_pool ''g'' 3 30000 ''abc'', sc_gateway = demo_settings, sc_balancer = demo_config, sc_workers = 1\<rparr>"

definition demo_events :: "sys_event list" where
  "demo_events = [Request demo_http_env demo_delete, Probes (\<lambda>_. Status 200) 0,
     Request demo_http_env \<lparr>hq_method = GET, hq_path = ''/nowhere'', hq_key = None, hq_body = JNull\<rparr>]"


end
