(* ===== verification/CommandLine.thy ===== *)
theory CommandLine
  imports WorkerAgent LoadRun
begin

text \<open>
  The command lines of the scripts: what \<^verbatim>\<open>argparse\<close> makes of the arguments for parsers without positional
  arguments, and the parsers themselves with the defaults they give. A value is JSON: a number, a text, a
  flag, a list, or null. The numbers \<open>inf\<close> and \<open>nan\<close> and the options in one word behind \<open>-h\<close> are left out.
\<close>

section \<open>Options\<close>

datatype arg_type = TStr | TInt | TFloat

datatype arg_action = Store arg_type | StoreTrue | AppendStr

record arg_spec =
  as_flags :: "string list"
  as_action :: arg_action
  as_default :: json
  as_required :: bool
  as_choices :: "string list option"

text \<open>\<open>add_argument\<close> for a plain option, a flag, and the two rarer kinds.\<close>

definition opt :: "string \<Rightarrow> arg_type \<Rightarrow> json \<Rightarrow> arg_spec" where
  "opt f ty d = \<lparr>as_flags = [f], as_action = Store ty, as_default = d, as_required = False, as_choices = None\<rparr>"

definition switch :: "string \<Rightarrow> arg_spec" where
  "switch f = \<lparr>as_flags = [f], as_action = StoreTrue, as_default = JBool False, as_required = False, as_choices = None\<rparr>"

definition required_opt :: "string \<Rightarrow> arg_spec" where
  "required_opt f = (opt f TStr JNull)\<lparr>as_required := True\<rparr>"

text \<open>The attribute: the first long flag without its dashes, inner dashes turned to underscores, else the short flag.\<close>

definition dest_of :: "arg_spec \<Rightarrow> string" where
  "dest_of sp =
     (case filter (prefix ''--'') (as_flags sp) of
        l # _ \<Rightarrow> map (\<lambda>c. if c = CHR ''-'' then CHR ''_'' else c) (drop 2 l)
      | [] \<Rightarrow> drop 1 (hd (as_flags sp)))"

section \<open>Values\<close>

definition split_first :: "char set \<Rightarrow> string \<Rightarrow> string \<times> string option" where
  "split_first C s =
     (case dropWhile (\<lambda>c. c \<notin> C) s of [] \<Rightarrow> (s, None) | _ # r \<Rightarrow> (takeWhile (\<lambda>c. c \<notin> C) s, Some r))"

definition signed :: "string \<Rightarrow> bool \<times> string" where
  "signed s = (case s of CHR ''-'' # r \<Rightarrow> (True, r) | CHR ''+'' # r \<Rightarrow> (False, r) | _ \<Rightarrow> (False, s))"

text \<open>A decimal with the fewest places, one at least.\<close>

fun shortest :: "int \<Rightarrow> nat \<Rightarrow> json" where
  "shortest m 0 = JFloat (m * 10) 1"
| "shortest m (Suc 0) = JFloat m 1"
| "shortest m (Suc (Suc k)) = (if m mod 10 = 0 then shortest (m div 10) (Suc k) else JFloat m (Suc (Suc k)))"

text \<open>\<open>float(s)\<close>: digits with an optional point, an optional exponent, underscores between digits.\<close>

definition digit_part :: "string \<Rightarrow> int option" where
  "digit_part s = (if s = [] then Some 0 else digits_value 0 False s)"

definition float_value :: "bool \<Rightarrow> string \<Rightarrow> string \<Rightarrow> int \<Rightarrow> json option" where
  "float_value neg ip fp ex =
     (if ip = [] \<and> fp = [] then None
      else case (digit_part ip, digit_part fp) of
        (Some a, Some b) \<Rightarrow>
          (let k = length (filter is_digit fp); m = (if neg then - 1 else 1) * (a * 10 ^ k + b); e = ex - int k
           in Some (if 0 \<le> e then shortest (m * 10 ^ nat e) 0 else shortest m (nat (- e))))
      | _ \<Rightarrow> None)"

definition py_float_text :: "string \<Rightarrow> json option" where
  "py_float_text s =
     (let (neg, b) = signed (strip s);
          (mant, ex) = split_first {CHR ''e'', CHR ''E''} b;
          (ip, fp) = split_first {CHR ''.''} mant;
          f = (case fp of None \<Rightarrow> [] | Some x \<Rightarrow> x)
      in case ex of
           None \<Rightarrow> float_value neg ip f 0
         | Some x \<Rightarrow> (case digits_value 0 False (snd (signed x)) of
               None \<Rightarrow> None
             | Some n \<Rightarrow> float_value neg ip f (if fst (signed x) then - n else n)))"

definition convert :: "arg_type \<Rightarrow> string \<Rightarrow> json option" where
  "convert ty s =
     (case ty of
        TStr \<Rightarrow> Some (JStr s)
      | TInt \<Rightarrow> (case py_int s of Inl _ \<Rightarrow> None | Inr n \<Rightarrow> Some (JInt n))
      | TFloat \<Rightarrow> py_float_text s)"

definition allowed :: "arg_spec \<Rightarrow> string \<Rightarrow> bool" where
  "allowed sp s = (case as_choices sp of None \<Rightarrow> True | Some cs \<Rightarrow> s \<in> set cs)"

section \<open>Words\<close>

datatype word_kind =
    Option_word arg_spec "string option"
  | Help_word "string option"
  | Ambiguous_word
  | Unknown_word
  | Plain_word string
  | Dashes_word

definition all_flags :: "arg_spec list \<Rightarrow> (string \<times> arg_spec option) list" where
  "all_flags specs = concat (map (\<lambda>sp. map (\<lambda>f. (f, Some sp)) (as_flags sp)) specs) @ [(''-h'', None), (''--help'', None)]"

definition found :: "arg_spec option \<Rightarrow> string option \<Rightarrow> word_kind" where
  "found o' v = (case o' of None \<Rightarrow> Help_word v | Some sp \<Rightarrow> Option_word sp v)"

text \<open>
  A flag may be shortened as long as one flag starts with it, and its value may follow an equals sign;
  the value of a short flag may follow it directly.
\<close>

definition abbreviated :: "arg_spec list \<Rightarrow> string \<Rightarrow> (arg_spec option \<times> string option) list" where
  "abbreviated specs s =
     (if prefix ''--'' s
      then (case split_first {CHR ''=''} s of
              (nm, v) \<Rightarrow> map (\<lambda>(f, o'). (o', v)) (filter (\<lambda>(f, o'). prefix nm f) (all_flags specs)))
      else concat (map (\<lambda>(f, o'). if f = take 2 s then [(o', Some (drop 2 s))]
                                  else if prefix s f then [(o', None)] else []) (all_flags specs)))"

definition looks_negative :: "string \<Rightarrow> bool" where
  "looks_negative s =
     (case s of
        CHR ''-'' # r \<Rightarrow>
          (case split_first {CHR ''.''} r of
             (a, None) \<Rightarrow> a \<noteq> [] \<and> list_all is_digit a
           | (a, Some b) \<Rightarrow> list_all is_digit a \<and> b \<noteq> [] \<and> list_all is_digit b)
      | _ \<Rightarrow> False)"

definition word_of :: "arg_spec list \<Rightarrow> string \<Rightarrow> word_kind" where
  "word_of specs s =
     (if s = [] \<or> hd s \<noteq> CHR ''-'' then Plain_word s
      else case map_of (all_flags specs) s of
        Some o' \<Rightarrow> found o' None
      | None \<Rightarrow>
          (if s = ''-'' then Plain_word s
          else case (case split_first {CHR ''=''} s of
                       (nm, Some v) \<Rightarrow> map_option (\<lambda>o'. found o' (Some v)) (map_of (all_flags specs) nm)
                     | (nm, None) \<Rightarrow> None) of
            Some w \<Rightarrow> w
          | None \<Rightarrow>
              (case abbreviated specs s of
                 [(o', v)] \<Rightarrow> found o' v
               | _ # _ # _ \<Rightarrow> Ambiguous_word
               | [] \<Rightarrow> if looks_negative s \<or> CHR '' '' \<in> set s then Plain_word s else Unknown_word)))"

text \<open>Everything behind \<open>--\<close> is a plain word.\<close>

fun words_of :: "arg_spec list \<Rightarrow> string list \<Rightarrow> word_kind list" where
  "words_of specs [] = []"
| "words_of specs (s # ss) =
     (if s = ''--'' then Dashes_word # map Plain_word ss else word_of specs s # words_of specs ss)"

section \<open>Parsing\<close>

datatype 'a command = Runs 'a | Help_shown | Usage_error

text \<open>The word that follows an option: \<open>--\<close> is not skipped for it.\<close>

fun value_word :: "word_kind list \<Rightarrow> (string \<times> word_kind list) option" where
  "value_word (Plain_word v # ws) = Some (v, ws)"
| "value_word _ = None"

definition store_value :: "arg_spec \<Rightarrow> string \<Rightarrow> json pydict \<Rightarrow> json pydict option" where
  "store_value sp v ns =
     (case as_action sp of
        StoreTrue \<Rightarrow> None
      | Store ty \<Rightarrow>
          (case convert ty v of
             None \<Rightarrow> None
           | Some j \<Rightarrow> if allowed sp v then Some (AList.update (dest_of sp) j ns) else None)
      | AppendStr \<Rightarrow>
          (if allowed sp v
           then Some (AList.update (dest_of sp)
                  (case map_of ns (dest_of sp) of Some (JList js) \<Rightarrow> JList (js @ [JStr v]) | _ \<Rightarrow> JList [JStr v]) ns)
           else None))"

lemma value_word_shorter: "value_word ws = Some (v, ws') \<Longrightarrow> length ws' < length ws"
  by (induction ws rule: value_word.induct) auto

text \<open>\<open>seen\<close> are the options that were given, \<open>rest\<close> tells whether a word was left over.\<close>

function parse_words ::
  "arg_spec list \<Rightarrow> word_kind list \<Rightarrow> json pydict \<Rightarrow> arg_spec list \<Rightarrow> bool \<Rightarrow> json pydict command" where
  "parse_words specs [] ns seen rest =
     (if rest \<or> (\<exists>sp \<in> set specs. as_required sp \<and> sp \<notin> set seen) then Usage_error else Runs ns)"
| "parse_words specs (Option_word sp (Some v) # ws) ns seen rest =
     (case store_value sp v ns of None \<Rightarrow> Usage_error | Some ns' \<Rightarrow> parse_words specs ws ns' (sp # seen) rest)"
| "parse_words specs (Option_word sp None # ws) ns seen rest =
     (if as_action sp = StoreTrue
      then parse_words specs ws (AList.update (dest_of sp) (JBool True) ns) (sp # seen) rest
      else case value_word ws of
             None \<Rightarrow> Usage_error
           | Some (v, ws') \<Rightarrow>
               (case store_value sp v ns of None \<Rightarrow> Usage_error | Some ns' \<Rightarrow> parse_words specs ws' ns' (sp # seen) rest))"
| "parse_words specs (Help_word None # ws) ns seen rest = Help_shown"
| "parse_words specs (Help_word (Some v) # ws) ns seen rest = Usage_error"
| "parse_words specs (Ambiguous_word # ws) ns seen rest = Usage_error"
| "parse_words specs (Unknown_word # ws) ns seen rest = parse_words specs ws ns seen True"
| "parse_words specs (Plain_word v # ws) ns seen rest = parse_words specs ws ns seen True"
| "parse_words specs (Dashes_word # ws) ns seen rest = parse_words specs ws ns seen True"
  by pat_completeness auto
termination
  by (relation "measure (\<lambda>(specs, ws, _). length ws)") (auto dest: value_word_shorter)

definition defaults_of :: "arg_spec list \<Rightarrow> json pydict" where
  "defaults_of specs = map (\<lambda>sp. (dest_of sp, as_default sp)) specs"

definition parse_args :: "arg_spec list \<Rightarrow> string list \<Rightarrow> json pydict command" where
  "parse_args specs argv = parse_words specs (words_of specs argv) (defaults_of specs) [] False"

fun map_command :: "('a \<Rightarrow> 'b) \<Rightarrow> 'a command \<Rightarrow> 'b command" where
  "map_command f (Runs x) = Runs (f x)"
| "map_command f Help_shown = Help_shown"
| "map_command f Usage_error = Usage_error"

section \<open>The parsers\<close>

text \<open>\<open>home\<close> is the default of \<open>--state-dir\<close>, a directory of the user's home.\<close>

definition agent_options :: "string \<Rightarrow> arg_spec list" where
  "agent_options home =
     [required_opt ''--gateway-url'', required_opt ''--api-key'',
      opt ''--ollama-url'' TStr (JStr ''http://localhost:11434''), opt ''--worker-url'' TStr JNull, opt ''--name'' TStr JNull,
      opt ''--worker-id'' TStr JNull, opt ''--state-dir'' TStr (JStr home), opt ''--interval'' TFloat (JFloat 300 1),
      opt ''--ram-gb'' TFloat JNull, opt ''--vram-gb'' TFloat JNull, switch ''--no-gpu'', switch ''--once'',
      switch ''--no-deregister-on-exit'']"

definition bench_options :: "arg_spec list" where
  "bench_options =
     [opt ''-n'' TInt (JInt 20), (opt ''-c'' TInt (JInt 5))\<lparr>as_flags := [''-c'', ''--concurrency'']\<rparr>,
      opt ''--base-url'' TStr (JStr ''http://localhost:8000''), opt ''--endpoint'' TStr (JStr ''/api/v1/generate''),
      opt ''--api-key'' TStr (JStr ''dev-key''), opt ''--model'' TStr (JStr ''llama3:latest''),
      opt ''--prompt'' TStr (JStr ''In one sentence, what is a load balancer?''), opt ''--timeout'' TFloat (JFloat 1800 1)]"

definition smoke_options :: "arg_spec list" where
  "smoke_options =
     [opt ''--base-url'' TStr (JStr ''http://localhost:8000''), opt ''--api-key'' TStr (JStr ''dev-key''),
      opt ''--model'' TStr (JStr ''llama3:latest''), switch ''--skip-inference'', opt ''--inference-timeout'' TFloat (JFloat 1800 1)]"

definition simulate_options :: "arg_spec list" where
  "simulate_options =
     [opt ''--agents'' TInt (JInt 5),
      (opt ''--workload'' TStr (JStr ''mixed''))\<lparr>as_choices := Some [''coding'', ''research'', ''batch'', ''mixed'']\<rparr>,
      opt ''--duration'' TFloat (JFloat 300 1), opt ''--arrival-rate'' TFloat (JFloat 0 1),
      opt ''--base-url'' TStr (JStr ''http://localhost:8000''), opt ''--api-key'' TStr (JStr ''dev-key''),
      opt ''--model'' TStr (JStr ''llama3:latest''), opt ''--timeout'' TFloat (JFloat 1800 1)]"

definition selection_options :: "arg_spec list" where
  "selection_options = [opt ''--steps'' TInt (JInt 30), opt ''--budget'' TInt (JInt 4000), opt ''--seed'' TInt (JInt 42)]"

definition coding_options :: "arg_spec list" where
  "coding_options =
     [opt ''--base-url'' TStr (JStr ''http://localhost:8000''), opt ''--api-key'' TStr (JStr ''dev-key''),
      opt ''--model'' TStr (JStr ''llama3:latest'')]"

definition runner_options :: "arg_spec list" where
  "runner_options =
     [\<lparr>as_flags = [''--only''], as_action = AppendStr, as_default = JNull, as_required = False, as_choices = Some experiment_names\<rparr>,
      opt ''--base-url'' TStr (JStr ''http://localhost:8000''), opt ''--model'' TStr (JStr ''llama3:latest'')]"

definition budgeting_options :: "arg_spec list" where
  "budgeting_options =
     [opt ''--base-url'' TStr (JStr ''http://localhost:11434''), opt ''--model'' TStr (JStr ''llama3:latest''),
      opt ''--budget'' TInt (JInt 400)]"

definition bursts_options :: "arg_spec list" where
  "bursts_options =
     [opt ''--base-url'' TStr (JStr ''http://localhost:8000''), opt ''--model'' TStr (JStr ''llama3:latest'')]"

section \<open>The programs\<close>

definition ns_str :: "json pydict \<Rightarrow> string \<Rightarrow> string" where
  "ns_str ns k = (case map_of ns k of Some (JStr s) \<Rightarrow> s | _ \<Rightarrow> [])"

definition ns_opt :: "json pydict \<Rightarrow> string \<Rightarrow> string option" where
  "ns_opt ns k = (case map_of ns k of Some (JStr s) \<Rightarrow> Some s | _ \<Rightarrow> None)"

definition ns_number :: "json pydict \<Rightarrow> string \<Rightarrow> json option" where
  "ns_number ns k = (case map_of ns k of Some (JFloat m p) \<Rightarrow> Some (JFloat m p) | _ \<Rightarrow> None)"

definition ns_flag :: "json pydict \<Rightarrow> string \<Rightarrow> bool" where
  "ns_flag ns k = (map_of ns k = Some (JBool True))"

definition ns_int :: "json pydict \<Rightarrow> string \<Rightarrow> int" where
  "ns_int ns k = (case map_of ns k of Some (JInt i) \<Rightarrow> i | _ \<Rightarrow> 0)"

definition agent_args_of :: "json pydict \<Rightarrow> agent_args" where
  "agent_args_of ns =
     \<lparr>ar_gateway_key = ns_opt ns ''api_key'', ar_ollama_url = ns_str ns ''ollama_url'', ar_worker_url = ns_opt ns ''worker_url'',
      ar_name = ns_opt ns ''name'', ar_worker_id = ns_opt ns ''worker_id'', ar_ram_gb = ns_number ns ''ram_gb'',
      ar_vram_gb = ns_number ns ''vram_gb'', ar_no_gpu = ns_flag ns ''no_gpu'', ar_once = ns_flag ns ''once'',
      ar_no_deregister = ns_flag ns ''no_deregister_on_exit''\<rparr>"

text \<open>The agent; \<open>argparse\<close> exits with 0 after the help and with 2 on a usage error.\<close>

definition agent_main ::
  "'s redis \<Rightarrow> gw_settings \<Rightarrow> (string \<Rightarrow> string) \<Rightarrow> string \<Rightarrow> string list \<Rightarrow> agent_host \<Rightarrow> beat \<Rightarrow> beat list \<Rightarrow> bool
     \<Rightarrow> string option \<times> 's gateway \<Rightarrow> agent_end \<times> (string option \<times> 's gateway)" where
  "agent_main rd cfg url_path home argv ah b bs goodbye s =
     (case parse_args (agent_options home) argv of
        Runs ns \<Rightarrow> agent_run rd cfg url_path (agent_args_of ns) ah b bs goodbye s
      | Help_shown \<Rightarrow> (Exited 0, s)
      | Usage_error \<Rightarrow> (Exited 2, s))"

text \<open>The seed decides the draws.\<close>

definition selection_main :: "(nat \<Rightarrow> stamp) \<Rightarrow> (int \<Rightarrow> int \<Rightarrow> draw list) \<Rightarrow> string list \<Rightarrow> policy_row list result command" where
  "selection_main st rng argv =
     map_command (\<lambda>ns. selection_benchmark st (rng (ns_int ns ''seed'') (ns_int ns ''steps'')) (ns_int ns ''budget''))
       (parse_args selection_options argv)"

definition runner_main :: "(string \<Rightarrow> string \<Rightarrow> runner_env) \<Rightarrow> string list \<Rightarrow> experiment_rows list result command" where
  "runner_main env argv =
     map_command (\<lambda>ns. run_all (env (ns_str ns ''base_url'') (ns_str ns ''model''))
         (chosen_names (case map_of ns ''only'' of Some (JList js) \<Rightarrow> Some (map (\<lambda>j. case j of JStr s \<Rightarrow> s | _ \<Rightarrow> []) js) | _ \<Rightarrow> None)))
       (parse_args runner_options argv)"

section \<open>Lemmas\<close>

text \<open>A word \<open>--flag=value\<close> is read as this flag with this value, whatever the value.\<close>

lemma split_first_here: "set n \<inter> C = {} \<Longrightarrow> c \<in> C \<Longrightarrow> split_first C (n @ c # v) = (n, Some v)"
  by (induction n) (auto simp: split_first_def split: list.splits)

definition specs_ok :: "arg_spec list \<Rightarrow> bool" where
  "specs_ok specs \<longleftrightarrow> (\<forall>f \<in> set (map fst (all_flags specs)). CHR ''='' \<notin> set f \<and> f \<noteq> ''--'' \<and> prefix ''-'' f \<and> f \<noteq> ''-'')
     \<and> distinct (map fst (all_flags specs))"

lemma map_of_flags:
  assumes "specs_ok specs" "sp \<in> set specs" "f \<in> set (as_flags sp)"
  shows "map_of (all_flags specs) f = Some (Some sp)"
  using assms by (intro map_of_is_SomeI) (auto simp: specs_ok_def all_flags_def)

lemma word_of_value:
  assumes "specs_ok specs" "sp \<in> set specs" "f \<in> set (as_flags sp)"
  shows "word_of specs (f @ CHR ''='' # v) = Option_word sp (Some v)"
proof -
  have in_f: "f \<in> set (map fst (all_flags specs))" using assms(2,3) by (force simp: all_flags_def)
  have f: "CHR ''='' \<notin> set f" "prefix ''-'' f" using in_f assms(1) unfolding specs_ok_def by blast+
  then obtain r where r: "f = CHR ''-'' # r" by (auto simp: prefix_def)
  have "map_of (all_flags specs) (f @ CHR ''='' # v) = None"
  proof (rule ccontr)
    assume "map_of (all_flags specs) (f @ CHR ''='' # v) \<noteq> None"
    then have "f @ CHR ''='' # v \<in> set (map fst (all_flags specs))" by (auto dest!: map_of_SomeD simp: image_iff) force
    then have "CHR ''='' \<notin> set (f @ CHR ''='' # v)" using assms(1) unfolding specs_ok_def by blast
    then show False by simp
  qed
  moreover have "split_first {CHR ''=''} (f @ CHR ''='' # v) = (f, Some v)" by (rule split_first_here) (use f(1) in auto)
  ultimately show ?thesis using map_of_flags [OF assms] by (simp add: word_of_def r found_def)
qed

lemma word_of_flag:
  assumes "specs_ok specs" "sp \<in> set specs" "f \<in> set (as_flags sp)"
  shows "word_of specs f = Option_word sp None" "f \<noteq> ''--''"
proof -
  have in_f: "f \<in> set (map fst (all_flags specs))" using assms(2,3) by (force simp: all_flags_def)
  then have f: "prefix ''-'' f" "f \<noteq> ''--''" using assms(1) unfolding specs_ok_def by blast+
  then obtain r where r: "f = CHR ''-'' # r" by (auto simp: prefix_def)
  show "word_of specs f = Option_word sp None" using map_of_flags [OF assms] by (simp add: word_of_def r found_def)
  show "f \<noteq> ''--''" by (rule f(2))
qed

text \<open>An argument as it is meant: a flag, and its value unless it is a switch.\<close>

definition rendered :: "string \<times> string option \<Rightarrow> string" where
  "rendered a = (case snd a of None \<Rightarrow> fst a | Some v \<Rightarrow> fst a @ CHR ''='' # v)"

definition meant_as :: "arg_spec list \<Rightarrow> arg_spec \<times> string \<times> string option \<Rightarrow> bool" where
  "meant_as specs a \<longleftrightarrow> (case a of (sp, f, v) \<Rightarrow> sp \<in> set specs \<and> f \<in> set (as_flags sp) \<and> (v = None \<longleftrightarrow> as_action sp = StoreTrue))"

fun stored :: "(arg_spec \<times> string \<times> string option) list \<Rightarrow> json pydict \<Rightarrow> json pydict option" where
  "stored [] ns = Some ns"
| "stored ((sp, f, None) # as) ns = stored as (AList.update (dest_of sp) (JBool True) ns)"
| "stored ((sp, f, Some v) # as) ns = (case store_value sp v ns of None \<Rightarrow> None | Some ns' \<Rightarrow> stored as ns')"

lemma parse_rendered:
  assumes ok: "specs_ok specs"
  shows "\<forall>a \<in> set as. meant_as specs a \<Longrightarrow> stored as ns = Some ns' \<Longrightarrow>
    \<forall>sp \<in> set specs. as_required sp \<longrightarrow> sp \<in> set seen \<union> fst ` set as \<Longrightarrow>
    parse_words specs (words_of specs (map (rendered \<circ> snd) as)) ns seen False = Runs ns'"
proof (induction as arbitrary: ns seen)
  case (Cons a as)
  obtain sp f v where a: "a = (sp, f, v)" by (cases a)
  have sp: "sp \<in> set specs" "f \<in> set (as_flags sp)" "v = None \<longleftrightarrow> as_action sp = StoreTrue"
    using Cons.prems(1) by (simp_all add: a meant_as_def)
  show ?case
  proof (cases v)
    case None
    have "parse_words specs (words_of specs (map (rendered \<circ> snd) as)) (AList.update (dest_of sp) (JBool True) ns) (sp # seen) False = Runs ns'"
      by (rule Cons.IH) (use Cons.prems a None in auto)
    moreover have "rendered (f, None) = f" by (simp add: rendered_def)
    ultimately show ?thesis using word_of_flag [OF ok sp(1,2)] sp(3) None by (simp add: a comp_def)
  next
    case (Some w)
    obtain ns1 where ns1: "store_value sp w ns = Some ns1" "stored as ns1 = Some ns'"
      using Cons.prems(2) by (auto simp: a Some split: option.splits)
    have "parse_words specs (words_of specs (map (rendered \<circ> snd) as)) ns1 (sp # seen) False = Runs ns'"
      by (rule Cons.IH) (use Cons.prems a ns1 in auto)
    moreover have "f @ CHR ''='' # w \<noteq> ''--''"
    proof
      assume "f @ CHR ''='' # w = ''--''"
      then have "CHR ''='' \<in> set ''--''" by (metis in_set_conv_decomp)
      then show False by simp
    qed
    moreover have "rendered (f, Some w) = f @ CHR ''='' # w" by (simp add: rendered_def)
    ultimately show ?thesis using word_of_value [OF ok sp(1,2), of w] ns1(1) by (simp add: a Some comp_def)
  qed
qed simp

section \<open>The agent's command line\<close>

text \<open>The options of one run: a text for every option that is given, and the switches.\<close>

definition given :: "string \<Rightarrow> arg_type \<Rightarrow> json \<Rightarrow> string option \<Rightarrow> (arg_spec \<times> string \<times> string option) list" where
  "given f ty d v = (case v of None \<Rightarrow> [] | Some s \<Rightarrow> [(opt f ty d, f, Some s)])"

definition switched :: "string \<Rightarrow> bool \<Rightarrow> (arg_spec \<times> string \<times> string option) list" where
  "switched f b = (if b then [(switch f, f, None)] else [])"

definition agent_command ::
  "string \<Rightarrow> string \<Rightarrow> string \<Rightarrow> agent_args \<Rightarrow> string option \<Rightarrow> string option \<Rightarrow> (arg_spec \<times> string \<times> string option) list" where
  "agent_command home u k ar ram vram =
     [(required_opt ''--gateway-url'', ''--gateway-url'', Some u), (required_opt ''--api-key'', ''--api-key'', Some k)]
     @ given ''--ollama-url'' TStr (JStr ''http://localhost:11434'') (Some (ar_ollama_url ar))
     @ given ''--worker-url'' TStr JNull (ar_worker_url ar)
     @ given ''--name'' TStr JNull (ar_name ar)
     @ given ''--worker-id'' TStr JNull (ar_worker_id ar)
     @ given ''--ram-gb'' TFloat JNull ram
     @ given ''--vram-gb'' TFloat JNull vram
     @ switched ''--no-gpu'' (ar_no_gpu ar) @ switched ''--once'' (ar_once ar)
     @ switched ''--no-deregister-on-exit'' (ar_no_deregister ar)"

text \<open>\<open>--ram-gb\<close> in a text that is read as this number.\<close>

definition number_text :: "string option \<Rightarrow> json option \<Rightarrow> bool" where
  "number_text s j = (case (s, j) of
      (None, None) \<Rightarrow> True
    | (Some x, Some (JFloat m p)) \<Rightarrow> py_float_text x = Some (JFloat m p)
    | _ \<Rightarrow> False)"

lemma agent_options_ok: "specs_ok (agent_options home)"
  by (simp add: specs_ok_def agent_options_def all_flags_def opt_def switch_def required_opt_def)

definition put_opt :: "string \<Rightarrow> json option \<Rightarrow> json pydict \<Rightarrow> json pydict" where
  "put_opt k j ns = (case j of None \<Rightarrow> ns | Some x \<Rightarrow> AList.update k x ns)"

lemma map_of_put_opt: "map_of (put_opt k j ns) k' = (if k = k' \<and> j \<noteq> None then j else map_of ns k')"
  by (auto simp: put_opt_def update_conv' split: option.splits)

lemma stored_given_str:
  "stored (given f TStr d v @ as) ns = stored as (put_opt (dest_of (opt f TStr d)) (map_option JStr v) ns)"
  by (auto simp: given_def put_opt_def store_value_def opt_def convert_def allowed_def split: option.splits)

lemma stored_given_float:
  assumes "number_text s j"
  shows "stored (given f TFloat d s @ as) ns = stored as (put_opt (dest_of (opt f TFloat d)) j ns)"
  using assms
  by (auto simp: number_text_def given_def put_opt_def store_value_def opt_def convert_def allowed_def
      split: option.splits json.splits)

lemma stored_switched:
  "stored (switched f b @ as) ns = stored as (put_opt (dest_of (switch f)) (if b then Some (JBool True) else None) ns)"
  by (auto simp: switched_def put_opt_def)

lemma stored_last: "stored (switched f b) ns = Some (put_opt (dest_of (switch f)) (if b then Some (JBool True) else None) ns)"
  using stored_switched [of f b "[]"] by simp

lemma stored_required:
  "stored ((required_opt f, f, Some v) # as) ns = stored as (put_opt (dest_of (required_opt f)) (Some (JStr v)) ns)"
  by (auto simp: put_opt_def store_value_def required_opt_def opt_def convert_def allowed_def split: option.splits)

lemma dest_of_kinds: "dest_of (opt f ty d) = dest_of (switch f)" "dest_of (required_opt f) = dest_of (switch f)"
  by (simp_all add: dest_of_def opt_def switch_def required_opt_def)

lemma agent_command_meant: "\<forall>a \<in> set (agent_command home u k ar ram vram). meant_as (agent_options home) a"
  by (auto simp: agent_command_def given_def switched_def meant_as_def agent_options_def opt_def switch_def required_opt_def
      split: option.splits if_splits)

lemma agent_command_required:
  "\<forall>sp \<in> set (agent_options home). as_required sp \<longrightarrow> sp \<in> set [] \<union> fst ` set (agent_command home u k ar ram vram)"
  by (simp add: agent_options_def agent_command_def opt_def switch_def required_opt_def)

definition agent_namespace :: "string \<Rightarrow> string \<Rightarrow> string \<Rightarrow> agent_args \<Rightarrow> json pydict" where
  "agent_namespace home u k ar =
     put_opt (dest_of (switch ''--no-deregister-on-exit'')) (if ar_no_deregister ar then Some (JBool True) else None)
     (put_opt (dest_of (switch ''--once'')) (if ar_once ar then Some (JBool True) else None)
     (put_opt (dest_of (switch ''--no-gpu'')) (if ar_no_gpu ar then Some (JBool True) else None)
     (put_opt (dest_of (opt ''--vram-gb'' TFloat JNull)) (ar_vram_gb ar)
     (put_opt (dest_of (opt ''--ram-gb'' TFloat JNull)) (ar_ram_gb ar)
     (put_opt (dest_of (opt ''--worker-id'' TStr JNull)) (map_option JStr (ar_worker_id ar))
     (put_opt (dest_of (opt ''--name'' TStr JNull)) (map_option JStr (ar_name ar))
     (put_opt (dest_of (opt ''--worker-url'' TStr JNull)) (map_option JStr (ar_worker_url ar))
     (put_opt (dest_of (opt ''--ollama-url'' TStr (JStr ''http://localhost:11434''))) (Some (JStr (ar_ollama_url ar)))
     (put_opt (dest_of (required_opt ''--api-key'')) (Some (JStr k))
     (put_opt (dest_of (required_opt ''--gateway-url'')) (Some (JStr u))
       (defaults_of (agent_options home))))))))))))"

lemma agent_dests:
  "dest_of (switch ''--no-deregister-on-exit'') = ''no_deregister_on_exit''" "dest_of (switch ''--once'') = ''once''"
  "dest_of (switch ''--no-gpu'') = ''no_gpu''" "dest_of (switch ''--vram-gb'') = ''vram_gb''"
  "dest_of (switch ''--ram-gb'') = ''ram_gb''" "dest_of (switch ''--worker-id'') = ''worker_id''"
  "dest_of (switch ''--name'') = ''name''" "dest_of (switch ''--worker-url'') = ''worker_url''"
  "dest_of (switch ''--ollama-url'') = ''ollama_url''" "dest_of (switch ''--api-key'') = ''api_key''"
  "dest_of (switch ''--gateway-url'') = ''gateway_url''" "dest_of (switch ''--interval'') = ''interval''"
  "dest_of (switch ''--state-dir'') = ''state_dir''"
  by (simp_all add: dest_of_def switch_def)

lemma agent_defaults:
  "defaults_of (agent_options home) =
     [(''gateway_url'', JNull), (''api_key'', JNull), (''ollama_url'', JStr ''http://localhost:11434''), (''worker_url'', JNull),
      (''name'', JNull), (''worker_id'', JNull), (''state_dir'', JStr home), (''interval'', JFloat 300 1), (''ram_gb'', JNull),
      (''vram_gb'', JNull), (''no_gpu'', JBool False), (''once'', JBool False), (''no_deregister_on_exit'', JBool False)]"
  by (simp add: defaults_of_def agent_options_def dest_of_kinds agent_dests) (simp add: opt_def required_opt_def switch_def)

lemma agent_lookup:
  "map_of (agent_namespace home u k ar) ''api_key'' = Some (JStr k)"
  "map_of (agent_namespace home u k ar) ''ollama_url'' = Some (JStr (ar_ollama_url ar))"
  "map_of (agent_namespace home u k ar) ''worker_url'' = Some (case ar_worker_url ar of None \<Rightarrow> JNull | Some s \<Rightarrow> JStr s)"
  "map_of (agent_namespace home u k ar) ''name'' = Some (case ar_name ar of None \<Rightarrow> JNull | Some s \<Rightarrow> JStr s)"
  "map_of (agent_namespace home u k ar) ''worker_id'' = Some (case ar_worker_id ar of None \<Rightarrow> JNull | Some s \<Rightarrow> JStr s)"
  "map_of (agent_namespace home u k ar) ''ram_gb'' = Some (case ar_ram_gb ar of None \<Rightarrow> JNull | Some x \<Rightarrow> x)"
  "map_of (agent_namespace home u k ar) ''vram_gb'' = Some (case ar_vram_gb ar of None \<Rightarrow> JNull | Some x \<Rightarrow> x)"
  "map_of (agent_namespace home u k ar) ''no_gpu'' = Some (JBool (ar_no_gpu ar))"
  "map_of (agent_namespace home u k ar) ''once'' = Some (JBool (ar_once ar))"
  "map_of (agent_namespace home u k ar) ''no_deregister_on_exit'' = Some (JBool (ar_no_deregister ar))"
  by (simp_all add: agent_namespace_def map_of_put_opt dest_of_kinds agent_dests agent_defaults split: option.split)

lemma number_text_cases: "number_text s j \<Longrightarrow> j = None \<or> (\<exists>m p. j = Some (JFloat m p))"
  by (auto simp: number_text_def split: option.splits json.splits)

lemma agent_args_read:
  assumes "number_text ram (ar_ram_gb ar)" "number_text vram (ar_vram_gb ar)" "ar_gateway_key ar = Some k"
  shows "map_command agent_args_of (parse_args (agent_options home) (map (rendered \<circ> snd) (agent_command home u k ar ram vram)))
    = Runs ar"
proof -
  let ?ns = "agent_namespace home u k ar"
  have ns: "stored (agent_command home u k ar ram vram) (defaults_of (agent_options home)) = Some ?ns"
    by (simp del: stored.simps add: agent_command_def agent_namespace_def stored_given_str stored_given_float [OF assms(1)] stored_given_float [OF assms(2)]
        stored_switched stored_last stored_required)
  have "ns_number ?ns ''ram_gb'' = ar_ram_gb ar" "ns_number ?ns ''vram_gb'' = ar_vram_gb ar"
    using number_text_cases [OF assms(1)] number_text_cases [OF assms(2)] by (auto simp: ns_number_def agent_lookup)
  then have ar: "agent_args_of ?ns = ar"
    using assms(3) by (cases ar) (simp add: agent_args_of_def ns_opt_def ns_str_def ns_flag_def agent_lookup split: option.split)
  have "parse_args (agent_options home) (map (rendered \<circ> snd) (agent_command home u k ar ram vram)) = Runs ?ns"
    unfolding parse_args_def
    by (rule parse_rendered [OF agent_options_ok agent_command_meant ns agent_command_required])
  then show ?thesis by (simp add: ar)
qed

text \<open>A run of the program with these arguments is a run of the agent; without its two required options it does nothing.\<close>

lemma agent_main_runs:
  assumes "number_text ram (ar_ram_gb ar)" "number_text vram (ar_vram_gb ar)" "ar_gateway_key ar = Some k"
  shows "agent_main rd cfg url_path home (map (rendered \<circ> snd) (agent_command home u k ar ram vram)) ah b bs goodbye s
    = agent_run rd cfg url_path ar ah b bs goodbye s"
  using agent_args_read [OF assms, of home u]
  by (cases "parse_args (agent_options home) (map (rendered \<circ> snd) (agent_command home u k ar ram vram))")
     (simp_all add: agent_main_def)

lemma agent_main_without_key:
  assumes "u \<noteq> []" "hd u \<noteq> CHR ''-''"
  shows "agent_main rd cfg url_path home [''--gateway-url'', u] ah b bs goodbye s = (Exited 2, s)"
proof -
  have "word_of (agent_options home) ''--gateway-url'' = Option_word (required_opt ''--gateway-url'') None"
    by (rule word_of_flag [OF agent_options_ok]) (simp_all add: agent_options_def required_opt_def opt_def)
  moreover have "word_of (agent_options home) u = Plain_word u" "u \<noteq> ''--''" using assms by (auto simp: word_of_def)
  ultimately have "words_of (agent_options home) [''--gateway-url'', u] = [Option_word (required_opt ''--gateway-url'') None, Plain_word u]"
    by simp
  then have "parse_args (agent_options home) [''--gateway-url'', u] = Usage_error"
    by (simp add: parse_args_def store_value_def allowed_def convert_def required_opt_def opt_def agent_options_def)
  then show ?thesis by (simp add: agent_main_def)
qed

end
